(* ===== verification/Magnetar_Prelude.thy ===== *)
theory Magnetar_Prelude
  imports Main "HOL-Library.Word" "HOL-Library.AList" "HOL-Library.Product_Lexorder"
begin

text \<open>
  Shared vocabulary of the development: the machine integer ranges the Rust code uses, its
  saturating and wrapping arithmetic, big-endian byte strings, hash maps as association lists
  with distinct keys, and B-tree sets as strictly sorted lists.

  Counters of type u32, u64 and usize are natural numbers whose saturation or wrap-around is
  written out where the source performs it; fields on which the source works bitwise are words.
\<close>

section \<open>Machine integers\<close>

type_synonym byte = "8 word"
type_synonym bytes = "byte list"

abbreviation U8_MAX :: nat where "U8_MAX \<equiv> 255"
abbreviation U32_MAX :: nat where "U32_MAX \<equiv> 4294967295"
abbreviation U64_MAX :: nat where "U64_MAX \<equiv> 18446744073709551615"
abbreviation USIZE_MAX :: nat where "USIZE_MAX \<equiv> 18446744073709551615"
abbreviation I32_MAX :: int where "I32_MAX \<equiv> 2147483647"
abbreviation I64_MAX :: int where "I64_MAX \<equiv> 9223372036854775807"

text \<open>The collections of the development: unfolding rules, and invariant preservation rules.\<close>

named_theorems op_defs \<open>definitions of the modelled operations\<close>
named_theorems inv_rules \<open>an operation keeps the invariant of its component\<close>

definition sat_add :: "nat \<Rightarrow> nat \<Rightarrow> nat \<Rightarrow> nat" where
  "sat_add m a b = min (a + b) m"

definition sat_mul :: "nat \<Rightarrow> nat \<Rightarrow> nat \<Rightarrow> nat" where
  "sat_mul m a b = min (a * b) m"

definition checked_add :: "nat \<Rightarrow> nat \<Rightarrow> nat \<Rightarrow> nat option" where
  "checked_add m a b = (if a + b \<le> m then Some (a + b) else None)"

definition wrap_add64 :: "nat \<Rightarrow> nat \<Rightarrow> nat" where
  "wrap_add64 a b = (a + b) mod 2 ^ 64"

text \<open>Reinterpreting a u64 as an i64 (the cast \<open>x as i64\<close>).\<close>

definition u64_as_i64 :: "nat \<Rightarrow> int" where
  "u64_as_i64 x = (if x < 2 ^ 63 then int x else int x - 2 ^ 64)"

definition i64_as_u64 :: "int \<Rightarrow> nat" where
  "i64_as_u64 x = nat (x mod 2 ^ 64)"

text \<open>\<open>usize as u32\<close>: the low 32 bits.\<close>

definition as_u32 :: "nat \<Rightarrow> nat" where
  "as_u32 x = x mod 2 ^ 32"

text \<open>\<open>Ord::clamp\<close>: panics (here \<open>None\<close>) when the bounds are reversed.\<close>

definition rust_clamp :: "nat \<Rightarrow> nat \<Rightarrow> nat \<Rightarrow> nat option" where
  "rust_clamp x lo hi = (if hi < lo then None else Some (max lo (min x hi)))"

definition div_ceil :: "nat \<Rightarrow> nat \<Rightarrow> nat" where
  "div_ceil a b = a div b + (if a mod b = 0 then 0 else 1)"

lemma sat_add_le [simp]: "sat_add m a b \<le> m"
  by (simp add: sat_add_def)

lemma sat_add_exact [simp]: "a + b \<le> m \<Longrightarrow> sat_add m a b = a + b"
  by (simp add: sat_add_def)

lemma sat_add_mono: "a \<le> m \<Longrightarrow> a \<le> sat_add m a b"
  by (simp add: sat_add_def)

lemma sat_mul_le [simp]: "sat_mul m a b \<le> m"
  by (simp add: sat_mul_def)

lemma wrap_add64_exact [simp]: "a + b < 2 ^ 64 \<Longrightarrow> wrap_add64 a b = a + b"
  by (simp add: wrap_add64_def)

lemma rust_clamp_Some: "rust_clamp x lo hi = Some y \<Longrightarrow> lo \<le> y \<and> y \<le> hi"
  by (auto simp: rust_clamp_def split: if_splits)

lemma div_ceil_mult:
  assumes "0 < b" shows "a \<le> div_ceil a b * b"
proof (cases "a mod b = 0")
  case True
  then show ?thesis using div_mult_mod_eq [of a b] by (simp add: div_ceil_def)
next
  case False
  then have "div_ceil a b * b = a div b * b + b" by (simp add: div_ceil_def)
  moreover have "a mod b < b" using assms by simp
  ultimately show ?thesis using div_mult_mod_eq [of a b] by linarith
qed

lemma div_ceil_less: "0 < b \<Longrightarrow> i < a \<Longrightarrow> i div b < div_ceil a b"
  using div_ceil_mult [of b a] by (simp add: less_mult_imp_div_less)

section \<open>Big-endian byte strings\<close>

definition be_bytes :: "nat \<Rightarrow> nat \<Rightarrow> bytes" where
  "be_bytes n x = map (\<lambda>i. word_of_nat (x div 256 ^ i)) (rev [0..<n])"

definition be_value :: "bytes \<Rightarrow> nat" where
  "be_value bs = foldl (\<lambda>acc b. acc * 256 + unat b) 0 bs"

abbreviation put_u16 :: "nat \<Rightarrow> bytes" where "put_u16 \<equiv> be_bytes 2"
abbreviation put_u32 :: "nat \<Rightarrow> bytes" where "put_u32 \<equiv> be_bytes 4"

lemma length_be_bytes [simp]: "length (be_bytes n x) = n"
  by (simp add: be_bytes_def)

lemma be_bytes_Suc: "be_bytes (Suc n) x = word_of_nat (x div 256 ^ n) # be_bytes n x"
  by (simp add: be_bytes_def)

lemma be_value_foldl_acc:
  "foldl (\<lambda>acc b. acc * 256 + unat (b :: byte)) a bs = a * 256 ^ length bs + be_value bs"
proof (induction bs arbitrary: a)
  case Nil
  then show ?case by (simp add: be_value_def)
next
  case (Cons b bs)
  have "be_value (b # bs) = unat b * 256 ^ length bs + be_value bs"
    using Cons.IH [of "unat b"] by (simp add: be_value_def)
  then show ?case
    using Cons.IH [of "a * 256 + unat b"] by (simp add: algebra_simps)
qed

lemma be_value_Cons: "be_value (b # bs) = unat b * 256 ^ length bs + be_value bs"
  using be_value_foldl_acc [of "unat b" bs] by (simp add: be_value_def)

lemma be_value_be_bytes: "be_value (be_bytes n x) = x mod 256 ^ n"
proof (induction n)
  case 0
  then show ?case by (simp add: be_bytes_def be_value_def)
next
  case (Suc n)
  have "unat (word_of_nat (x div 256 ^ n) :: byte) = (x div 256 ^ n) mod 256"
    by (simp add: unat_of_nat)
  then have "be_value (be_bytes (Suc n) x) = (x div 256 ^ n) mod 256 * 256 ^ n + x mod 256 ^ n"
    by (simp add: be_bytes_Suc be_value_Cons Suc)
  also have "\<dots> = x mod 256 ^ Suc n"
    by (metis add.commute mod_mult2_eq mult.commute power_Suc2)
  finally show ?case .
qed

lemma be_value_u32 [simp]: "x \<le> U32_MAX \<Longrightarrow> be_value (put_u32 x) = x"
  by (simp add: be_value_be_bytes)

lemma be_value_u16 [simp]: "x \<le> 65535 \<Longrightarrow> be_value (put_u16 x) = x"
  by (simp add: be_value_be_bytes)

lemma be_value_less: "be_value bs < 256 ^ length bs"
proof (induction bs)
  case Nil
  then show ?case by (simp add: be_value_def)
next
  case (Cons b bs)
  have "unat b < 256" using unsigned_less [of b] by simp
  then have "unat b + 1 \<le> 256" by simp
  then have "(unat b + 1) * 256 ^ length bs \<le> 256 * 256 ^ length bs"
    by (rule mult_le_mono1)
  then have "unat b * 256 ^ length bs + 256 ^ length bs \<le> 256 ^ length (b # bs)"
    by (simp only: distrib_right mult_1 length_Cons power_Suc)
  with Cons show ?case by (simp only: be_value_Cons)
qed

section \<open>Hash maps as association lists with distinct keys\<close>

type_synonym ('k, 'v) hashmap = "('k \<times> 'v) list"

definition hm_keys :: "('k, 'v) hashmap \<Rightarrow> 'k list" where
  "hm_keys m = map fst m"

definition hm_wf :: "('k, 'v) hashmap \<Rightarrow> bool" where
  "hm_wf m \<longleftrightarrow> distinct (hm_keys m)"

abbreviation hm_get :: "('k, 'v) hashmap \<Rightarrow> 'k \<Rightarrow> 'v option" where "hm_get \<equiv> map_of"
abbreviation hm_insert :: "'k \<Rightarrow> 'v \<Rightarrow> ('k, 'v) hashmap \<Rightarrow> ('k, 'v) hashmap" where
  "hm_insert \<equiv> AList.update"
abbreviation hm_remove :: "'k \<Rightarrow> ('k, 'v) hashmap \<Rightarrow> ('k, 'v) hashmap" where
  "hm_remove \<equiv> AList.delete"

definition hm_contains :: "('k, 'v) hashmap \<Rightarrow> 'k \<Rightarrow> bool" where
  "hm_contains m k \<longleftrightarrow> map_of m k \<noteq> None"

lemma hm_wf_Nil [simp]: "hm_wf []"
  by (simp add: hm_wf_def hm_keys_def)

lemma hm_wf_insert [simp]: "hm_wf m \<Longrightarrow> hm_wf (hm_insert k v m)"
  by (simp add: hm_wf_def hm_keys_def distinct_update)

lemma hm_wf_remove [simp]: "hm_wf m \<Longrightarrow> hm_wf (hm_remove k m)"
  by (simp add: hm_wf_def hm_keys_def distinct_delete)

lemma hm_get_insert [simp]: "hm_get (hm_insert k v m) = (hm_get m)(k \<mapsto> v)"
  by (rule update_conv')

lemma hm_get_remove [simp]: "hm_get (hm_remove k m) = (hm_get m)(k := None)"
  by (rule delete_conv')

lemma hm_contains_keys: "hm_contains m k \<longleftrightarrow> k \<in> set (hm_keys m)"
  by (simp add: hm_contains_def hm_keys_def map_of_eq_None_iff)

lemma hm_get_iff: "hm_wf m \<Longrightarrow> hm_get m k = Some v \<longleftrightarrow> (k, v) \<in> set m"
  by (simp add: hm_wf_def hm_keys_def)

text \<open>Removing several keys one after the other, as the drain loops of the source do.\<close>

definition hm_remove_all :: "'k list \<Rightarrow> ('k, 'v) hashmap \<Rightarrow> ('k, 'v) hashmap" where
  "hm_remove_all ks m = fold hm_remove ks m"

lemma hm_remove_all_filter: "hm_remove_all ks m = filter (\<lambda>(k, v). k \<notin> set ks) m"
proof (induction ks arbitrary: m)
  case Nil
  then show ?case by (simp add: hm_remove_all_def)
next
  case (Cons k ks)
  have "hm_remove_all (k # ks) m = hm_remove_all ks (hm_remove k m)"
    by (simp add: hm_remove_all_def)
  also have "\<dots> = filter (\<lambda>(k, v). k \<notin> set ks) (hm_remove k m)"
    by (rule Cons.IH)
  also have "\<dots> = filter (\<lambda>(k', v). k' \<notin> set (k # ks)) m"
    by (auto simp: AList.delete_eq intro: filter_cong)
  finally show ?case .
qed

lemma hm_wf_filter [simp]: "hm_wf m \<Longrightarrow> hm_wf (filter P m)"
  by (simp add: hm_wf_def hm_keys_def distinct_map_filter)

lemma hm_get_filter:
  "hm_wf m \<Longrightarrow> hm_get (filter P m) k =
     (case hm_get m k of None \<Rightarrow> None | Some v \<Rightarrow> if P (k, v) then Some v else None)"
proof (induction m)
  case Nil
  then show ?case by simp
next
  case (Cons a m)
  obtain k' v' where a: "a = (k', v')" by (cases a)
  have wf: "hm_wf m" and "hm_get m k' = None"
    using Cons.prems by (auto simp: hm_wf_def hm_keys_def a map_of_eq_None_iff)
  with Cons.IH [OF wf] show ?case by (auto simp: a)
qed

section \<open>B-tree sets as strictly sorted lists\<close>

definition bt_insert :: "'a :: linorder \<Rightarrow> 'a list \<Rightarrow> 'a list" where
  "bt_insert x xs = insort_insert x xs"

definition bt_wf :: "'a :: linorder list \<Rightarrow> bool" where
  "bt_wf xs \<longleftrightarrow> sorted xs \<and> distinct xs"

lemma bt_wf_Nil [simp]: "bt_wf []"
  by (simp add: bt_wf_def)

lemma bt_wf_insert [simp]: "bt_wf xs \<Longrightarrow> bt_wf (bt_insert x xs)"
  by (simp add: bt_wf_def bt_insert_def sorted_insort_insert distinct_insort_insert)

lemma set_bt_insert [simp]: "set (bt_insert x xs) = insert x (set xs)"
  by (auto simp: bt_insert_def set_insort_insert)

lemma bt_wf_unique: "bt_wf xs \<Longrightarrow> xs = sorted_list_of_set (set xs)"
  by (simp add: bt_wf_def sorted_distinct_set_unique)

section \<open>Lists\<close>

text \<open>Position of the first element satisfying a predicate (\<open>Iterator::position\<close>).\<close>

fun list_position :: "('a \<Rightarrow> bool) \<Rightarrow> 'a list \<Rightarrow> nat option" where
  "list_position P [] = None"
| "list_position P (x # xs) = (if P x then Some 0 else map_option Suc (list_position P xs))"

lemma list_position_None: "list_position P xs = None \<longleftrightarrow> (\<forall>x\<in>set xs. \<not> P x)"
  by (induction xs) auto

lemma list_position_Some:
  "list_position P xs = Some i \<Longrightarrow> i < length xs \<and> P (xs ! i) \<and> (\<forall>j<i. \<not> P (xs ! j))"
proof (induction xs arbitrary: i)
  case Nil
  then show ?case by simp
next
  case (Cons x xs)
  then show ?case
    by (cases i) (auto split: if_splits simp: less_Suc_eq_0_disj)
qed

text \<open>\<open>slice::get\<close>.\<close>

definition list_get :: "'a list \<Rightarrow> nat \<Rightarrow> 'a option" where
  "list_get xs i = (if i < length xs then Some (xs ! i) else None)"

text \<open>\<open>VecDeque::remove(i)\<close>: drop the element at an index that is in range.\<close>

definition remove_at :: "nat \<Rightarrow> 'a list \<Rightarrow> 'a list" where
  "remove_at i xs = take i xs @ drop (Suc i) xs"

lemma length_remove_at: "i < length xs \<Longrightarrow> length (remove_at i xs) = length xs - 1"
  by (simp add: remove_at_def)

lemma nth_remove_at:
  "j < length xs - 1 \<Longrightarrow> i < length xs \<Longrightarrow> remove_at i xs ! j = xs ! (if j < i then j else Suc j)"
  by (simp add: remove_at_def nth_append min_def)

lemma mset_remove_at: "i < length xs \<Longrightarrow> xs = take i xs @ xs ! i # drop (Suc i) xs"
  by (rule id_take_nth_drop)

end
