(* ===== verification/Msg_Types.thy ===== *)
theory Msg_Types
  imports Magnetar_Prelude
begin

text \<open>
  The identifiers of \<open>crates/magnetar-proto/src/types.rs\<close> and the protobuf structures of
  \<open>crates/magnetar-proto/src/pb/pulsar.proto.rs\<close> that the producer, the consumer and the trackers
  read and write. Handles and ids are newtypes over u64 in the source and natural numbers here.
\<close>

type_synonym request_id = nat
type_synonym producer_handle = nat
type_synonym consumer_handle = nat
type_synonym sequence_id = nat
type_synonym waker = nat

section \<open>Message ids\<close>

datatype message_id =
  MessageId (ledger_id: nat) (entry_id: nat) (partition: int) (batch_index: int) (batch_size: int)

text \<open>The derived \<open>Ord\<close>: lexicographic over the fields in declaration order.\<close>

definition mid_key :: "message_id \<Rightarrow> nat \<times> nat \<times> int \<times> int \<times> int" where
  "mid_key m = (ledger_id m, entry_id m, partition m, batch_index m, batch_size m)"

lemma mid_key_inject [simp]: "mid_key a = mid_key b \<longleftrightarrow> a = b"
  by (cases a; cases b) (simp add: mid_key_def)

instantiation message_id :: linorder
begin

definition less_eq_message_id :: "message_id \<Rightarrow> message_id \<Rightarrow> bool" where
  "less_eq_message_id a b \<longleftrightarrow> mid_key a \<le> mid_key b"

definition less_message_id :: "message_id \<Rightarrow> message_id \<Rightarrow> bool" where
  "less_message_id a b \<longleftrightarrow> mid_key a < mid_key b"

instance
proof
  fix a b c :: message_id
  show "a < b \<longleftrightarrow> a \<le> b \<and> \<not> b \<le> a"
    by (simp add: less_eq_message_id_def less_message_id_def less_le_not_le)
  show "a \<le> a"
    by (simp add: less_eq_message_id_def)
  show "a \<le> b \<Longrightarrow> b \<le> c \<Longrightarrow> a \<le> c"
    unfolding less_eq_message_id_def by (rule order_trans)
  show "a \<le> b \<Longrightarrow> b \<le> a \<Longrightarrow> a = b"
    by (simp add: less_eq_message_id_def)
  show "a \<le> b \<or> b \<le> a"
    unfolding less_eq_message_id_def by (rule linear)
qed

end

definition MID_EARLIEST :: message_id where
  "MID_EARLIEST = MessageId U64_MAX U64_MAX (-1) (-1) 0"

definition MID_LATEST :: message_id where
  "MID_LATEST = MessageId 9223372036854775807 9223372036854775807 (-1) (-1) 0"

text \<open>\<open>pb::MessageIdData\<close>; the boxed first chunk id is a nested value.\<close>

datatype message_id_data =
  MessageIdData (pb_ledger_id: nat) (pb_entry_id: nat) (pb_partition: "int option")
    (pb_batch_index: "int option") (pb_ack_set: "int list") (pb_batch_size: "int option")
    (pb_first_chunk_message_id: "message_id_data option")

definition unwrap_or :: "'a \<Rightarrow> 'a option \<Rightarrow> 'a" where
  "unwrap_or d x = (case x of None \<Rightarrow> d | Some v \<Rightarrow> v)"

lemma unwrap_or_simps [simp]: "unwrap_or d None = d" "unwrap_or d (Some v) = v"
  by (simp_all add: unwrap_or_def)

definition mid_from_pb :: "message_id_data \<Rightarrow> message_id" where
  "mid_from_pb p = MessageId (pb_ledger_id p) (pb_entry_id p) (unwrap_or (-1) (pb_partition p))
     (unwrap_or (-1) (pb_batch_index p)) (unwrap_or (-1) (pb_batch_size p))"

definition mid_to_pb :: "message_id \<Rightarrow> message_id_data" where
  "mid_to_pb m = MessageIdData (ledger_id m) (entry_id m) (Some (partition m))
     (Some (batch_index m)) [] (Some (batch_size m)) None"

lemma mid_pb_roundtrip: "mid_from_pb (mid_to_pb m) = m"
  by (cases m) (simp add: mid_from_pb_def mid_to_pb_def)

section \<open>Compression kinds\<close>

datatype compression_kind = CkNone | CkLz4 | CkZlib | CkZstd | CkSnappy

definition ck_to_pb :: "compression_kind \<Rightarrow> int" where
  "ck_to_pb k = (case k of CkNone \<Rightarrow> 0 | CkLz4 \<Rightarrow> 1 | CkZlib \<Rightarrow> 2 | CkZstd \<Rightarrow> 3 | CkSnappy \<Rightarrow> 4)"

text \<open>\<open>pb::CompressionType::try_from\<close> followed by \<open>kind_from_pb\<close>.\<close>

definition ck_try_from :: "int \<Rightarrow> compression_kind option" where
  "ck_try_from v =
     (if v = 0 then Some CkNone else if v = 1 then Some CkLz4 else if v = 2 then Some CkZlib
      else if v = 3 then Some CkZstd else if v = 4 then Some CkSnappy else None)"

definition ck_from_pb_i32 :: "int \<Rightarrow> compression_kind" where
  "ck_from_pb_i32 v = unwrap_or CkNone (ck_try_from v)"

lemma ck_pb_roundtrip: "ck_from_pb_i32 (ck_to_pb k) = k"
  by (cases k) (simp_all add: ck_to_pb_def ck_from_pb_i32_def ck_try_from_def)

section \<open>Transaction ids\<close>

datatype txn_id = TxnId (most_sig_bits: nat) (least_sig_bits: nat)

section \<open>Message metadata\<close>

record message_metadata =
  mm_producer_name :: string
  mm_sequence_id :: nat
  mm_publish_time :: nat
  mm_properties :: "(string \<times> string) list"
  mm_replicated_from :: "string option"
  mm_partition_key :: "string option"
  mm_replicate_to :: "string list"
  mm_compression :: "int option"
  mm_uncompressed_size :: "nat option"
  mm_num_messages_in_batch :: "int option"
  mm_event_time :: "nat option"
  mm_encryption_keys :: "(string \<times> bytes \<times> (string \<times> string) list) list"
  mm_encryption_algo :: "string option"
  mm_encryption_param :: "bytes option"
  mm_schema_version :: "bytes option"
  mm_partition_key_b64_encoded :: "bool option"
  mm_ordering_key :: "bytes option"
  mm_deliver_at_time :: "int option"
  mm_marker_type :: "int option"
  mm_txnid_least_bits :: "nat option"
  mm_txnid_most_bits :: "nat option"
  mm_highest_sequence_id :: "nat option"
  mm_null_value :: "bool option"
  mm_uuid :: "string option"
  mm_num_chunks_from_msg :: "int option"
  mm_total_chunk_msg_size :: "int option"
  mm_chunk_id :: "int option"
  mm_null_partition_key :: "bool option"
  mm_compacted_batch_indexes :: "int list"
  mm_schema_id :: "bytes option"
  mm_entry_hash_min :: "nat option"
  mm_entry_hash_max :: "nat option"

definition default_metadata :: message_metadata where
  "default_metadata = \<lparr>mm_producer_name = [], mm_sequence_id = 0, mm_publish_time = 0,
     mm_properties = [], mm_replicated_from = None, mm_partition_key = None, mm_replicate_to = [],
     mm_compression = None, mm_uncompressed_size = None, mm_num_messages_in_batch = None,
     mm_event_time = None, mm_encryption_keys = [], mm_encryption_algo = None,
     mm_encryption_param = None, mm_schema_version = None, mm_partition_key_b64_encoded = None,
     mm_ordering_key = None, mm_deliver_at_time = None, mm_marker_type = None,
     mm_txnid_least_bits = None, mm_txnid_most_bits = None, mm_highest_sequence_id = None,
     mm_null_value = None, mm_uuid = None, mm_num_chunks_from_msg = None,
     mm_total_chunk_msg_size = None, mm_chunk_id = None, mm_null_partition_key = None,
     mm_compacted_batch_indexes = [], mm_schema_id = None, mm_entry_hash_min = None,
     mm_entry_hash_max = None\<rparr>"

text \<open>\<open>pb::SingleMessageMetadata\<close>, the per-message header inside a batch.\<close>

record single_metadata =
  sm_properties :: "(string \<times> string) list"
  sm_partition_key :: "string option"
  sm_payload_size :: int
  sm_compacted_out :: "bool option"
  sm_event_time :: "nat option"
  sm_partition_key_b64_encoded :: "bool option"
  sm_ordering_key :: "bytes option"
  sm_sequence_id :: "nat option"
  sm_null_value :: "bool option"
  sm_null_partition_key :: "bool option"

definition default_single :: single_metadata where
  "default_single = \<lparr>sm_properties = [], sm_partition_key = None, sm_payload_size = 0,
     sm_compacted_out = None, sm_event_time = None, sm_partition_key_b64_encoded = None,
     sm_ordering_key = None, sm_sequence_id = None, sm_null_value = None,
     sm_null_partition_key = None\<rparr>"

text \<open>\<open>pb::CommandSend\<close>, the command of a publish frame.\<close>

record command_send =
  cs_producer_id :: nat
  cs_sequence_id :: nat
  cs_num_messages :: "int option"
  cs_txnid_least_bits :: "nat option"
  cs_txnid_most_bits :: "nat option"
  cs_highest_sequence_id :: "nat option"
  cs_is_chunk :: "bool option"
  cs_marker :: "bool option"
  cs_message_id :: "message_id_data option"

end
