(* ===== verification/Topic_Lookup.thy ===== *)
theory Topic_Lookup
  imports Msg_Types "HOL-Library.Sublist"
begin

text \<open>
  The topic lookup of \<open>lookup.rs\<close>: names of partitions, the registry of lookups in flight and the
  translation of a broker's answer; and the registry of \<open>topic_watcher.rs\<close>. Strings are lists of bytes.
\<close>

section \<open>Names of partitions\<close>

definition MAX_LOOKUP_REDIRECTS :: nat where "MAX_LOOKUP_REDIRECTS = 5"
definition MAX_LOOKUP_SESSION_REISSUES :: nat where "MAX_LOOKUP_SESSION_REISSUES = 5"

text \<open>\<open>str::rsplit_once\<close>: the text before and after the last occurrence.\<close>

definition rsplit_once :: "char \<Rightarrow> string \<Rightarrow> (string \<times> string) option" where
  "rsplit_once c s =
     (if c \<in> set s
      then let suf = rev (takeWhile (\<lambda>x. x \<noteq> c) (rev s)) in Some (take (length s - length suf - 1) s, suf)
      else None)"

definition is_ascii_digit :: "char \<Rightarrow> bool" where
  "is_ascii_digit c \<longleftrightarrow> 48 \<le> (of_char c :: nat) \<and> (of_char c :: nat) \<le> 57"

definition decimal :: "string \<Rightarrow> nat" where
  "decimal s = foldl (\<lambda>n c. n * 10 + (of_char c - 48)) 0 s"

text \<open>\<open>str::parse::<u32>\<close> on a string of digits.\<close>

definition parse_u32 :: "string \<Rightarrow> nat option" where
  "parse_u32 s = (if s = [] then None else if decimal s \<le> U32_MAX then Some (decimal s) else None)"

definition topic_partition_index :: "string \<Rightarrow> nat option" where
  "topic_partition_index topic =
     (case rsplit_once CHR ''-'' topic of
        None \<Rightarrow> None
      | Some (pre, suf) \<Rightarrow>
          if suf = [] \<or> \<not> list_all is_ascii_digit suf then None
          else if \<not> suffix ''-partition'' pre then None
          else if length pre = length ''-partition'' then None
          else parse_u32 suf)"

definition is_partition_topic :: "string \<Rightarrow> bool" where
  "is_partition_topic topic \<longleftrightarrow> topic_partition_index topic \<noteq> None"

section \<open>Lookups in flight\<close>

record lookup_request =
  lr_topic :: string
  lr_authoritative :: bool
  lr_hops_remaining :: nat
  lr_chain_origin :: request_id

datatype lookup_rejected = MaxPending

record lookup_registry =
  lk_lookups :: "(request_id, lookup_request) hashmap"
  lk_partitions :: "request_id list"
  lk_max_pending :: nat

definition lookup_registry_new :: "nat \<Rightarrow> lookup_registry" where
  "lookup_registry_new m = \<lparr>lk_lookups = [], lk_partitions = [], lk_max_pending = m\<rparr>"

definition total_pending :: "lookup_registry \<Rightarrow> nat" where
  "total_pending l = length (lk_lookups l) + length (lk_partitions l)"

definition has_capacity :: "lookup_registry \<Rightarrow> bool" where
  "has_capacity l \<longleftrightarrow> lk_max_pending l = 0 \<or> total_pending l < lk_max_pending l"

definition insert_lookup :: "request_id \<Rightarrow> lookup_request \<Rightarrow> lookup_registry \<Rightarrow> lookup_rejected + lookup_registry" where
  "insert_lookup rid req l =
     (if \<not> has_capacity l then Inl MaxPending else Inr (l\<lparr>lk_lookups := hm_insert rid req (lk_lookups l)\<rparr>))"

definition insert_partition :: "request_id \<Rightarrow> lookup_registry \<Rightarrow> lookup_rejected + lookup_registry" where
  "insert_partition rid l =
     (if \<not> has_capacity l then Inl MaxPending else Inr (l\<lparr>lk_partitions := List.insert rid (lk_partitions l)\<rparr>))"

definition take_lookup :: "request_id \<Rightarrow> lookup_registry \<Rightarrow> lookup_registry \<times> lookup_request option" where
  "take_lookup rid l = (l\<lparr>lk_lookups := hm_remove rid (lk_lookups l)\<rparr>, hm_get (lk_lookups l) rid)"

definition take_partition :: "request_id \<Rightarrow> lookup_registry \<Rightarrow> lookup_registry \<times> bool" where
  "take_partition rid l = (l\<lparr>lk_partitions := removeAll rid (lk_partitions l)\<rparr>, rid \<in> set (lk_partitions l))"

definition pending_request_ids :: "lookup_registry \<Rightarrow> request_id list" where
  "pending_request_ids l = map fst (lk_lookups l) @ lk_partitions l"

section \<open>The answer of the broker\<close>

datatype lookup_type = LtRedirect | LtConnect | LtFailed

definition lookup_type_try_from :: "int \<Rightarrow> lookup_type option" where
  "lookup_type_try_from v =
     (if v = 0 then Some LtRedirect else if v = 1 then Some LtConnect else if v = 2 then Some LtFailed else None)"

record lookup_response =
  lp_broker_service_url :: "string option"
  lp_broker_service_url_tls :: "string option"
  lp_response :: "int option"
  lp_request_id :: request_id
  lp_authoritative :: "bool option"
  lp_error :: "int option"
  lp_message :: "string option"
  lp_proxy_through_service_url :: "bool option"

datatype lookup_outcome =
    LoConnect "string option" "string option" bool
  | LoRedirected "string option" "string option" (lo_authoritative: bool) (lo_hops_remaining: nat)
  | LoFailed int string

definition redirect_cap_message :: string where
  "redirect_cap_message = ''lookup redirect cap exceeded (5 hops)''"

definition translate_lookup_response :: "lookup_response \<Rightarrow> lookup_request \<Rightarrow> lookup_outcome" where
  "translate_lookup_response response request =
     (case (case Option.bind (lp_response response) lookup_type_try_from of Some t \<Rightarrow> t | None \<Rightarrow> LtFailed) of
        LtConnect \<Rightarrow>
          LoConnect (lp_broker_service_url response) (lp_broker_service_url_tls response)
            (unwrap_or False (lp_proxy_through_service_url response))
      | LtRedirect \<Rightarrow>
          if lr_hops_remaining request = 0 then LoFailed 0 redirect_cap_message
          else LoRedirected (lp_broker_service_url response) (lp_broker_service_url_tls response)
                 (unwrap_or True (lp_authoritative response)) (lr_hops_remaining request - 1)
      | LtFailed \<Rightarrow> LoFailed (unwrap_or 0 (lp_error response)) (unwrap_or [] (lp_message response)))"

section \<open>Topic watchers\<close>

record topic_watcher =
  tw_pattern :: string
  tw_namespace :: string
  tw_topics_hash :: "string option"
  tw_initialised :: bool

record topic_watcher_registry =
  wr_by_watcher :: "(nat, topic_watcher) hashmap"
  wr_by_request :: "(request_id, nat) hashmap"

definition wr_default :: topic_watcher_registry where
  "wr_default = \<lparr>wr_by_watcher = [], wr_by_request = []\<rparr>"

definition wr_insert :: "nat \<Rightarrow> request_id \<Rightarrow> topic_watcher \<Rightarrow> topic_watcher_registry \<Rightarrow> topic_watcher_registry" where
  "wr_insert watcher_id rid w r =
     r\<lparr>wr_by_watcher := hm_insert watcher_id w (wr_by_watcher r), wr_by_request := hm_insert rid watcher_id (wr_by_request r)\<rparr>"

definition wr_close :: "nat \<Rightarrow> topic_watcher_registry \<Rightarrow> topic_watcher_registry" where
  "wr_close watcher_id r =
     r\<lparr>wr_by_watcher := hm_remove watcher_id (wr_by_watcher r),
       wr_by_request := filter (\<lambda>(_, v). v \<noteq> watcher_id) (wr_by_request r)\<rparr>"

text \<open>The \<open>&mut\<close> lookups, as the update the caller makes through the reference.\<close>

definition lookup_by_watcher_id ::
    "(topic_watcher \<Rightarrow> topic_watcher) \<Rightarrow> nat \<Rightarrow> topic_watcher_registry \<Rightarrow> topic_watcher_registry" where
  "lookup_by_watcher_id f watcher_id r =
     (case hm_get (wr_by_watcher r) watcher_id of
        None \<Rightarrow> r
      | Some w \<Rightarrow> r\<lparr>wr_by_watcher := hm_insert watcher_id (f w) (wr_by_watcher r)\<rparr>)"

definition lookup_by_request ::
    "(topic_watcher \<Rightarrow> topic_watcher) \<Rightarrow> request_id \<Rightarrow> topic_watcher_registry \<Rightarrow> topic_watcher_registry" where
  "lookup_by_request f rid r =
     (case hm_get (wr_by_request r) rid of None \<Rightarrow> r | Some watcher_id \<Rightarrow> lookup_by_watcher_id f watcher_id r)"

section \<open>The names that are partitions\<close>

lemma rsplit_once_Some:
  "rsplit_once c s = Some (a, b) \<longleftrightarrow> s = a @ c # b \<and> c \<notin> set b"
proof
  assume "rsplit_once c s = Some (a, b)"
  then have c: "c \<in> set s" and b: "b = rev (takeWhile (\<lambda>x. x \<noteq> c) (rev s))" and a: "a = take (length s - length b - 1) s"
    by (auto simp: rsplit_once_def Let_def split: if_splits)
  let ?d = "dropWhile (\<lambda>x. x \<noteq> c) (rev s)"
  have nb: "c \<notin> set b" using b by (auto dest: set_takeWhileD)
  have "?d \<noteq> []" using c by (auto simp: dropWhile_eq_Nil_conv)
  then obtain d where d: "?d = c # d" using hd_dropWhile [of "\<lambda>x. x \<noteq> c" "rev s"] by (cases ?d) auto
  have "rev s = rev b @ c # d" using takeWhile_dropWhile_id [of "\<lambda>x. x \<noteq> c" "rev s"] b d by simp
  then have "s = rev d @ c # b" by (metis append.assoc append_Cons append_Nil rev.simps(2) rev_append rev_rev_ident)
  then show "s = a @ c # b \<and> c \<notin> set b" using a nb by simp
next
  assume r: "s = a @ c # b \<and> c \<notin> set b"
  then have "takeWhile (\<lambda>x. x \<noteq> c) (rev s) = rev b" by (induction b arbitrary: s rule: rev_induct) auto
  then show "rsplit_once c s = Some (a, b)" using r by (simp add: rsplit_once_def)
qed

lemma dash_not_digit: "list_all is_ascii_digit s \<Longrightarrow> CHR ''-'' \<notin> set s"
  by (auto simp: list_all_iff is_ascii_digit_def)

lemma topic_partition_index_iff:
  "topic_partition_index t = Some n \<longleftrightarrow>
     (\<exists>base ds. t = base @ ''-partition-'' @ ds \<and> base \<noteq> [] \<and> ds \<noteq> [] \<and> list_all is_ascii_digit ds \<and> decimal ds = n \<and> n \<le> U32_MAX)"
    (is "?l \<longleftrightarrow> ?r")
proof
  assume ?l
  then obtain pre ds where s: "rsplit_once CHR ''-'' t = Some (pre, ds)" "ds \<noteq> []" "list_all is_ascii_digit ds"
    "suffix ''-partition'' pre" "length pre \<noteq> length ''-partition''" "parse_u32 ds = Some n"
    by (auto simp: topic_partition_index_def split: option.splits if_splits)
  then obtain base where "pre = base @ ''-partition''" by (auto simp: suffix_def)
  then show ?r using s by (intro exI [of _ base] exI [of _ ds]) (auto simp: rsplit_once_Some parse_u32_def split: if_splits)
next
  assume ?r
  then obtain base ds where t: "t = base @ ''-partition-'' @ ds" "base \<noteq> []" "ds \<noteq> []" "list_all is_ascii_digit ds" "decimal ds = n" "n \<le> U32_MAX"
    by blast
  have "rsplit_once CHR ''-'' t = Some (base @ ''-partition'', ds)"
    unfolding rsplit_once_Some using t(1) dash_not_digit [OF t(4)] by simp
  moreover have "suffix ''-partition'' (base @ ''-partition'')" by (rule suffixI) simp
  ultimately show ?l using t by (simp add: topic_partition_index_def parse_u32_def)
qed

end
