(* ===== verification/Clock.thy ===== *)
theory Clock
  imports Magnetar_Prelude
begin

text \<open>
  The injected clock of \<open>crates/magnetar-proto/src/time.rs\<close>. A \<open>Duration\<close> and an \<open>Instant\<close>
  of the Rust standard library are numbers of nanoseconds with the representable maximum
  written out: a \<open>Duration\<close> holds at most \<open>u64::MAX\<close> seconds and 999999999 ns, an \<open>Instant\<close>
  at most \<open>i64::MAX\<close> seconds and 999999999 ns. The last part is the contract the connection's
  timer loop relies on: a component with a \<open>poll\<close> and a \<open>next_deadline\<close>.
\<close>

type_synonym duration = nat
type_synonym instant = nat

definition DURATION_MAX :: duration where
  "DURATION_MAX = 18446744073709551615 * 1000000000 + 999999999"

definition INSTANT_MAX :: instant where
  "INSTANT_MAX = 9223372036854775807 * 1000000000 + 999999999"

definition from_nanos :: "nat \<Rightarrow> duration" where "from_nanos n = n"
definition from_millis :: "nat \<Rightarrow> duration" where "from_millis n = n * 1000000"
definition from_secs :: "nat \<Rightarrow> duration" where "from_secs n = n * 1000000000"
definition as_millis :: "duration \<Rightarrow> nat" where "as_millis d = d div 1000000"

definition saturating_duration_since :: "instant \<Rightarrow> instant \<Rightarrow> duration" where
  "saturating_duration_since now earlier = now - earlier"

section \<open>Deadlines\<close>

definition OVERFLOW_FALLBACK :: duration where
  "OVERFLOW_FALLBACK = from_secs 3600"

definition instant_checked_add :: "instant \<Rightarrow> duration \<Rightarrow> instant option" where
  "instant_checked_add base delta = checked_add INSTANT_MAX base delta"

text \<open>
  The two operators the source uses: \<open>checked_add\<close>, and \<open>+\<close>, which panics (\<open>None\<close>) when the
  sum is not representable.
\<close>

definition deadline_or_panic :: "instant \<Rightarrow> duration \<Rightarrow> instant option" where
  "deadline_or_panic base delta =
     (case instant_checked_add base delta of
        Some t \<Rightarrow> Some t
      | None \<Rightarrow> instant_checked_add base OVERFLOW_FALLBACK)"

definition deadline_with_clamp :: "instant \<Rightarrow> duration \<Rightarrow> instant" where
  "deadline_with_clamp base delta =
     (case instant_checked_add base delta of Some t \<Rightarrow> t | None \<Rightarrow> base + OVERFLOW_FALLBACK)"

text \<open>
  Outside the last hour before the largest representable instant the two agree: the clamp never
  panics. The components use the total form.
\<close>

lemma deadline_or_panic_Some:
  "base + OVERFLOW_FALLBACK \<le> INSTANT_MAX \<Longrightarrow>
     deadline_or_panic base delta = Some (deadline_with_clamp base delta)"
  by (simp add: deadline_or_panic_def deadline_with_clamp_def instant_checked_add_def
      checked_add_def)

lemma deadline_exact:
  "base + delta \<le> INSTANT_MAX \<Longrightarrow> deadline_with_clamp base delta = base + delta"
  by (simp add: deadline_with_clamp_def instant_checked_add_def checked_add_def)

lemma deadline_ge_base: "base \<le> deadline_with_clamp base delta"
  by (simp add: deadline_with_clamp_def instant_checked_add_def checked_add_def)

lemma deadline_gt_base: "0 < delta \<Longrightarrow> base < deadline_with_clamp base delta"
  by (simp add: deadline_with_clamp_def instant_checked_add_def checked_add_def
      OVERFLOW_FALLBACK_def from_secs_def)

lemma deadline_le_sum:
  "OVERFLOW_FALLBACK \<le> delta \<or> base + delta \<le> INSTANT_MAX \<Longrightarrow>
     deadline_with_clamp base delta \<le> base + delta"
  by (auto simp: deadline_with_clamp_def instant_checked_add_def checked_add_def)

section \<open>The contract of a timer source\<close>

text \<open>
  \<open>Connection::poll_timeout\<close> sleeps until the smallest \<open>next_deadline\<close> of its components and
  \<open>Connection::handle_timeout\<close> then calls their \<open>poll\<close>. That loop is sound when a component is
  quiet before its deadline (no work is lost by sleeping) and when a poll moves the deadline past
  the current instant (the loop does not spin).
\<close>

locale timer_source =
  fixes inv :: "'s \<Rightarrow> bool"
    and poll :: "'s \<Rightarrow> instant \<Rightarrow> 's \<times> 'a list"
    and next_deadline :: "'s \<Rightarrow> instant option"
  assumes inv_poll: "inv s \<Longrightarrow> inv (fst (poll s now))"
    and quiet: "inv s \<Longrightarrow> (case next_deadline s of None \<Rightarrow> True | Some d \<Rightarrow> now < d) \<Longrightarrow>
                  poll s now = (s, [])"
    and progress: "inv s \<Longrightarrow> next_deadline (fst (poll s now)) = Some d \<Longrightarrow> now < d"
begin

text \<open>A second poll at the same instant, or at any instant before the new deadline, does nothing.\<close>

lemma poll_settles:
  assumes "inv s" and "case next_deadline (fst (poll s now)) of None \<Rightarrow> True | Some d \<Rightarrow> later < d"
  shows "poll (fst (poll s now)) later = (fst (poll s now), [])"
  using quiet [OF inv_poll [OF assms(1)] assms(2)] .

lemma poll_idempotent:
  assumes "inv s"
  shows "poll (fst (poll s now)) now = (fst (poll s now), [])"
proof (rule poll_settles [OF assms])
  show "case next_deadline (fst (poll s now)) of None \<Rightarrow> True | Some d \<Rightarrow> now < d"
    using progress [OF assms] by (simp split: option.splits)
qed

text \<open>Polling at a sequence of instants: the states after it, and everything emitted.\<close>

fun poll_all :: "'s \<Rightarrow> instant list \<Rightarrow> 's \<times> 'a list" where
  "poll_all s [] = (s, [])"
| "poll_all s (t # ts) =
     (let (s', out) = poll s t; (s'', outs) = poll_all s' ts in (s'', out @ outs))"

lemma poll_all_inv: "inv s \<Longrightarrow> inv (fst (poll_all s ts))"
proof (induction ts arbitrary: s)
  case Nil
  then show ?case by simp
next
  case (Cons t ts)
  then have "inv (fst (poll_all (fst (poll s t)) ts))"
    by (simp add: inv_poll)
  then show ?case by (simp add: case_prod_beta Let_def)
qed

text \<open>Sleeping until the deadline loses nothing: polls at earlier instants have no effect.\<close>

lemma poll_all_before_deadline:
  assumes "inv s"
    and "\<forall>t\<in>set ts. case next_deadline s of None \<Rightarrow> True | Some d \<Rightarrow> t < d"
  shows "poll_all s ts = (s, [])"
  using assms(2)
proof (induction ts)
  case Nil
  then show ?case by simp
next
  case (Cons t ts)
  then have "poll s t = (s, [])" using quiet [OF assms(1)] by simp
  with Cons show ?case by simp
qed

end

end
