(* ===== verification/Backoff_Policy.thy ===== *)
theory Backoff_Policy
  imports Clock
begin

text \<open>
  Reconnect and retry delays: the truncated exponential backoff of
  \<open>crates/magnetar-proto/src/backoff.rs\<close> with its splitmix64 jitter, and the retry policy of
  \<open>operation_retry.rs\<close>. The fault-injection skew of the
  simulation build is a function argument; it is the identity in production.
\<close>

unbundle bit_operations_syntax

section \<open>Backoff\<close>

definition DEFAULT_INITIAL :: duration where "DEFAULT_INITIAL = from_millis 100"
definition DEFAULT_MAX :: duration where "DEFAULT_MAX = from_secs 60"
definition DEFAULT_MANDATORY_STOP :: duration where "DEFAULT_MANDATORY_STOP = from_secs 1800"

record backoff =
  bo_initial :: duration
  bo_max :: duration
  bo_mandatory_stop :: duration
  bo_next_delay :: duration
  bo_total_elapsed :: duration
  bo_rng_state :: "64 word"
  bo_first_call :: bool

definition bo_new :: "duration \<Rightarrow> duration \<Rightarrow> duration \<Rightarrow> 64 word \<Rightarrow> backoff" where
  "bo_new initial mx mandatory_stop seed =
     \<lparr>bo_initial = initial, bo_max = mx, bo_mandatory_stop = mandatory_stop,
      bo_next_delay = initial, bo_total_elapsed = 0,
      bo_rng_state = (if seed = 0 then 0x9E3779B97F4A7C15 else seed), bo_first_call = True\<rparr>"

definition bo_default :: backoff where
  "bo_default = bo_new DEFAULT_INITIAL DEFAULT_MAX DEFAULT_MANDATORY_STOP 0"

text \<open>The splitmix64 step: the new state, and a jitter between 0 and 200 thousandths.\<close>

definition jitter_fraction :: "backoff \<Rightarrow> backoff \<times> nat" where
  "jitter_fraction b =
     (let s = bo_rng_state b + 0x9E3779B97F4A7C15;
          z = (s XOR drop_bit 30 s) * 0xBF58476D1CE4E5B9;
          z = (z XOR drop_bit 27 z) * 0x94D049BB133111EB;
          z = z XOR drop_bit 31 z
      in (b\<lparr>bo_rng_state := s\<rparr>, unat z mod 201))"

text \<open>\<open>current.as_nanos() as u64\<close> keeps the low 64 bits of the 128-bit count.\<close>

definition as_nanos_u64 :: "duration \<Rightarrow> nat" where
  "as_nanos_u64 d = d mod 2 ^ 64"

definition bo_next :: "(duration \<Rightarrow> duration) \<Rightarrow> backoff \<Rightarrow> backoff \<times> duration" where
  "bo_next skew b =
     (let current = bo_next_delay b;
          b = b\<lparr>bo_first_call := False\<rparr>;
          (b, jitter) = jitter_fraction b;
          jitter_ns = sat_mul U64_MAX (as_nanos_u64 current) jitter div 1000;
          current = current - from_nanos jitter_ns;
          b = b\<lparr>bo_total_elapsed := sat_add DURATION_MAX (bo_total_elapsed b) current\<rparr>;
          doubled = sat_mul DURATION_MAX (bo_next_delay b) 2;
          b = b\<lparr>bo_next_delay := (if doubled > bo_max b then bo_max b else doubled)\<rparr>
      in if bo_total_elapsed b > bo_mandatory_stop b
         then (b\<lparr>bo_total_elapsed := 0, bo_next_delay := bo_max b\<rparr>, skew (bo_max b))
         else (b, skew current))"

definition bo_reset :: "backoff \<Rightarrow> backoff" where
  "bo_reset b = b\<lparr>bo_next_delay := bo_initial b, bo_total_elapsed := 0, bo_first_call := True\<rparr>"

section \<open>Operation retry\<close>

datatype operation_kind = Lookup | PartitionedMetadata | ProducerOpen | Subscribe

datatype server_error = UnknownError | MetadataError | PersistenceError | AuthenticationError
  | AuthorizationError | ConsumerBusy | ServiceNotReady | ProducerBlockedQuotaExceededError
  | ProducerBlockedQuotaExceededException | ChecksumError | UnsupportedVersionError | TopicNotFound
  | SubscriptionNotFound | ConsumerNotFound | TooManyRequests | TopicTerminatedError | ProducerBusy
  | InvalidTopicName | IncompatibleSchema | ConsumerAssignError | TransactionCoordinatorNotFound
  | InvalidTxnStatus | NotAllowedError | TransactionConflict | TransactionNotFound | ProducerFenced

definition server_errors :: "server_error list" where
  "server_errors = [UnknownError, MetadataError, PersistenceError, AuthenticationError,
     AuthorizationError, ConsumerBusy, ServiceNotReady, ProducerBlockedQuotaExceededError,
     ProducerBlockedQuotaExceededException, ChecksumError, UnsupportedVersionError, TopicNotFound,
     SubscriptionNotFound, ConsumerNotFound, TooManyRequests, TopicTerminatedError, ProducerBusy,
     InvalidTopicName, IncompatibleSchema, ConsumerAssignError, TransactionCoordinatorNotFound,
     InvalidTxnStatus, NotAllowedError, TransactionConflict, TransactionNotFound, ProducerFenced]"

definition server_error_try_from :: "int \<Rightarrow> server_error option" where
  "server_error_try_from code =
     (if 0 \<le> code \<and> code < int (length server_errors) then Some (server_errors ! nat code) else None)"

definition is_retryable_broker_error :: "operation_kind \<Rightarrow> int \<Rightarrow> bool" where
  "is_retryable_broker_error operation code =
     (case server_error_try_from code of
        None \<Rightarrow> False
      | Some err \<Rightarrow>
          let common_retryable =
                err \<in> set [MetadataError, PersistenceError, ServiceNotReady, TooManyRequests];
              producer_quota_retryable = (operation = ProducerOpen \<and>
                err \<in> set [ProducerBlockedQuotaExceededError, ProducerBlockedQuotaExceededException]);
              busy_retryable = ((operation = ProducerOpen \<and> err = ProducerBusy) \<or>
                (operation = Subscribe \<and> err = ConsumerBusy))
          in common_retryable \<or> producer_quota_retryable \<or> busy_retryable)"

record operation_retry_config =
  or_initial_backoff :: duration
  or_max_backoff :: duration
  or_max_retries :: "nat option"

definition MAX_TRANSIENT_OPEN_RETRIES :: nat where "MAX_TRANSIENT_OPEN_RETRIES = 8"

definition or_default :: operation_retry_config where
  "or_default = \<lparr>or_initial_backoff = from_secs 2, or_max_backoff = from_secs 8,
     or_max_retries = Some MAX_TRANSIENT_OPEN_RETRIES\<rparr>"

definition should_retry_after_failure :: "operation_retry_config \<Rightarrow> nat \<Rightarrow> bool" where
  "should_retry_after_failure c failures =
     (case or_max_retries c of None \<Rightarrow> True | Some mx \<Rightarrow> failures \<le> mx)"

text \<open>\<open>n\<close> further calls of \<open>next\<close> after one that returned \<open>delay\<close>; the last delay counts.\<close>

fun bo_repeat :: "nat \<Rightarrow> backoff \<Rightarrow> duration \<Rightarrow> backoff \<times> duration" where
  "bo_repeat 0 b delay = (b, delay)"
| "bo_repeat (Suc n) b delay = (let (b', d) = bo_next id b in bo_repeat n b' d)"

definition delay_after_failure :: "operation_retry_config \<Rightarrow> nat \<Rightarrow> duration" where
  "delay_after_failure c failures =
     (let steps = max failures 1;
          b = bo_new (min (or_initial_backoff c) (or_max_backoff c)) (or_max_backoff c)
                DEFAULT_MANDATORY_STOP 0;
          (b, delay) = bo_next id b
      in snd (bo_repeat (steps - 1) b delay))"

section \<open>Bounds of the schedule\<close>

text \<open>
  The invariant for a schedule whose initial delay does not exceed its maximum: the base delay is
  at most the maximum and the cumulative delay is within the mandatory-stop budget.
\<close>

definition bo_inv :: "backoff \<Rightarrow> bool" where
  "bo_inv b \<longleftrightarrow> bo_initial b \<le> bo_max b \<and> bo_max b \<le> DURATION_MAX \<and> bo_next_delay b \<le> bo_max b \<and>
     bo_total_elapsed b \<le> bo_mandatory_stop b"

lemma bo_inv_new [inv_rules]:
  "initial \<le> mx \<Longrightarrow> mx \<le> DURATION_MAX \<Longrightarrow> bo_inv (bo_new initial mx stop seed)"
  by (simp add: bo_inv_def bo_new_def)

lemma bo_inv_reset [inv_rules]: "bo_inv b \<Longrightarrow> bo_inv (bo_reset b)"
  by (simp add: bo_inv_def bo_reset_def)

lemma jitter_fraction_le: "snd (jitter_fraction b) \<le> 200"
proof -
  have "x mod 201 \<le> 200" for x :: nat
    using mod_less_divisor [of 201 x] by simp
  then show ?thesis by (simp add: jitter_fraction_def Let_def)
qed

lemma jitter_fraction_keeps:
  "jitter_fraction b = (b', j) \<Longrightarrow> b' = b\<lparr>bo_rng_state := bo_rng_state b'\<rparr>"
  by (auto simp: jitter_fraction_def Let_def)

text \<open>The jitter takes at most a fifth of the delay, whatever truncation and saturation do.\<close>

lemma jitter_ns_le: "j \<le> 200 \<Longrightarrow> 5 * (sat_mul U64_MAX (as_nanos_u64 d) j div 1000) \<le> d"
proof -
  assume "j \<le> 200"
  then have "sat_mul U64_MAX (as_nanos_u64 d) j \<le> d * 200"
    unfolding sat_mul_def as_nanos_u64_def
    by (intro min.coboundedI1 mult_mono) simp_all
  then show ?thesis by linarith
qed

definition bo_base_after :: "backoff \<Rightarrow> duration" where
  "bo_base_after b = min (bo_max b) (2 * bo_next_delay b)"

text \<open>One step with the jittered delay \<open>c\<close> of this call taken as given.\<close>

definition bo_step :: "backoff \<Rightarrow> duration \<Rightarrow> backoff \<times> duration" where
  "bo_step b c =
     (let b = b\<lparr>bo_total_elapsed := sat_add DURATION_MAX (bo_total_elapsed b) c,
               bo_next_delay := (if sat_mul DURATION_MAX (bo_next_delay b) 2 > bo_max b then bo_max b
                                 else sat_mul DURATION_MAX (bo_next_delay b) 2)\<rparr>
      in if bo_total_elapsed b > bo_mandatory_stop b
         then (b\<lparr>bo_total_elapsed := 0, bo_next_delay := bo_max b\<rparr>, bo_max b) else (b, c))"

lemma bo_next_step:
  obtains c r where "bo_next id b = bo_step (b\<lparr>bo_first_call := False, bo_rng_state := r\<rparr>) c"
    and "c \<le> bo_next_delay b" and "4 * bo_next_delay b \<le> 5 * c"
proof -
  obtain bj j where j: "jitter_fraction (b\<lparr>bo_first_call := False\<rparr>) = (bj, j)" by fastforce
  have jl: "j \<le> 200" using jitter_fraction_le [of "b\<lparr>bo_first_call := False\<rparr>"] j by simp
  have bj: "bj = b\<lparr>bo_first_call := False, bo_rng_state := bo_rng_state bj\<rparr>"
    using jitter_fraction_keeps [OF j] by simp
  define c where "c = bo_next_delay b - from_nanos (sat_mul U64_MAX (as_nanos_u64 (bo_next_delay b)) j div 1000)"
  have "bo_next id b = bo_step bj c"
    unfolding bo_next_def Let_def j prod.case c_def [symmetric] bo_step_def id_apply
    by (subst (1 2 3 4 5 6) bj) simp
  moreover have "c \<le> bo_next_delay b" "4 * bo_next_delay b \<le> 5 * c"
    using jitter_ns_le [OF jl, of "bo_next_delay b"] unfolding c_def from_nanos_def by linarith+
  ultimately show ?thesis using that [of "bo_rng_state bj" c] bj by metis
qed

lemma bo_next_cases:
  assumes "bo_inv b" and "bo_next id b = (b', d)"
  shows "bo_initial b' = bo_initial b" and "bo_max b' = bo_max b"
    and "bo_mandatory_stop b' = bo_mandatory_stop b"
    and "d \<le> bo_max b" and "4 * bo_next_delay b \<le> 5 * d"
    and "bo_base_after b \<le> bo_next_delay b'" and "bo_inv b'"
proof -
  obtain c r where n: "bo_next id b = bo_step (b\<lparr>bo_first_call := False, bo_rng_state := r\<rparr>) c"
    and c: "c \<le> bo_next_delay b" "4 * bo_next_delay b \<le> 5 * c"
    by (rule bo_next_step)
  note d = assms(2) [unfolded n bo_step_def Let_def]
  show "bo_initial b' = bo_initial b" "bo_max b' = bo_max b" "bo_mandatory_stop b' = bo_mandatory_stop b"
    using d by (auto split: if_splits)
  show "d \<le> bo_max b" "4 * bo_next_delay b \<le> 5 * d"
    using d c assms(1) by (auto simp: bo_inv_def split: if_splits)
  show "bo_base_after b \<le> bo_next_delay b'"
    using d assms(1) by (auto simp: bo_inv_def bo_base_after_def sat_mul_def split: if_splits)
  show "bo_inv b'"
    using d assms(1) by (auto simp: bo_inv_def not_less split: if_splits)
qed

text \<open>What a retry loop needs of a schedule of delays.\<close>

locale delay_schedule =
  fixes inv :: "'s \<Rightarrow> bool" and advance :: "'s \<Rightarrow> 's \<times> duration" and cap :: "'s \<Rightarrow> duration"
  assumes inv_advance: "inv s \<Longrightarrow> inv (fst (advance s))"
    and cap_advance: "inv s \<Longrightarrow> cap (fst (advance s)) = cap s"
    and delay_le_cap: "inv s \<Longrightarrow> snd (advance s) \<le> cap s"
begin

fun delays :: "nat \<Rightarrow> 's \<Rightarrow> 's \<times> duration list" where
  "delays 0 s = (s, [])"
| "delays (Suc n) s = (let (s', d) = advance s; (s'', ds) = delays n s' in (s'', d # ds))"

lemma delays_inv: "inv s \<Longrightarrow> inv (fst (delays n s)) \<and> cap (fst (delays n s)) = cap s"
  by (induction n arbitrary: s) (auto simp: case_prod_beta Let_def inv_advance cap_advance)

lemma delays_length: "length (snd (delays n s)) = n"
  by (induction n arbitrary: s) (auto simp: case_prod_beta Let_def)

lemma delays_le_cap: "inv s \<Longrightarrow> d \<in> set (snd (delays n s)) \<Longrightarrow> d \<le> cap s"
  using delay_le_cap inv_advance cap_advance
  by (induction n arbitrary: s) (fastforce simp: case_prod_beta Let_def)+

text \<open>A caller that sleeps \<open>n\<close> delays waits at most \<open>n\<close> times the cap.\<close>

lemma total_delay_le: "inv s \<Longrightarrow> sum_list (snd (delays n s)) \<le> n * cap s"
  using sum_list_mono [of "snd (delays n s)" "\<lambda>d. d" "\<lambda>_. cap s"] delays_le_cap [of s]
    delays_length [of n s] by (simp add: sum_list_triv)

end

interpretation bo_sched: delay_schedule bo_inv "bo_next id" bo_max
  by unfold_locales (metis bo_next_cases(2,4,7) prod.collapse)+

section \<open>The delay after the k-th failure\<close>

lemma bo_repeat_bounds:
  "bo_inv b \<Longrightarrow> m \<le> bo_next_delay b \<Longrightarrow> bo_repeat (Suc k) b d0 = (b', d) \<Longrightarrow>
     4 * min (bo_max b) (m * 2 ^ k) \<le> 5 * d \<and> d \<le> bo_max b"
proof (induction k arbitrary: b m d0)
  case 0
  then obtain b1 where n: "bo_next id b = (b1, d)" by (auto split: prod.splits)
  then show ?case using bo_next_cases(4,5) [OF 0(1) n] 0(2) by (simp add: min_def)
next
  case (Suc k)
  obtain b1 d1 where n: "bo_next id b = (b1, d1)" by fastforce
  note c = bo_next_cases [OF Suc.prems(1) n]
  let ?m = "min (bo_max b) (2 * m)"
  have "?m \<le> bo_next_delay b1"
    using c(6) Suc.prems(2) by (auto simp: bo_base_after_def min_def split: if_splits)
  moreover have "bo_repeat (Suc k) b1 d1 = (b', d)" using Suc.prems(3) n by simp
  ultimately have "4 * min (bo_max b) (?m * 2 ^ k) \<le> 5 * d \<and> d \<le> bo_max b"
    using Suc.IH [OF c(7), of ?m d1] c(2) by simp
  moreover have "min (bo_max b) (m * 2 ^ Suc k) \<le> min (bo_max b) (?m * 2 ^ k)"
    by (auto simp: min_def mult.assoc [symmetric] mult.commute)
  ultimately show ?case by linarith
qed

text \<open>
  C32. The delay before a re-issue grows exponentially and stays under the configured maximum: after
  the \<open>f\<close>-th failure it is at most \<open>max_backoff\<close> and at least four fifths of the initial delay
  doubled \<open>f - 1\<close> times and cut at the maximum, whatever the jitter generator yields and whether
  or not the mandatory stop snaps the schedule.
\<close>

theorem retry_delay_bounds:
  assumes "or_max_backoff c \<le> DURATION_MAX" and "0 < f"
  shows "4 * min (or_max_backoff c) (or_initial_backoff c * 2 ^ (f - 1)) \<le> 5 * delay_after_failure c f \<and>
    delay_after_failure c f \<le> or_max_backoff c"
proof -
  let ?i = "min (or_initial_backoff c) (or_max_backoff c)"
  let ?b = "bo_new ?i (or_max_backoff c) DEFAULT_MANDATORY_STOP 0"
  have inv: "bo_inv ?b" by (rule bo_inv_new) (use assms in auto)
  obtain b' d where r: "bo_repeat (Suc (f - 1)) ?b 0 = (b', d)" by fastforce
  have "delay_after_failure c (Suc (f - 1)) = d"
    using r by (simp add: delay_after_failure_def case_prod_beta Let_def)
  then have "delay_after_failure c f = d" using assms(2) by simp
  moreover have "4 * min (or_max_backoff c) (?i * 2 ^ (f - 1)) \<le> 5 * d \<and> d \<le> or_max_backoff c"
    using bo_repeat_bounds [OF inv _ r, of ?i] by (simp add: bo_new_def)
  moreover have "min (or_max_backoff c) (or_initial_backoff c * 2 ^ (f - 1)) \<le>
      min (or_max_backoff c) (?i * 2 ^ (f - 1))"
    by (auto simp: min_def)
  ultimately show ?thesis by linarith
qed

theorem retry_delay_bounds_witness:
  "4 * min (from_secs 8) (from_secs 2 * 2 ^ (5 - 1)) \<le> 5 * delay_after_failure or_default 5 \<and>
    delay_after_failure or_default 5 \<le> from_secs 8"
  using retry_delay_bounds [of or_default 5]
  by (simp add: or_default_def from_secs_def DURATION_MAX_def)

end
