(* ===== verification/Lookup_Route.thy ===== *)
theory Lookup_Route
  imports Topic_Lookup Backoff_Policy
begin

text \<open>
  The lookup of the tokio engine (\<open>client.rs\<close>): a lookup is issued, issued again after a lost session
  or a retryable failure, and followed from broker to broker while the answer is a redirect.
\<close>

section \<open>One broker\<close>

datatype scheme = SchemePlain | SchemeTls

datatype client_error = Broker int string | PeerClosed | OtherError string | TimeoutError string

definition operation_deadline_error :: "string \<Rightarrow> (int \<times> string) option \<Rightarrow> client_error" where
  "operation_deadline_error operation last_broker_error =
     (case last_broker_error of
        Some (code, message) \<Rightarrow> Broker code message
      | None \<Rightarrow> TimeoutError (operation @ '' exceeded operation_timeout''))"

text \<open>
  What the engine can see while it waits for one lookup: an answer of the broker, a refusal by the
  registry, a generic broker error, any other outcome (with its debug text), the end of the connection,
  a lost session that comes back or does not, or the deadline of the operation.
\<close>

datatype lookup_reply =
    Answer lookup_response
  | Refused
  | BrokerError int string
  | Unexpected string
  | Terminated
  | LostSession bool
  | DeadlineFired

datatype issued =
    Outcome lookup_outcome
  | OutcomeError int string
  | OutcomeOther string
  | OutcomeTerminal

datatype lookup_issue = Initial bool | Redirect bool nat

definition refused_message :: string where
  "refused_message = ''lookup rejected: max pending (ConnectionConfig::max_pending_lookups)''"

text \<open>The request \<open>Connection::lookup\<close> and \<open>Connection::lookup_redirect\<close> register.\<close>

fun issue_request :: "string \<Rightarrow> request_id \<Rightarrow> lookup_issue \<Rightarrow> lookup_request" where
  "issue_request topic rid (Initial a) =
     \<lparr>lr_topic = topic, lr_authoritative = a, lr_hops_remaining = MAX_LOOKUP_REDIRECTS, lr_chain_origin = rid\<rparr>"
| "issue_request topic rid (Redirect a hops) =
     \<lparr>lr_topic = topic, lr_authoritative = a, lr_hops_remaining = min hops MAX_LOOKUP_REDIRECTS, lr_chain_origin = rid\<rparr>"

text \<open>
  \<open>issue_lookup_on\<close>: one lookup, issued again after a lost session or a retryable failure. The replies
  are those of the environment, one per wait; \<open>None\<close> when they run out, that is, while the engine
  still waits. The failures and the last broker error are shared by all hops.
\<close>

fun issue_lookup_on ::
    "operation_retry_config \<Rightarrow> lookup_request \<Rightarrow> nat \<Rightarrow> nat \<times> (int \<times> string) option \<Rightarrow> lookup_reply list \<Rightarrow>
     ((client_error + issued) \<times> nat \<times> (int \<times> string) option) option" where
  "issue_lookup_on cfg req reissues (failures, err) [] = None"
| "issue_lookup_on cfg req reissues (failures, err) (DeadlineFired # replies) =
     Some (Inl (operation_deadline_error ''topic lookup'' err), failures, err)"
| "issue_lookup_on cfg req reissues (failures, err) (LostSession reconnected # replies) =
     (if \<not> reconnected then Some (Inl PeerClosed, failures, err)
      else if reissues = 0 then Some (Inl PeerClosed, failures, err)
      else issue_lookup_on cfg req (reissues - 1) (failures, err) replies)"
| "issue_lookup_on cfg req reissues (failures, err) (BrokerError code message # replies) =
     Some (Inr (OutcomeError code message), failures, err)"
| "issue_lookup_on cfg req reissues (failures, err) (Unexpected dbg # replies) = Some (Inr (OutcomeOther dbg), failures, err)"
| "issue_lookup_on cfg req reissues (failures, err) (Terminated # replies) = Some (Inr OutcomeTerminal, failures, err)"
| "issue_lookup_on cfg req reissues (failures, err) (Refused # replies) =
     Some (Inr (Outcome (LoFailed 0 refused_message)), failures, err)"
| "issue_lookup_on cfg req reissues (failures, err) (Answer response # replies) =
     (case translate_lookup_response response req of
        LoFailed code message \<Rightarrow>
          if is_retryable_broker_error Lookup code
          then if should_retry_after_failure cfg (sat_add U32_MAX failures 1)
               then issue_lookup_on cfg req reissues (sat_add U32_MAX failures 1, Some (code, message)) replies
               else Some (Inr (Outcome (LoFailed code message)), sat_add U32_MAX failures 1, Some (code, message))
          else Some (Inr (Outcome (LoFailed code message)), failures, err)
      | outcome \<Rightarrow> Some (Inr (Outcome outcome), failures, err))"

section \<open>From broker to broker\<close>

datatype lookup_target = Direct "string option" | Proxy string

fun direct_broker_url :: "string option \<Rightarrow> string option \<Rightarrow> scheme \<Rightarrow> string option" where
  "direct_broker_url url tls SchemeTls = (if tls \<noteq> None then tls else url)"
| "direct_broker_url url tls SchemePlain = (if url \<noteq> None then url else tls)"

text \<open>
  The proxy wants \<open>host:port\<close>. The URL parser is a parameter that returns this form of a Pulsar URL,
  and \<open>None\<close> for anything it does not accept.
\<close>

definition preferred_broker_url ::
    "(string \<Rightarrow> string option) \<Rightarrow> string option \<Rightarrow> string option \<Rightarrow> scheme \<Rightarrow> string option" where
  "preferred_broker_url parse url tls sch =
     map_option (\<lambda>raw. case parse raw of Some authority \<Rightarrow> authority | None \<Rightarrow> raw) (direct_broker_url url tls sch)"

definition quoted :: "string \<Rightarrow> string" where "quoted s = [CHR 0x27] @ s @ [CHR 0x27]"

fun map_lookup_outcome ::
    "(string \<Rightarrow> string option) \<Rightarrow> scheme \<Rightarrow> string \<Rightarrow> issued \<Rightarrow> client_error + lookup_target" where
  "map_lookup_outcome parse sch topic (Outcome (LoConnect url tls proxied)) =
     (if proxied
      then case preferred_broker_url parse url tls sch of
             None \<Rightarrow> Inl (OtherError (''lookup of '' @ quoted topic @
               '' set proxy_through_service_url=true but did not advertise a broker_service_url or broker_service_url_tls''))
           | Some u \<Rightarrow> Inr (Proxy u)
      else Inr (Direct (direct_broker_url url tls sch)))"
| "map_lookup_outcome parse sch topic (Outcome (LoRedirected url tls a h)) =
     Inl (OtherError (''BUG: Redirected outcome reached map_lookup_outcome '' @ [CHR 0xE2, CHR 0x80, CHR 0x94] @
       '' the redirect-dial loop in lookup_topic should have consumed it (dialed the target and re-issued the lookup there)''))"
| "map_lookup_outcome parse sch topic (Outcome (LoFailed code message)) = Inl (Broker code message)"
| "map_lookup_outcome parse sch topic (OutcomeError code message) = Inl (Broker code message)"
| "map_lookup_outcome parse sch topic OutcomeTerminal = Inl PeerClosed"
| "map_lookup_outcome parse sch topic (OutcomeOther dbg) = Inl (OtherError (''unexpected lookup outcome: '' @ dbg))"

text \<open>
  One broker of the chain, as the engine meets it: how the dial ends, whether a driver is left to serve
  the connection, and what is seen there.
\<close>

record hop =
  hp_dial :: "client_error option"
  hp_no_driver :: "client_error option"
  hp_replies :: "lookup_reply list"

text \<open>
  \<open>lookup_topic_with_operation_deadline\<close>. The result carries the URLs dialed, in order; the last is the
  broker the answer came from, none means the bootstrap connection.
\<close>

fun lookup_loop ::
    "operation_retry_config \<Rightarrow> (string \<Rightarrow> string option) \<Rightarrow> scheme \<Rightarrow> string \<Rightarrow> lookup_issue \<Rightarrow>
     nat \<times> (int \<times> string) option \<Rightarrow> string list \<Rightarrow> hop list \<Rightarrow> ((client_error + lookup_target) \<times> string list) option" where
  "lookup_loop cfg parse sch topic issue st dialed [] = None"
| "lookup_loop cfg parse sch topic issue st dialed (current # rest) =
     (case hp_no_driver current of
        Some e \<Rightarrow> Some (Inl e, dialed)
      | None \<Rightarrow>
          (case issue_lookup_on cfg (issue_request topic 0 issue) MAX_LOOKUP_SESSION_REISSUES st (hp_replies current) of
             None \<Rightarrow> None
           | Some (Inl e, st) \<Rightarrow> Some (Inl e, dialed)
           | Some (Inr (Outcome (LoRedirected url tls authoritative hops)), st) \<Rightarrow>
               if hops = 0 then Some (Inl (Broker 0 redirect_cap_message), dialed)
               else (case direct_broker_url url tls sch of
                  None \<Rightarrow> Some (Inl (OtherError (''lookup of '' @ quoted topic @
                    '' was redirected but the broker advertised no broker_service_url or broker_service_url_tls to dial'')), dialed)
                | Some u \<Rightarrow>
                    (case rest of
                       [] \<Rightarrow> None
                     | target # _ \<Rightarrow>
                         (case hp_dial target of
                            Some e \<Rightarrow> Some (Inl e, dialed @ [u])
                          | None \<Rightarrow> lookup_loop cfg parse sch topic (Redirect authoritative hops) st (dialed @ [u]) rest)))
           | Some (Inr outcome, st) \<Rightarrow> Some (map_lookup_outcome parse sch topic outcome, dialed)))"

definition lookup_topic ::
    "operation_retry_config \<Rightarrow> (string \<Rightarrow> string option) \<Rightarrow> scheme \<Rightarrow> string \<Rightarrow> hop list \<Rightarrow>
     ((client_error + lookup_target) \<times> string list) option" where
  "lookup_topic cfg parse sch topic hops = lookup_loop cfg parse sch topic (Initial False) (0, None) [] hops"

section \<open>How many redirects are followed\<close>

text \<open>A broker that can be dialed and answers the first lookup with \<open>r\<close>.\<close>

definition answers :: "lookup_response \<Rightarrow> hop \<Rightarrow> bool" where
  "answers r h \<longleftrightarrow> hp_dial h = None \<and> hp_no_driver h = None \<and> (\<exists>rs. hp_replies h = Answer r # rs)"

definition redirects_to :: "scheme \<Rightarrow> string \<Rightarrow> hop \<Rightarrow> bool" where
  "redirects_to sch u h \<longleftrightarrow> (\<exists>r. answers r h \<and> lp_response r = Some 0 \<and>
     direct_broker_url (lp_broker_service_url r) (lp_broker_service_url_tls r) sch = Some u)"

definition owns_topic :: "scheme \<Rightarrow> string option \<Rightarrow> hop \<Rightarrow> bool" where
  "owns_topic sch u h \<longleftrightarrow> (\<exists>r. answers r h \<and> lp_response r = Some 1 \<and> lp_proxy_through_service_url r \<noteq> Some True \<and>
     direct_broker_url (lp_broker_service_url r) (lp_broker_service_url_tls r) sch = u)"

abbreviation budget :: "lookup_issue \<Rightarrow> nat" where "budget issue \<equiv> lr_hops_remaining (issue_request [] 0 issue)"

lemma budget_topic: "lr_hops_remaining (issue_request topic rid issue) = budget issue"
  by (cases issue) simp_all

lemma loop_redirect:
  assumes "redirects_to sch u h" and "0 < budget issue"
  shows "\<exists>a. lookup_loop cfg parse sch topic issue st dialed (h # rest) =
    (if budget issue = 1 then Some (Inl (Broker 0 redirect_cap_message), dialed)
     else case rest of [] \<Rightarrow> None | target # _ \<Rightarrow>
       (case hp_dial target of Some e \<Rightarrow> Some (Inl e, dialed @ [u])
        | None \<Rightarrow> lookup_loop cfg parse sch topic (Redirect a (budget issue - 1)) st (dialed @ [u]) rest))"
proof -
  obtain r rs where r: "hp_no_driver h = None" "hp_replies h = Answer r # rs" "lp_response r = Some 0"
    "direct_broker_url (lp_broker_service_url r) (lp_broker_service_url_tls r) sch = Some u"
    using assms(1) by (auto simp: redirects_to_def answers_def)
  have "translate_lookup_response r (issue_request topic 0 issue) =
    LoRedirected (lp_broker_service_url r) (lp_broker_service_url_tls r) (unwrap_or True (lp_authoritative r)) (budget issue - 1)"
    using r(3) assms(2) by (simp add: translate_lookup_response_def lookup_type_try_from_def budget_topic [of topic])
  then show ?thesis using r assms(2) by (cases st) (auto split: list.split option.split)
qed

lemma loop_owner:
  assumes "owns_topic sch u h"
  shows "lookup_loop cfg parse sch topic issue st dialed (h # rest) = Some (Inr (Direct u), dialed)"
proof -
  obtain r rs where r: "hp_no_driver h = None" "hp_replies h = Answer r # rs" "lp_response r = Some 1"
    "lp_proxy_through_service_url r \<noteq> Some True" "direct_broker_url (lp_broker_service_url r) (lp_broker_service_url_tls r) sch = u"
    using assms by (auto simp: owns_topic_def answers_def)
  have "translate_lookup_response r (issue_request topic 0 issue) =
    LoConnect (lp_broker_service_url r) (lp_broker_service_url_tls r) False"
    using r(3,4) by (cases "lp_proxy_through_service_url r") (auto simp: translate_lookup_response_def lookup_type_try_from_def unwrap_or_def)
  then show ?thesis using r by (cases st) auto
qed

lemma chain_dialable:
  "list_all2 (redirects_to sch) urls hops \<Longrightarrow> owns_topic sch u h \<Longrightarrow> hops @ h # rest = x # xs \<Longrightarrow> hp_dial x = None"
  by (cases hops) (auto simp: redirects_to_def owns_topic_def answers_def list_all2_Cons2)

lemma loop_chain:
  assumes "list_all2 (redirects_to sch) urls hops" and "owns_topic sch u h" and "0 < budget issue"
  shows "lookup_loop cfg parse sch topic issue st dialed (hops @ h # rest) =
    (if length urls < budget issue then Some (Inr (Direct u), dialed @ urls)
     else Some (Inl (Broker 0 redirect_cap_message), dialed @ take (budget issue - 1) urls))"
  using assms
proof (induction urls hops arbitrary: issue dialed rule: list_all2_induct)
  case Nil
  then show ?case using loop_owner [OF Nil(1)] by simp
next
  case (Cons v urls h' hops)
  obtain a where a: "lookup_loop cfg parse sch topic issue st dialed (h' # hops @ h # rest) =
    (if budget issue = 1 then Some (Inl (Broker 0 redirect_cap_message), dialed)
     else case hops @ h # rest of [] \<Rightarrow> None | target # _ \<Rightarrow>
       (case hp_dial target of Some e \<Rightarrow> Some (Inl e, dialed @ [v])
        | None \<Rightarrow> lookup_loop cfg parse sch topic (Redirect a (budget issue - 1)) st (dialed @ [v]) (hops @ h # rest)))"
    using loop_redirect [OF Cons(1,5)] by blast
  show ?case
  proof (cases "budget issue = 1")
    case True
    then show ?thesis using a by simp
  next
    case False
    obtain x xs where x: "hops @ h # rest = x # xs" by (cases "hops @ h # rest") auto
    have d: "hp_dial x = None" using chain_dialable [OF Cons(2,4) x] .
    have le: "budget issue \<le> MAX_LOOKUP_REDIRECTS" by (cases issue) simp_all
    have b: "budget (Redirect a (budget issue - 1)) = budget issue - 1" using le by simp
    have "lookup_loop cfg parse sch topic issue st dialed ((h' # hops) @ h # rest) =
      lookup_loop cfg parse sch topic (Redirect a (budget issue - 1)) st (dialed @ [v]) (hops @ h # rest)"
      using a False x d by simp
    also have "\<dots> = (if length urls < budget issue - 1 then Some (Inr (Direct u), (dialed @ [v]) @ urls)
     else Some (Inl (Broker 0 redirect_cap_message), (dialed @ [v]) @ take (budget issue - 1 - 1) urls))"
    proof -
      have "0 < budget (Redirect a (budget issue - 1))" unfolding b using False Cons(5) by simp
      then show ?thesis using Cons.IH [OF Cons(4), of "Redirect a (budget issue - 1)" "dialed @ [v]"] unfolding b by simp
    qed
    finally show ?thesis using False Cons(5) by (cases "budget issue - 1") auto
  qed
qed

text \<open>Whatever the brokers do, the number of dials is bounded by the budget.\<close>

lemma redirected_budget:
  "issue_lookup_on cfg req n st rs = Some (Inr (Outcome (LoRedirected url tls a h)), st') \<Longrightarrow> h < lr_hops_remaining req"
  by (induction cfg req n st rs rule: issue_lookup_on.induct)
    (auto simp: translate_lookup_response_def split: lookup_outcome.splits if_splits lookup_type.splits option.splits)

lemma loop_dials:
  "lookup_loop cfg parse sch topic issue st dialed hops = Some (res, dialed') \<Longrightarrow> length dialed' \<le> length dialed + (budget issue - 1)"
proof (induction hops arbitrary: issue st dialed)
  case (Cons h rest)
  show ?case
  proof (cases "hp_no_driver h = None \<and> (\<exists>url tls a k st'.
      issue_lookup_on cfg (issue_request topic 0 issue) MAX_LOOKUP_SESSION_REISSUES st (hp_replies h) =
      Some (Inr (Outcome (LoRedirected url tls a k)), st'))")
    case False
    then show ?thesis using Cons.prems
      by (auto split: option.splits sum.splits issued.splits lookup_outcome.splits)
  next
    case True
    then obtain url tls a k st' where i: "hp_no_driver h = None"
      "issue_lookup_on cfg (issue_request topic 0 issue) MAX_LOOKUP_SESSION_REISSUES st (hp_replies h) =
        Some (Inr (Outcome (LoRedirected url tls a k)), st')" by blast
    have k: "k < budget issue" using redirected_budget [OF i(2)] unfolding budget_topic [of topic] .
    show ?thesis
    proof (cases "k = 0 \<or> direct_broker_url url tls sch = None \<or> rest = [] \<or> hp_dial (hd rest) \<noteq> None")
      case True
      then show ?thesis using Cons.prems i k by (cases rest) (auto split: option.splits if_splits)
    next
      case False
      then obtain u where "direct_broker_url url tls sch = Some u" by auto
      then have "lookup_loop cfg parse sch topic (Redirect a k) st' (dialed @ [u]) rest = Some (res, dialed')"
        using Cons.prems i False by (cases rest) auto
      from Cons.IH [OF this] show ?thesis using k False by (auto simp: min_def split: if_splits)
    qed
  qed
qed simp

lemma lookup_dials_bounded: "lookup_topic cfg parse sch topic hops = Some (res, dialed) \<Longrightarrow> length dialed < MAX_LOOKUP_REDIRECTS"
  using loop_dials [of cfg parse sch topic "Initial False" "(0, None)" "[]" hops res dialed] by (simp add: lookup_topic_def MAX_LOOKUP_REDIRECTS_def)


definition redirect_hop :: "string \<Rightarrow> hop" where
  "redirect_hop u = \<lparr>hp_dial = None, hp_no_driver = None, hp_replies = [Answer
     \<lparr>lp_broker_service_url = Some u, lp_broker_service_url_tls = None, lp_response = Some 0, lp_request_id = 0,
       lp_authoritative = None, lp_error = None, lp_message = None, lp_proxy_through_service_url = None\<rparr>]\<rparr>"

definition owner_hop :: hop where
  "owner_hop = \<lparr>hp_dial = None, hp_no_driver = None, hp_replies = [Answer
     \<lparr>lp_broker_service_url = Some ''pulsar://e:6650'', lp_broker_service_url_tls = None, lp_response = Some 1, lp_request_id = 0,
       lp_authoritative = None, lp_error = None, lp_message = None, lp_proxy_through_service_url = None\<rparr>]\<rparr>"


end
