(* ===== verification/Txn_Client.thy ===== *)
theory Txn_Client
  imports Backoff_Policy Msg_Types
begin

text \<open>
  The transaction client of \<open>txn.rs\<close>: the tables of requests in flight, the state of each transaction
  and the answers of the coordinator.
\<close>

section \<open>States, errors and metadata\<close>

datatype txn_state = Open | Committing | Committed | Aborting | Aborted | Errored

datatype txn_action = Commit | Abort

fun txn_action_to_pb :: "txn_action \<Rightarrow> int" where
  "txn_action_to_pb Commit = 0"
| "txn_action_to_pb Abort = 1"

datatype txn_error =
    AlreadyEnding txn_id txn_action
  | TxnConflict
  | TxnNotFound
  | TxnTimeout
  | TxnAborted
  | TxnBroker int string

definition from_broker :: "int \<Rightarrow> string \<Rightarrow> txn_error" where
  "from_broker code message =
     (case server_error_try_from code of
        Some TransactionConflict \<Rightarrow> TxnConflict
      | Some TransactionNotFound \<Rightarrow> TxnNotFound
      | Some TransactionCoordinatorNotFound \<Rightarrow> TxnNotFound
      | Some InvalidTxnStatus \<Rightarrow> TxnAborted
      | _ \<Rightarrow> TxnBroker code message)"

record transaction_metadata =
  tm_id :: txn_id
  tm_state :: txn_state
  tm_coordinator_id :: nat
  tm_timeout :: nat
  tm_produced_topics :: "string list"
  tm_acked_subscriptions :: "(string, string list) hashmap"

definition tm_new :: "txn_id \<Rightarrow> nat \<Rightarrow> nat \<Rightarrow> transaction_metadata" where
  "tm_new txn coordinator timeout = \<lparr>tm_id = txn, tm_state = Open, tm_coordinator_id = coordinator, tm_timeout = timeout,
     tm_produced_topics = [], tm_acked_subscriptions = []\<rparr>"

section \<open>The client\<close>

record pending_new_txn =
  pn_request_id :: request_id
  pn_waker_key :: nat

record pending_add_partition =
  pa_request_id :: request_id
  pa_txn :: txn_id
  pa_topic :: string
  pa_waker_key :: nat

record pending_add_subscription =
  ps_request_id :: request_id
  ps_txn :: txn_id
  ps_subscription :: string
  ps_topic :: string
  ps_waker_key :: nat

record pending_end_txn =
  pe_request_id :: request_id
  pe_txn :: txn_id
  pe_action :: txn_action
  pe_waker_key :: nat

text \<open>
  A \<open>Slab<Waker>\<close>: its occupied keys with the wakers, \<open>None\<close> the placeholder that does nothing. Which
  vacant key an insertion takes is the library's choice, the parameter \<open>vacant\<close>.
\<close>

type_synonym slab = "(nat, waker option) hashmap"

record txn_client =
  tc_coordinator_id :: nat
  tc_pending_new_txn :: slab
  tc_new_txn_by_request :: "(request_id, pending_new_txn) hashmap"
  tc_pending_add_partition :: slab
  tc_add_partition_by_request :: "(request_id, pending_add_partition) hashmap"
  tc_pending_add_subscription :: slab
  tc_add_subscription_by_request :: "(request_id, pending_add_subscription) hashmap"
  tc_pending_end_txn :: slab
  tc_end_txn_by_request :: "(request_id, pending_end_txn) hashmap"
  tc_transactions :: "(txn_id, transaction_metadata) hashmap"

definition tc_new :: "nat \<Rightarrow> txn_client" where
  "tc_new coordinator = \<lparr>tc_coordinator_id = coordinator,
     tc_pending_new_txn = [], tc_new_txn_by_request = [], tc_pending_add_partition = [], tc_add_partition_by_request = [],
     tc_pending_add_subscription = [], tc_add_subscription_by_request = [], tc_pending_end_txn = [], tc_end_txn_by_request = [],
     tc_transactions = []\<rparr>"

text \<open>Assigning to an index of a slab panics (here \<open>None\<close>) when the key is vacant.\<close>

definition slab_assign :: "nat \<Rightarrow> nat \<Rightarrow> slab \<Rightarrow> slab option" where
  "slab_assign k w s = (if hm_contains s k then Some (hm_insert k (Some w) s) else None)"

text \<open>\<open>try_remove\<close> followed by \<open>wake\<close>: what is left, and the waker that fired.\<close>

definition slab_wake :: "nat \<Rightarrow> slab \<Rightarrow> slab \<times> nat list" where
  "slab_wake k s = (hm_remove k s, case hm_get s k of Some (Some w) \<Rightarrow> [w] | _ \<Rightarrow> [])"

definition register_new_txn_waker :: "request_id \<Rightarrow> waker \<Rightarrow> txn_client \<Rightarrow> txn_client option" where
  "register_new_txn_waker rid w c =
     (case hm_get (tc_new_txn_by_request c) rid of
        None \<Rightarrow> Some c
      | Some p \<Rightarrow> map_option (\<lambda>s. c\<lparr>tc_pending_new_txn := s\<rparr>) (slab_assign (pn_waker_key p) w (tc_pending_new_txn c)))"

definition register_add_partition_waker :: "request_id \<Rightarrow> waker \<Rightarrow> txn_client \<Rightarrow> txn_client option" where
  "register_add_partition_waker rid w c =
     (case hm_get (tc_add_partition_by_request c) rid of
        None \<Rightarrow> Some c
      | Some p \<Rightarrow>
          map_option (\<lambda>s. c\<lparr>tc_pending_add_partition := s\<rparr>) (slab_assign (pa_waker_key p) w (tc_pending_add_partition c)))"

definition register_add_subscription_waker :: "request_id \<Rightarrow> waker \<Rightarrow> txn_client \<Rightarrow> txn_client option" where
  "register_add_subscription_waker rid w c =
     (case hm_get (tc_add_subscription_by_request c) rid of
        None \<Rightarrow> Some c
      | Some p \<Rightarrow>
          map_option (\<lambda>s. c\<lparr>tc_pending_add_subscription := s\<rparr>) (slab_assign (ps_waker_key p) w (tc_pending_add_subscription c)))"

definition register_end_txn_waker :: "request_id \<Rightarrow> waker \<Rightarrow> txn_client \<Rightarrow> txn_client option" where
  "register_end_txn_waker rid w c =
     (case hm_get (tc_end_txn_by_request c) rid of
        None \<Rightarrow> Some c
      | Some p \<Rightarrow> map_option (\<lambda>s. c\<lparr>tc_pending_end_txn := s\<rparr>) (slab_assign (pe_waker_key p) w (tc_pending_end_txn c)))"

section \<open>Requests and responses\<close>

datatype txn_command =
    CmdNewTxn request_id "nat option" "nat option"
  | CmdAddPartitionToTxn request_id "nat option" "nat option" "string list"
  | CmdAddSubscriptionToTxn request_id "nat option" "nat option" "(string \<times> string) list"
  | CmdEndTxn request_id "nat option" "nat option" "int option"

text \<open>The four responses have the same fields.\<close>

record txn_response =
  tr_request_id :: request_id
  tr_txnid_least_bits :: "nat option"
  tr_txnid_most_bits :: "nat option"
  tr_error :: "int option"
  tr_message :: "string option"

abbreviation txn_failure :: "int \<Rightarrow> txn_response \<Rightarrow> txn_error" where
  "txn_failure code resp \<equiv> from_broker code (unwrap_or [] (tr_message resp))"

text \<open>\<open>transactions.get_mut\<close> and the assignment that follows.\<close>

definition update_txn ::
    "txn_id \<Rightarrow> (transaction_metadata \<Rightarrow> transaction_metadata) \<Rightarrow> txn_client \<Rightarrow> txn_client" where
  "update_txn txn f c =
     (case hm_get (tc_transactions c) txn of
        None \<Rightarrow> c
      | Some m \<Rightarrow> c\<lparr>tc_transactions := hm_insert txn (f m) (tc_transactions c)\<rparr>)"

definition new_txn :: "(slab \<Rightarrow> nat) \<Rightarrow> request_id \<Rightarrow> nat \<Rightarrow> txn_client \<Rightarrow> txn_client \<times> txn_command" where
  "new_txn vacant rid timeout_ms c =
     (let k = vacant (tc_pending_new_txn c) in
      (c\<lparr>tc_pending_new_txn := hm_insert k None (tc_pending_new_txn c),
         tc_new_txn_by_request := hm_insert rid \<lparr>pn_request_id = rid, pn_waker_key = k\<rparr> (tc_new_txn_by_request c)\<rparr>,
       CmdNewTxn rid (Some timeout_ms) (Some (tc_coordinator_id c))))"

definition handle_new_txn_response ::
    "txn_response \<Rightarrow> txn_client \<Rightarrow> txn_client \<times> (txn_error + txn_id option) \<times> nat list" where
  "handle_new_txn_response resp c =
     (case hm_get (tc_new_txn_by_request c) (tr_request_id resp) of
        None \<Rightarrow> (c, Inr None, [])
      | Some p \<Rightarrow>
          let (s, woken) = slab_wake (pn_waker_key p) (tc_pending_new_txn c);
              c = c\<lparr>tc_new_txn_by_request := hm_remove (tr_request_id resp) (tc_new_txn_by_request c), tc_pending_new_txn := s\<rparr>
          in case tr_error resp of
               Some code \<Rightarrow> (c, Inl (txn_failure code resp), woken)
             | None \<Rightarrow>
                 let txn = TxnId (unwrap_or 0 (tr_txnid_most_bits resp)) (unwrap_or 0 (tr_txnid_least_bits resp))
                 in (c\<lparr>tc_transactions := hm_insert txn (tm_new txn (tc_coordinator_id c) 0) (tc_transactions c)\<rparr>,
                     Inr (Some txn), woken))"

definition add_partition ::
    "(slab \<Rightarrow> nat) \<Rightarrow> request_id \<Rightarrow> txn_id \<Rightarrow> string \<Rightarrow> txn_client \<Rightarrow> txn_client \<times> txn_command" where
  "add_partition vacant rid txn topic c =
     (let k = vacant (tc_pending_add_partition c) in
      (c\<lparr>tc_pending_add_partition := hm_insert k None (tc_pending_add_partition c),
         tc_add_partition_by_request := hm_insert rid
           \<lparr>pa_request_id = rid, pa_txn = txn, pa_topic = topic, pa_waker_key = k\<rparr> (tc_add_partition_by_request c)\<rparr>,
       CmdAddPartitionToTxn rid (Some (least_sig_bits txn)) (Some (most_sig_bits txn)) [topic]))"

definition handle_add_partition_response ::
    "txn_response \<Rightarrow> txn_client \<Rightarrow> txn_client \<times> (txn_error + unit) \<times> nat list" where
  "handle_add_partition_response resp c =
     (case hm_get (tc_add_partition_by_request c) (tr_request_id resp) of
        None \<Rightarrow> (c, Inr (), [])
      | Some p \<Rightarrow>
          let (s, woken) = slab_wake (pa_waker_key p) (tc_pending_add_partition c);
              c = c\<lparr>tc_add_partition_by_request := hm_remove (tr_request_id resp) (tc_add_partition_by_request c),
                    tc_pending_add_partition := s\<rparr>
          in case tr_error resp of
               Some code \<Rightarrow>
                 (update_txn (pa_txn p) (\<lambda>m. m\<lparr>tm_state := Errored\<rparr>) c, Inl (txn_failure code resp), woken)
             | None \<Rightarrow>
                 (update_txn (pa_txn p)
                    (\<lambda>m. m\<lparr>tm_produced_topics := List.insert (pa_topic p) (tm_produced_topics m)\<rparr>) c, Inr (), woken))"

definition add_subscription ::
    "(slab \<Rightarrow> nat) \<Rightarrow> request_id \<Rightarrow> txn_id \<Rightarrow> string \<Rightarrow> string \<Rightarrow> txn_client \<Rightarrow> txn_client \<times> txn_command" where
  "add_subscription vacant rid txn subscription topic c =
     (let k = vacant (tc_pending_add_subscription c) in
      (c\<lparr>tc_pending_add_subscription := hm_insert k None (tc_pending_add_subscription c),
         tc_add_subscription_by_request := hm_insert rid
           \<lparr>ps_request_id = rid, ps_txn = txn, ps_subscription = subscription, ps_topic = topic, ps_waker_key = k\<rparr>
           (tc_add_subscription_by_request c)\<rparr>,
       CmdAddSubscriptionToTxn rid (Some (least_sig_bits txn)) (Some (most_sig_bits txn)) [(topic, subscription)]))"

definition handle_add_subscription_response ::
    "txn_response \<Rightarrow> txn_client \<Rightarrow> txn_client \<times> (txn_error + unit) \<times> nat list" where
  "handle_add_subscription_response resp c =
     (case hm_get (tc_add_subscription_by_request c) (tr_request_id resp) of
        None \<Rightarrow> (c, Inr (), [])
      | Some p \<Rightarrow>
          let (s, woken) = slab_wake (ps_waker_key p) (tc_pending_add_subscription c);
              c = c\<lparr>tc_add_subscription_by_request := hm_remove (tr_request_id resp) (tc_add_subscription_by_request c),
                    tc_pending_add_subscription := s\<rparr>
          in case tr_error resp of
               Some code \<Rightarrow>
                 (update_txn (ps_txn p) (\<lambda>m. m\<lparr>tm_state := Errored\<rparr>) c, Inl (txn_failure code resp), woken)
             | None \<Rightarrow>
                 (update_txn (ps_txn p)
                    (\<lambda>m. m\<lparr>tm_acked_subscriptions := hm_insert (ps_subscription p)
                       ((case hm_get (tm_acked_subscriptions m) (ps_subscription p) of Some ts \<Rightarrow> ts | None \<Rightarrow> []) @ [ps_topic p])
                       (tm_acked_subscriptions m)\<rparr>) c, Inr (), woken))"

definition end_txn ::
    "(slab \<Rightarrow> nat) \<Rightarrow> request_id \<Rightarrow> txn_id \<Rightarrow> txn_action \<Rightarrow> txn_client \<Rightarrow> txn_client \<times> txn_command" where
  "end_txn vacant rid txn action c =
     (let k = vacant (tc_pending_end_txn c);
          c = c\<lparr>tc_pending_end_txn := hm_insert k None (tc_pending_end_txn c),
                tc_end_txn_by_request := hm_insert rid
                  \<lparr>pe_request_id = rid, pe_txn = txn, pe_action = action, pe_waker_key = k\<rparr> (tc_end_txn_by_request c)\<rparr>
      in (update_txn txn (\<lambda>m. m\<lparr>tm_state := (case action of Commit \<Rightarrow> Committing | Abort \<Rightarrow> Aborting)\<rparr>) c,
          CmdEndTxn rid (Some (least_sig_bits txn)) (Some (most_sig_bits txn)) (Some (txn_action_to_pb action))))"

definition handle_end_txn_response ::
    "txn_response \<Rightarrow> txn_client \<Rightarrow> txn_client \<times> (txn_error + txn_state) \<times> nat list" where
  "handle_end_txn_response resp c =
     (case hm_get (tc_end_txn_by_request c) (tr_request_id resp) of
        None \<Rightarrow> (c, Inr Errored, [])
      | Some p \<Rightarrow>
          let (s, woken) = slab_wake (pe_waker_key p) (tc_pending_end_txn c);
              c = c\<lparr>tc_end_txn_by_request := hm_remove (tr_request_id resp) (tc_end_txn_by_request c), tc_pending_end_txn := s\<rparr>
          in case tr_error resp of
               Some code \<Rightarrow>
                 (update_txn (pe_txn p) (\<lambda>m. m\<lparr>tm_state := Errored\<rparr>) c, Inl (txn_failure code resp), woken)
             | None \<Rightarrow>
                 let final_state = (case pe_action p of Commit \<Rightarrow> Committed | Abort \<Rightarrow> Aborted)
                 in (update_txn (pe_txn p) (\<lambda>m. m\<lparr>tm_state := final_state\<rparr>) c, Inr final_state, woken))"

definition forget_txn :: "txn_id \<Rightarrow> txn_client \<Rightarrow> txn_client" where
  "forget_txn txn c = c\<lparr>tc_transactions := hm_remove txn (tc_transactions c)\<rparr>"

section \<open>Sequences of operations\<close>

datatype txn_event =
    TeNew request_id nat
  | TeNewResp txn_response
  | TeAddPartition request_id txn_id string
  | TeAddPartitionResp txn_response
  | TeAddSubscription request_id txn_id string string
  | TeAddSubscriptionResp txn_response
  | TeEnd request_id txn_id txn_action
  | TeEndResp txn_response
  | TeForget txn_id
  | TeWakeNew request_id waker
  | TeWakeAddPartition request_id waker
  | TeWakeAddSubscription request_id waker
  | TeWakeEnd request_id waker

fun txn_step :: "(slab \<Rightarrow> nat) \<Rightarrow> txn_event \<Rightarrow> txn_client \<Rightarrow> txn_client option" where
  "txn_step vacant (TeNew rid ms) c = Some (fst (new_txn vacant rid ms c))"
| "txn_step vacant (TeNewResp resp) c = Some (fst (handle_new_txn_response resp c))"
| "txn_step vacant (TeAddPartition rid txn t) c = Some (fst (add_partition vacant rid txn t c))"
| "txn_step vacant (TeAddPartitionResp resp) c = Some (fst (handle_add_partition_response resp c))"
| "txn_step vacant (TeAddSubscription rid txn s t) c = Some (fst (add_subscription vacant rid txn s t c))"
| "txn_step vacant (TeAddSubscriptionResp resp) c = Some (fst (handle_add_subscription_response resp c))"
| "txn_step vacant (TeEnd rid txn a) c = Some (fst (end_txn vacant rid txn a c))"
| "txn_step vacant (TeEndResp resp) c = Some (fst (handle_end_txn_response resp c))"
| "txn_step vacant (TeForget txn) c = Some (forget_txn txn c)"
| "txn_step vacant (TeWakeNew rid w) c = register_new_txn_waker rid w c"
| "txn_step vacant (TeWakeAddPartition rid w) c = register_add_partition_waker rid w c"
| "txn_step vacant (TeWakeAddSubscription rid w) c = register_add_subscription_waker rid w c"
| "txn_step vacant (TeWakeEnd rid w) c = register_end_txn_waker rid w c"

fun txn_run :: "(slab \<Rightarrow> nat) \<Rightarrow> txn_event list \<Rightarrow> txn_client \<Rightarrow> txn_client option" where
  "txn_run vacant [] c = Some c"
| "txn_run vacant (ev # evs) c = (case txn_step vacant ev c of None \<Rightarrow> None | Some c' \<Rightarrow> txn_run vacant evs c')"

lemma txn_run_snoc:
  "txn_run vacant (evs @ [ev]) c = (case txn_run vacant evs c of None \<Rightarrow> None | Some c' \<Rightarrow> txn_step vacant ev c')"
  by (induction evs arbitrary: c) (simp_all split: option.split)

text \<open>Every pending request owns a slot of the slab, and no two the same.\<close>

definition keys_in :: "('p \<Rightarrow> nat) \<Rightarrow> (request_id, 'p) hashmap \<Rightarrow> slab \<Rightarrow> bool" where
  "keys_in key tab s \<longleftrightarrow> (\<forall>rid p. hm_get tab rid = Some p \<longrightarrow> hm_contains s (key p)) \<and>
     (\<forall>rid rid' p p'. hm_get tab rid = Some p \<longrightarrow> hm_get tab rid' = Some p' \<longrightarrow> key p = key p' \<longrightarrow> rid = rid')"

lemma keys_in_insert:
  assumes "keys_in key tab s" "\<not> hm_contains s k" "key p = k"
  shows "keys_in key (hm_insert rid p tab) (hm_insert k w s)"
proof -
  have "hm_get tab q = Some p' \<Longrightarrow> key p' \<noteq> k" for q p' using assms(1,2) unfolding keys_in_def by metis
  then have "hm_get tab q = Some p' \<Longrightarrow> key p' \<noteq> key p" for q p' using assms(3) by blast
  then show ?thesis using assms(1,3) unfolding keys_in_def by (auto simp: hm_contains_def split: if_splits) metis
qed

lemma keys_in_wake:
  assumes "keys_in key tab s" "hm_get tab rid = Some p"
  shows "keys_in key (hm_remove rid tab) (fst (slab_wake (key p) s))"
proof -
  have "hm_get tab q = Some p' \<Longrightarrow> q \<noteq> rid \<Longrightarrow> key p' \<noteq> key p" for q p' using assms unfolding keys_in_def by metis
  then show ?thesis using assms(1) unfolding keys_in_def by (auto simp: slab_wake_def hm_contains_def split: if_splits)
qed

lemma keys_in_assign: "keys_in key tab s \<Longrightarrow> slab_assign k w s = Some s' \<Longrightarrow> keys_in key tab s'"
  by (auto simp: keys_in_def slab_assign_def hm_contains_def split: if_splits)

lemma keys_in_assigns:
  assumes "keys_in key tab s" "hm_get tab rid = Some p" shows "\<exists>s'. slab_assign (key p) w s = Some s'"
  using assms by (simp add: keys_in_def slab_assign_def)

definition txn_wf :: "txn_client \<Rightarrow> bool" where
  "txn_wf c \<longleftrightarrow> keys_in pn_waker_key (tc_new_txn_by_request c) (tc_pending_new_txn c) \<and>
     keys_in pa_waker_key (tc_add_partition_by_request c) (tc_pending_add_partition c) \<and>
     keys_in ps_waker_key (tc_add_subscription_by_request c) (tc_pending_add_subscription c) \<and>
     keys_in pe_waker_key (tc_end_txn_by_request c) (tc_pending_end_txn c)"

lemma wf_update [simp]: "txn_wf (update_txn t f c) = txn_wf c" "txn_wf (c\<lparr>tc_transactions := ts\<rparr>) = txn_wf c"
  by (simp_all add: txn_wf_def update_txn_def split: option.split)

lemma wf_requests:
  assumes "txn_wf c" "\<And>s. \<not> hm_contains s (vacant s)"
  shows "txn_wf (fst (new_txn vacant rid ms c))" "txn_wf (fst (add_partition vacant rid txn t c))"
    "txn_wf (fst (add_subscription vacant rid txn s t c))" "txn_wf (fst (end_txn vacant rid txn a c))"
  using assms
  by (simp_all add: new_txn_def add_partition_def add_subscription_def end_txn_def Let_def) (auto simp: txn_wf_def intro!: keys_in_insert)

lemma wf_responses:
  assumes "txn_wf c"
  shows "txn_wf (fst (handle_new_txn_response resp c))" "txn_wf (fst (handle_add_partition_response resp c))"
    "txn_wf (fst (handle_add_subscription_response resp c))" "txn_wf (fst (handle_end_txn_response resp c))"
  using assms
  by (auto simp: handle_new_txn_response_def handle_add_partition_response_def handle_add_subscription_response_def
    handle_end_txn_response_def Let_def split_beta split: option.split) (auto simp: txn_wf_def intro: keys_in_wake)

lemma wf_wakers:
  assumes "txn_wf c"
  shows "\<exists>c'. register_new_txn_waker rid w c = Some c' \<and> txn_wf c' \<and> tc_transactions c' = tc_transactions c \<and> tc_end_txn_by_request c' = tc_end_txn_by_request c"
    "\<exists>c'. register_add_partition_waker rid w c = Some c' \<and> txn_wf c' \<and> tc_transactions c' = tc_transactions c \<and> tc_end_txn_by_request c' = tc_end_txn_by_request c"
    "\<exists>c'. register_add_subscription_waker rid w c = Some c' \<and> txn_wf c' \<and> tc_transactions c' = tc_transactions c \<and> tc_end_txn_by_request c' = tc_end_txn_by_request c"
    "\<exists>c'. register_end_txn_waker rid w c = Some c' \<and> txn_wf c' \<and> tc_transactions c' = tc_transactions c \<and> tc_end_txn_by_request c' = tc_end_txn_by_request c"
  using assms keys_in_assigns [of pn_waker_key "tc_new_txn_by_request c" "tc_pending_new_txn c" rid _ w]
    keys_in_assigns [of pa_waker_key "tc_add_partition_by_request c" "tc_pending_add_partition c" rid _ w]
    keys_in_assigns [of ps_waker_key "tc_add_subscription_by_request c" "tc_pending_add_subscription c" rid _ w]
    keys_in_assigns [of pe_waker_key "tc_end_txn_by_request c" "tc_pending_end_txn c" rid _ w]
  by (fastforce simp: register_new_txn_waker_def register_add_partition_waker_def register_add_subscription_waker_def
    register_end_txn_waker_def txn_wf_def split: option.split intro: keys_in_assign)+

section \<open>Committed means confirmed\<close>

text \<open>The commit of \<open>txn\<close> was requested, and later answered without an error.\<close>

definition confirmed :: "txn_event list \<Rightarrow> txn_id \<Rightarrow> bool" where
  "confirmed evs txn \<longleftrightarrow> (\<exists>us rid vs resp ws. evs = us @ TeEnd rid txn Commit # vs @ TeEndResp resp # ws \<and>
     tr_request_id resp = rid \<and> tr_error resp = None)"

definition requested :: "txn_event list \<Rightarrow> request_id \<Rightarrow> pending_end_txn \<Rightarrow> bool" where
  "requested evs rid p \<longleftrightarrow> (\<exists>us vs. evs = us @ TeEnd rid (pe_txn p) (pe_action p) # vs)"

lemma requested_snoc: "requested evs rid p \<Longrightarrow> requested (evs @ [ev]) rid p"
  unfolding requested_def by (metis append.assoc append_Cons)

lemma requested_now: "requested (evs @ [TeEnd rid (pe_txn p) (pe_action p)]) rid p"
  unfolding requested_def by blast

lemma confirmed_snoc: "confirmed evs txn \<Longrightarrow> confirmed (evs @ [ev]) txn"
  unfolding confirmed_def by (metis append.assoc append_Cons)

lemma confirmed_now:
  assumes "requested evs (tr_request_id resp) p" "pe_action p = Commit" "tr_error resp = None"
  shows "confirmed (evs @ [TeEndResp resp]) (pe_txn p)"
proof -
  obtain us vs where "evs = us @ TeEnd (tr_request_id resp) (pe_txn p) Commit # vs" using assms(1,2) by (auto simp: requested_def)
  then have "evs @ [TeEndResp resp] = us @ TeEnd (tr_request_id resp) (pe_txn p) Commit # vs @ TeEndResp resp # []" by simp
  then show ?thesis using assms(3) unfolding confirmed_def by blast
qed

definition txn_inv :: "txn_event list \<Rightarrow> txn_client \<Rightarrow> bool" where
  "txn_inv evs c \<longleftrightarrow> txn_wf c \<and> (\<forall>rid p. hm_get (tc_end_txn_by_request c) rid = Some p \<longrightarrow> requested evs rid p) \<and>
     (\<forall>txn m. hm_get (tc_transactions c) txn = Some m \<longrightarrow> tm_state m = Committed \<longrightarrow> confirmed evs txn)"

lemma txn_inv_keep:
  assumes "txn_inv evs c" "txn_wf c'"
    and "\<And>rid p. hm_get (tc_end_txn_by_request c') rid = Some p \<Longrightarrow> hm_get (tc_end_txn_by_request c) rid = Some p \<or> requested (evs @ [ev]) rid p"
    and "\<And>txn m. hm_get (tc_transactions c') txn = Some m \<Longrightarrow> tm_state m = Committed \<Longrightarrow>
      (\<exists>m. hm_get (tc_transactions c) txn = Some m \<and> tm_state m = Committed) \<or> confirmed (evs @ [ev]) txn"
  shows "txn_inv (evs @ [ev]) c'"
  using assms requested_snoc confirmed_snoc unfolding txn_inv_def by metis

lemma update_txn_simps [simp]:
  "tc_end_txn_by_request (update_txn t f c) = tc_end_txn_by_request c"
  "hm_get (tc_transactions (update_txn t f c)) q = (if q = t then map_option f (hm_get (tc_transactions c) t) else hm_get (tc_transactions c) q)"
  by (auto simp: update_txn_def split: option.split)

lemma end_txn_response_inv:
  assumes "txn_inv evs c" shows "txn_inv (evs @ [TeEndResp resp]) (fst (handle_end_txn_response resp c))"
proof (rule txn_inv_keep [OF assms])
  show "txn_wf (fst (handle_end_txn_response resp c))" using assms wf_responses by (simp add: txn_inv_def)
  show "hm_get (tc_end_txn_by_request (fst (handle_end_txn_response resp c))) rid = Some p \<Longrightarrow>
      hm_get (tc_end_txn_by_request c) rid = Some p \<or> requested (evs @ [TeEndResp resp]) rid p" for rid p
    by (auto simp: handle_end_txn_response_def Let_def split_beta split: option.splits if_splits)
  show "(\<exists>m. hm_get (tc_transactions c) txn = Some m \<and> tm_state m = Committed) \<or> confirmed (evs @ [TeEndResp resp]) txn"
    if m: "hm_get (tc_transactions (fst (handle_end_txn_response resp c))) txn = Some m" "tm_state m = Committed" for txn m
  proof (cases "hm_get (tc_end_txn_by_request c) (tr_request_id resp)")
    case None
    then show ?thesis using m by (simp add: handle_end_txn_response_def)
  next
    case (Some p)
    have "pe_action p = Commit \<Longrightarrow> tr_error resp = None \<Longrightarrow> confirmed (evs @ [TeEndResp resp]) (pe_txn p)"
      using assms Some confirmed_now by (simp add: txn_inv_def)
    then show ?thesis using m Some
      by (auto simp: handle_end_txn_response_def Let_def split_beta split: option.splits if_splits txn_action.splits)
  qed
qed

lemma txn_step_inv:
  assumes inv: "txn_inv evs c" and v: "\<And>s. \<not> hm_contains s (vacant s)"
  shows "\<exists>c'. txn_step vacant ev c = Some c' \<and> txn_inv (evs @ [ev]) c'"
proof -
  have wf: "txn_wf c" using inv by (simp add: txn_inv_def)
  note ws = wf_requests [OF wf v] wf_responses [OF wf]
  show ?thesis
  proof (cases ev)
    case (TeNew rid ms)
    have "txn_inv (evs @ [ev]) (fst (new_txn vacant rid ms c))"
      by (rule txn_inv_keep [OF inv ws(1)]) (auto simp: new_txn_def Let_def split_beta tm_new_def split: option.splits if_splits)
    then show ?thesis using TeNew by simp
  next
    case (TeNewResp resp)
    have "txn_inv (evs @ [ev]) (fst (handle_new_txn_response resp c))"
      by (rule txn_inv_keep [OF inv ws(5)]) (auto simp: handle_new_txn_response_def Let_def split_beta tm_new_def split: option.splits if_splits)
    then show ?thesis using TeNewResp by simp
  next
    case (TeAddPartition rid txn t)
    have "txn_inv (evs @ [ev]) (fst (add_partition vacant rid txn t c))"
      by (rule txn_inv_keep [OF inv ws(2)]) (auto simp: add_partition_def Let_def split_beta tm_new_def split: option.splits if_splits)
    then show ?thesis using TeAddPartition by simp
  next
    case (TeAddPartitionResp resp)
    have "txn_inv (evs @ [ev]) (fst (handle_add_partition_response resp c))"
      by (rule txn_inv_keep [OF inv ws(6)]) (auto simp: handle_add_partition_response_def Let_def split_beta tm_new_def split: option.splits if_splits)
    then show ?thesis using TeAddPartitionResp by simp
  next
    case (TeAddSubscription rid txn s t)
    have "txn_inv (evs @ [ev]) (fst (add_subscription vacant rid txn s t c))"
      by (rule txn_inv_keep [OF inv ws(3)]) (auto simp: add_subscription_def Let_def split_beta tm_new_def split: option.splits if_splits)
    then show ?thesis using TeAddSubscription by simp
  next
    case (TeAddSubscriptionResp resp)
    have "txn_inv (evs @ [ev]) (fst (handle_add_subscription_response resp c))"
      by (rule txn_inv_keep [OF inv ws(7)]) (auto simp: handle_add_subscription_response_def Let_def split_beta tm_new_def split: option.splits if_splits)
    then show ?thesis using TeAddSubscriptionResp by simp
  next
    case (TeEnd rid txn a)
    have "txn_inv (evs @ [ev]) (fst (end_txn vacant rid txn a c))"
      using TeEnd requested_now [of evs rid "\<lparr>pe_request_id = rid, pe_txn = txn, pe_action = a, pe_waker_key = vacant (tc_pending_end_txn c)\<rparr>"]
      by (intro txn_inv_keep [OF inv ws(4)]) (auto simp: end_txn_def Let_def split: if_splits txn_action.splits)
    then show ?thesis using TeEnd by simp
  next
    case (TeEndResp resp)
    then show ?thesis using end_txn_response_inv [OF inv] by simp
  next
    case (TeForget txn)
    then show ?thesis using wf by (auto intro!: txn_inv_keep [OF inv] simp: forget_txn_def split: if_splits)
  qed (use wf_wakers [OF wf] in \<open>fastforce intro!: txn_inv_keep [OF inv]\<close>)+
qed

lemma txn_run_inv:
  assumes "\<And>s. \<not> hm_contains s (vacant s)"
  shows "\<exists>c. txn_run vacant evs (tc_new n) = Some c \<and> txn_inv evs c"
proof (induction evs rule: rev_induct)
  case Nil
  then show ?case by (simp add: txn_inv_def txn_wf_def keys_in_def tc_new_def)
next
  case (snoc ev evs)
  then show ?case using txn_step_inv [OF _ assms] by (auto simp: txn_run_snoc)
qed

text \<open>
  C13. A transaction is shown as committed only when the coordinator said so. Over every sequence of requests,
  answers in any order and with any ids, waker registrations and forgotten transactions, no operation
  panics, and a transaction in state \<open>Committed\<close> had its commit requested and that very request answered
  without an error.
\<close>

theorem committed_means_confirmed:
  assumes "\<And>s. \<not> hm_contains s (vacant s)"
  shows "\<exists>c. txn_run vacant evs (tc_new n) = Some c \<and>
    {txn. \<exists>m. hm_get (tc_transactions c) txn = Some m \<and> tm_state m = Committed} \<subseteq> {txn. confirmed evs txn}"
  using txn_run_inv [OF assms, of evs n] by (auto simp: txn_inv_def)

definition next_key :: "slab \<Rightarrow> nat" where "next_key s = Suc (Max (insert 0 (fst ` set s)))"

lemma next_key_vacant: "\<not> hm_contains s (next_key s)"
proof
  assume "hm_contains s (next_key s)"
  then have "next_key s \<in> insert 0 (fst ` set s)" by (simp add: hm_contains_keys hm_keys_def)
  then have "next_key s \<le> Max (insert 0 (fst ` set s))" by (intro Max_ge) auto
  then show False by (simp add: next_key_def)
qed

definition commit0 :: "txn_event list" where
  "commit0 = [TeNew 0 5, TeNewResp \<lparr>tr_request_id = 0, tr_txnid_least_bits = Some 8, tr_txnid_most_bits = Some 7, tr_error = None, tr_message = None\<rparr>,
     TeEnd 1 (TxnId 7 8) Commit,
     TeEndResp \<lparr>tr_request_id = 1, tr_txnid_least_bits = Some 8, tr_txnid_most_bits = Some 7, tr_error = None, tr_message = None\<rparr>]"

theorem committed_means_confirmed_witness:
  "\<exists>c. txn_run next_key commit0 (tc_new 0) = Some c \<and> map_option tm_state (hm_get (tc_transactions c) (TxnId 7 8)) = Some Committed \<and>
     confirmed commit0 (TxnId 7 8)"
proof -
  obtain c where c: "txn_run next_key commit0 (tc_new 0) = Some c"
    "{txn. \<exists>m. hm_get (tc_transactions c) txn = Some m \<and> tm_state m = Committed} \<subseteq> {txn. confirmed commit0 txn}"
    using committed_means_confirmed [OF next_key_vacant] by blast
  have "map_option tm_state (hm_get (tc_transactions c) (TxnId 7 8)) = Some Committed"
    using c(1) by (auto simp: commit0_def tc_new_def new_txn_def handle_new_txn_response_def end_txn_def handle_end_txn_response_def Let_def
      slab_wake_def tm_new_def unwrap_or_def update_txn_def)
  then show ?thesis using c by auto
qed

end
