(* ===== verification/Request_Conn.thy ===== *)
theory Request_Conn
  imports Topic_Lookup Txn_Client
begin

text \<open>
  The requests of a connection that are correlated by request id: topic lookup, partition metadata, schema
  lookup, topic-list watchers and transactions, with their tables of pending requests, outcomes and
  wakers in \<open>conn.rs\<close>, and the future of the tokio engine that waits for one of them. Observational
  events and logging are left out.
\<close>

section \<open>State\<close>

datatype request_kind =
    RkLookup
  | RkPartitionedMetadata
  | RkTopicWatcher nat
  | RkNewTxn
  | RkAddPartitionToTxn
  | RkAddSubscriptionToTxn
  | RkEndTxn
  | RkTcClientConnect
  | RkGetSchema

record schema_pb =
  sp_name :: string
  sp_schema_data :: bytes
  sp_type :: int
  sp_properties :: "(string \<times> string) list"

datatype request_outcome =
    RoSuccess request_id
  | RoError request_id int string
  | RoLookupResponse request_id lookup_outcome
  | RoPartitionedMetadata request_id nat "(int \<times> string) option"
  | RoNewTxn request_id "txn_error + txn_id"
  | RoAddPartitionToTxn request_id "txn_error + unit"
  | RoAddSubscriptionToTxn request_id "txn_error + unit"
  | RoEndTxn request_id "txn_error + txn_state"
  | RoTopicListSnapshot request_id "string list"
  | RoGetSchemaResponse request_id "(int \<times> string) + (schema_pb \<times> bytes option)"
  | RoSessionLost request_id
  | RoTerminal request_id string

datatype request_command =
    RcLookup request_id string bool
  | RcPartitionedMetadata request_id string
  | RcGetSchema request_id string "bytes option"
  | RcWatchTopicList request_id nat string string
  | RcTcClientConnect request_id nat
  | RcTxn txn_command

text \<open>\<open>rq_woken\<close> logs the wakers in the order they fire.\<close>

record req_conn =
  rq_max_pending_lookups :: nat
  rq_next_request_id :: nat
  rq_next_watcher_id :: nat
  rq_pending_requests :: "(request_id, request_kind) hashmap"
  rq_outcomes :: "(request_id, request_outcome) hashmap"
  rq_wakers :: "(request_id, waker) hashmap"
  rq_lookup :: lookup_registry
  rq_topic_watchers :: topic_watcher_registry
  rq_txn_client :: txn_client
  rq_end_txn_requests :: "(txn_id \<times> txn_action, request_id) hashmap"
  rq_end_txn_request_keys :: "(request_id, txn_id \<times> txn_action) hashmap"
  rq_end_txn_waiters :: "(txn_id, txn_action) hashmap"
  rq_outbound :: "request_command list"
  rq_woken :: "(request_id \<times> waker) list"

text \<open>What the libraries decide: the key a slab hands out, and whether a command can be encoded.\<close>

record req_env =
  re_vacant :: "slab \<Rightarrow> nat"
  re_encodes :: "request_command \<Rightarrow> bool"

definition rq_new :: "nat \<Rightarrow> req_conn" where
  "rq_new max_pending = \<lparr>rq_max_pending_lookups = max_pending, rq_next_request_id = 0, rq_next_watcher_id = 0,
     rq_pending_requests = [], rq_outcomes = [], rq_wakers = [], rq_lookup = lookup_registry_new max_pending,
     rq_topic_watchers = wr_default, rq_txn_client = tc_new 0, rq_end_txn_requests = [], rq_end_txn_request_keys = [],
     rq_end_txn_waiters = [], rq_outbound = [], rq_woken = []\<rparr>"

section \<open>Outcomes and wakers\<close>

definition rq_alloc_request_id :: "req_conn \<Rightarrow> req_conn \<times> request_id" where
  "rq_alloc_request_id r = (r\<lparr>rq_next_request_id := wrap_add64 (rq_next_request_id r) 1\<rparr>, rq_next_request_id r)"

definition rq_encode_command :: "req_env \<Rightarrow> request_command \<Rightarrow> req_conn \<Rightarrow> req_conn" where
  "rq_encode_command env cmd r = (if re_encodes env cmd then r\<lparr>rq_outbound := rq_outbound r @ [cmd]\<rparr> else r)"

definition wake_for_request :: "request_id \<Rightarrow> req_conn \<Rightarrow> req_conn" where
  "wake_for_request rid r =
     (case hm_get (rq_wakers r) rid of
        None \<Rightarrow> r
      | Some w \<Rightarrow> r\<lparr>rq_wakers := hm_remove rid (rq_wakers r), rq_woken := rq_woken r @ [(rid, w)]\<rparr>)"

text \<open>An outcome is stored and its waiter woken.\<close>

definition publish :: "request_id \<Rightarrow> request_outcome \<Rightarrow> req_conn \<Rightarrow> req_conn" where
  "publish rid out r = wake_for_request rid (r\<lparr>rq_outcomes := hm_insert rid out (rq_outcomes r)\<rparr>)"

definition drop_pending :: "request_id \<Rightarrow> req_conn \<Rightarrow> req_conn" where
  "drop_pending rid r = r\<lparr>rq_pending_requests := hm_remove rid (rq_pending_requests r)\<rparr>"

definition add_pending :: "request_id \<Rightarrow> request_kind \<Rightarrow> req_conn \<Rightarrow> req_conn" where
  "add_pending rid kind r = r\<lparr>rq_pending_requests := hm_insert rid kind (rq_pending_requests r)\<rparr>"

definition rq_register_waker :: "request_id \<Rightarrow> waker \<Rightarrow> req_conn \<Rightarrow> req_conn" where
  "rq_register_waker rid w r =
     (if hm_get (rq_outcomes r) rid \<noteq> None then r\<lparr>rq_woken := rq_woken r @ [(rid, w)]\<rparr>
      else r\<lparr>rq_wakers := hm_insert rid w (rq_wakers r)\<rparr>)"

definition rq_unregister_waker :: "request_id \<Rightarrow> req_conn \<Rightarrow> req_conn" where
  "rq_unregister_waker rid r = r\<lparr>rq_wakers := hm_remove rid (rq_wakers r)\<rparr>"

definition rq_take_outcome :: "request_id \<Rightarrow> req_conn \<Rightarrow> req_conn \<times> request_outcome option" where
  "rq_take_outcome rid r =
     (case hm_get (rq_outcomes r) rid of
        None \<Rightarrow> (r, None)
      | Some out \<Rightarrow>
          let r = r\<lparr>rq_outcomes := hm_remove rid (rq_outcomes r)\<rparr> in
          (case hm_get (rq_end_txn_request_keys r) rid of
             None \<Rightarrow> r
           | Some key \<Rightarrow>
               r\<lparr>rq_end_txn_request_keys := hm_remove rid (rq_end_txn_request_keys r),
                 rq_end_txn_requests := hm_remove key (rq_end_txn_requests r)\<rparr>, Some out))"

definition cancel_request :: "request_id \<Rightarrow> req_conn \<Rightarrow> req_conn" where
  "cancel_request rid r =
     (let r = rq_unregister_waker rid r;
          r = r\<lparr>rq_outcomes := hm_remove rid (rq_outcomes r)\<rparr>;
          kind = hm_get (rq_pending_requests r) rid;
          r = drop_pending rid r;
          r = (case kind of
                 Some (RkTopicWatcher watcher_id) \<Rightarrow> r\<lparr>rq_topic_watchers := wr_close watcher_id (rq_topic_watchers r)\<rparr>
               | _ \<Rightarrow> r);
          r = r\<lparr>rq_lookup := fst (take_partition rid (fst (take_lookup rid (rq_lookup r))))\<rparr>
      in case hm_get (rq_end_txn_request_keys r) rid of
           None \<Rightarrow> r
         | Some key \<Rightarrow>
             let r = r\<lparr>rq_end_txn_request_keys := hm_remove rid (rq_end_txn_request_keys r),
                       rq_end_txn_requests := hm_remove key (rq_end_txn_requests r)\<rparr>
             in if hm_get (rq_end_txn_waiters r) (fst key) = Some (snd key)
                then r\<lparr>rq_end_txn_waiters := hm_remove (fst key) (rq_end_txn_waiters r)\<rparr> else r)"

section \<open>Lookup, partition metadata, schemas\<close>

definition synthesize_lookup_failed :: "request_id \<Rightarrow> string \<Rightarrow> req_conn \<Rightarrow> req_conn" where
  "synthesize_lookup_failed rid message r =
     publish rid (RoLookupResponse rid (LoFailed 0 message)) (drop_pending rid r)"

datatype lookup_submit_error = LseRejected | LseEncode

definition send_lookup_internal ::
    "req_env \<Rightarrow> request_id \<Rightarrow> lookup_request \<Rightarrow> req_conn \<Rightarrow> req_conn \<times> (lookup_submit_error + unit)" where
  "send_lookup_internal env rid req r =
     (case insert_lookup rid req (rq_lookup r) of
        Inl _ \<Rightarrow> (r, Inl LseRejected)
      | Inr l \<Rightarrow>
          let r = r\<lparr>rq_lookup := l\<rparr>; cmd = RcLookup rid (lr_topic req) (lr_authoritative req) in
          if \<not> re_encodes env cmd then (r, Inl LseEncode)
          else (add_pending rid RkLookup (rq_encode_command env cmd r), Inr ()))"

definition lookup_with_budget ::
    "req_env \<Rightarrow> string \<Rightarrow> bool \<Rightarrow> nat \<Rightarrow> req_conn \<Rightarrow> req_conn \<times> request_id" where
  "lookup_with_budget env topic authoritative hops r =
     (let (r, rid) = rq_alloc_request_id r;
          req = \<lparr>lr_topic = topic, lr_authoritative = authoritative, lr_hops_remaining = hops, lr_chain_origin = rid\<rparr>;
          (r, res) = send_lookup_internal env rid req r
      in (if res = Inl LseRejected
          then synthesize_lookup_failed rid ''lookup rejected: max pending (ConnectionConfig::max_pending_lookups)'' r
          else r, rid))"

definition conn_lookup :: "req_env \<Rightarrow> string \<Rightarrow> bool \<Rightarrow> req_conn \<Rightarrow> req_conn \<times> request_id" where
  "conn_lookup env topic authoritative r = lookup_with_budget env topic authoritative MAX_LOOKUP_REDIRECTS r"

definition conn_lookup_redirect :: "req_env \<Rightarrow> string \<Rightarrow> bool \<Rightarrow> nat \<Rightarrow> req_conn \<Rightarrow> req_conn \<times> request_id" where
  "conn_lookup_redirect env topic authoritative hops r =
     lookup_with_budget env topic authoritative (min hops MAX_LOOKUP_REDIRECTS) r"

definition on_lookup_response :: "lookup_response \<Rightarrow> req_conn \<Rightarrow> req_conn" where
  "on_lookup_response resp r =
     (let (l, taken) = take_lookup (lp_request_id resp) (rq_lookup r); r = r\<lparr>rq_lookup := l\<rparr> in
      case taken of
        None \<Rightarrow> r
      | Some req \<Rightarrow>
          publish (lr_chain_origin req) (RoLookupResponse (lr_chain_origin req) (translate_lookup_response resp req))
            (drop_pending (lr_chain_origin req) r))"

definition synthesize_partitioned_metadata_outcome ::
    "request_id \<Rightarrow> nat \<Rightarrow> (int \<times> string) option \<Rightarrow> req_conn \<Rightarrow> req_conn" where
  "synthesize_partitioned_metadata_outcome rid partitions error r =
     publish rid (RoPartitionedMetadata rid partitions error) (drop_pending rid r)"

definition get_partitioned_topic_metadata :: "req_env \<Rightarrow> string \<Rightarrow> req_conn \<Rightarrow> req_conn \<times> request_id" where
  "get_partitioned_topic_metadata env topic r =
     (let (r, rid) = rq_alloc_request_id r in
      (if is_partition_topic topic then synthesize_partitioned_metadata_outcome rid 0 None r
       else case insert_partition rid (rq_lookup r) of
           Inl _ \<Rightarrow>
             synthesize_partitioned_metadata_outcome rid 0
               (Some (0, ''partitioned-metadata rejected: max pending (ConnectionConfig::max_pending_lookups)'')) r
         | Inr l \<Rightarrow>
             add_pending rid RkPartitionedMetadata
               (rq_encode_command env (RcPartitionedMetadata rid topic) (r\<lparr>rq_lookup := l\<rparr>)), rid))"

record partitioned_metadata_response =
  mr_request_id :: request_id
  mr_partitions :: "nat option"
  mr_error :: "int option"
  mr_message :: "string option"

definition on_partitioned_metadata_response :: "partitioned_metadata_response \<Rightarrow> req_conn \<Rightarrow> req_conn" where
  "on_partitioned_metadata_response resp r =
     (let rid = mr_request_id resp; (l, ours) = take_partition rid (rq_lookup r); r = r\<lparr>rq_lookup := l\<rparr> in
      if ours
      then publish rid (RoPartitionedMetadata rid (unwrap_or 0 (mr_partitions resp))
             (map_option (\<lambda>code. (code, unwrap_or [] (mr_message resp))) (mr_error resp))) (drop_pending rid r)
      else r)"

definition get_schema :: "req_env \<Rightarrow> string \<Rightarrow> bytes option \<Rightarrow> req_conn \<Rightarrow> req_conn \<times> request_id" where
  "get_schema env topic version r =
     (let (r, rid) = rq_alloc_request_id r
      in (add_pending rid RkGetSchema (rq_encode_command env (RcGetSchema rid topic version) r), rid))"

record get_schema_response =
  gr_request_id :: request_id
  gr_error_code :: "int option"
  gr_error_message :: "string option"
  gr_schema :: "schema_pb option"
  gr_schema_version :: "bytes option"

definition on_get_schema_response :: "get_schema_response \<Rightarrow> req_conn \<Rightarrow> req_conn" where
  "on_get_schema_response resp r =
     (let rid = gr_request_id resp in
      if hm_get (rq_pending_requests r) rid = Some RkGetSchema
      then publish rid (RoGetSchemaResponse rid
             (case (gr_schema resp, gr_error_code resp) of
                (Some schema, None) \<Rightarrow> Inr (schema, gr_schema_version resp)
              | (_, Some code) \<Rightarrow> Inl (code, unwrap_or [] (gr_error_message resp))
              | (None, None) \<Rightarrow> Inl (0, ''broker returned empty CommandGetSchemaResponse''))) (drop_pending rid r)
      else r)"

section \<open>Topic watchers\<close>

definition watch_topic_list :: "req_env \<Rightarrow> string \<Rightarrow> string \<Rightarrow> req_conn \<Rightarrow> req_conn \<times> request_id" where
  "watch_topic_list env ns pat r =
     (let (r, rid) = rq_alloc_request_id r; watcher_id = rq_next_watcher_id r;
          r = r\<lparr>rq_next_watcher_id := wrap_add64 watcher_id 1\<rparr>;
          r = rq_encode_command env (RcWatchTopicList rid watcher_id ns pat) r;
          r = r\<lparr>rq_topic_watchers := wr_insert watcher_id rid
                 \<lparr>tw_pattern = pat, tw_namespace = ns, tw_topics_hash = None, tw_initialised = False\<rparr> (rq_topic_watchers r)\<rparr>
      in (add_pending rid (RkTopicWatcher watcher_id) r, rid))"

definition on_watch_topic_list_success :: "request_id \<Rightarrow> string list \<Rightarrow> string \<Rightarrow> req_conn \<Rightarrow> req_conn" where
  "on_watch_topic_list_success rid topics topics_hash r =
     (let r = r\<lparr>rq_topic_watchers := lookup_by_request
                 (\<lambda>w. w\<lparr>tw_topics_hash := Some topics_hash, tw_initialised := True\<rparr>) rid (rq_topic_watchers r)\<rparr>
      in publish rid (RoTopicListSnapshot rid topics) (drop_pending rid r))"

definition on_watch_topic_update :: "nat \<Rightarrow> string \<Rightarrow> req_conn \<Rightarrow> req_conn" where
  "on_watch_topic_update watcher_id topics_hash r =
     r\<lparr>rq_topic_watchers := lookup_by_watcher_id (\<lambda>w. w\<lparr>tw_topics_hash := Some topics_hash\<rparr>) watcher_id (rq_topic_watchers r)\<rparr>"

section \<open>Transactions\<close>

definition tc_client_connect :: "req_env \<Rightarrow> nat \<Rightarrow> req_conn \<Rightarrow> req_conn \<times> request_id" where
  "tc_client_connect env tc_id r =
     (let (r, rid) = rq_alloc_request_id r
      in (add_pending rid RkTcClientConnect (rq_encode_command env (RcTcClientConnect rid tc_id) r), rid))"

definition on_tc_client_connect_response ::
    "request_id \<Rightarrow> int option \<Rightarrow> string option \<Rightarrow> req_conn \<Rightarrow> req_conn" where
  "on_tc_client_connect_response rid error message r =
     publish rid
       (case error of
          None \<Rightarrow> RoSuccess rid
        | Some code \<Rightarrow> if code = 0 then RoSuccess rid else RoError rid code (unwrap_or [] message)) (drop_pending rid r)"

text \<open>The body the four transaction requests share: allocate, build the command, encode it, register.\<close>

definition submit_txn ::
    "req_env \<Rightarrow> request_kind \<Rightarrow> (request_id \<Rightarrow> txn_client \<Rightarrow> txn_client \<times> txn_command) \<Rightarrow> req_conn \<Rightarrow> req_conn \<times> request_id" where
  "submit_txn env kind build r =
     (let (r, rid) = rq_alloc_request_id r; (c, cmd) = build rid (rq_txn_client r)
      in (add_pending rid kind (rq_encode_command env (RcTxn cmd) (r\<lparr>rq_txn_client := c\<rparr>)), rid))"

definition conn_new_txn :: "req_env \<Rightarrow> nat \<Rightarrow> req_conn \<Rightarrow> req_conn \<times> request_id" where
  "conn_new_txn env timeout_millis =
     submit_txn env RkNewTxn (\<lambda>rid. new_txn (re_vacant env) rid (min timeout_millis U64_MAX))"

definition add_partition_to_txn :: "req_env \<Rightarrow> txn_id \<Rightarrow> string \<Rightarrow> req_conn \<Rightarrow> req_conn \<times> request_id" where
  "add_partition_to_txn env txn topic = submit_txn env RkAddPartitionToTxn (\<lambda>rid. add_partition (re_vacant env) rid txn topic)"

definition add_subscription_to_txn :: "req_env \<Rightarrow> txn_id \<Rightarrow> string \<Rightarrow> string \<Rightarrow> req_conn \<Rightarrow> req_conn \<times> request_id" where
  "add_subscription_to_txn env txn subscription topic =
     submit_txn env RkAddSubscriptionToTxn (\<lambda>rid. add_subscription (re_vacant env) rid txn subscription topic)"

definition conn_end_txn :: "req_env \<Rightarrow> txn_id \<Rightarrow> txn_action \<Rightarrow> req_conn \<Rightarrow> req_conn \<times> (txn_error + request_id)" where
  "conn_end_txn env txn action r =
     (case hm_get (rq_end_txn_waiters r) txn of
        Some active \<Rightarrow> (r, Inl (AlreadyEnding txn active))
      | None \<Rightarrow>
          let r = r\<lparr>rq_end_txn_waiters := hm_insert txn action (rq_end_txn_waiters r)\<rparr> in
          case hm_get (rq_end_txn_requests r) (txn, action) of
            Some rid \<Rightarrow> (r, Inr rid)
          | None \<Rightarrow>
              let (r, rid) = submit_txn env RkEndTxn (\<lambda>rid. end_txn (re_vacant env) rid txn action) r
              in (r\<lparr>rq_end_txn_requests := hm_insert (txn, action) rid (rq_end_txn_requests r),
                    rq_end_txn_request_keys := hm_insert rid (txn, action) (rq_end_txn_request_keys r)\<rparr>, Inr rid))"

definition release_end_txn_waiter :: "txn_id \<Rightarrow> txn_action \<Rightarrow> req_conn \<Rightarrow> req_conn" where
  "release_end_txn_waiter txn action r =
     (if hm_get (rq_end_txn_waiters r) txn = Some action
      then r\<lparr>rq_end_txn_waiters := hm_remove txn (rq_end_txn_waiters r)\<rparr> else r)"

definition on_new_txn_response :: "txn_response \<Rightarrow> req_conn \<Rightarrow> req_conn" where
  "on_new_txn_response resp r =
     (let rid = tr_request_id resp; r = drop_pending rid r; (c, result, _) = handle_new_txn_response resp (rq_txn_client r);
          r = r\<lparr>rq_txn_client := c\<rparr>
      in case result of
           Inr None \<Rightarrow> r
         | Inr (Some txn) \<Rightarrow> publish rid (RoNewTxn rid (Inr txn)) r
         | Inl err \<Rightarrow> publish rid (RoNewTxn rid (Inl err)) r)"

definition on_add_partition_response :: "txn_response \<Rightarrow> req_conn \<Rightarrow> req_conn" where
  "on_add_partition_response resp r =
     (let rid = tr_request_id resp; r = drop_pending rid r; (c, result, _) = handle_add_partition_response resp (rq_txn_client r)
      in publish rid (RoAddPartitionToTxn rid result) (r\<lparr>rq_txn_client := c\<rparr>))"

definition on_add_subscription_response :: "txn_response \<Rightarrow> req_conn \<Rightarrow> req_conn" where
  "on_add_subscription_response resp r =
     (let rid = tr_request_id resp; r = drop_pending rid r; (c, result, _) = handle_add_subscription_response resp (rq_txn_client r)
      in publish rid (RoAddSubscriptionToTxn rid result) (r\<lparr>rq_txn_client := c\<rparr>))"

definition on_end_txn_response :: "txn_response \<Rightarrow> req_conn \<Rightarrow> req_conn" where
  "on_end_txn_response resp r =
     (let rid = tr_request_id resp; r = drop_pending rid r; (c, result, _) = handle_end_txn_response resp (rq_txn_client r)
      in publish rid (RoEndTxn rid result) (r\<lparr>rq_txn_client := c\<rparr>))"

section \<open>Generic answers, reset and terminal failure\<close>

definition on_success :: "request_id \<Rightarrow> req_conn \<Rightarrow> req_conn" where
  "on_success rid r =
     (case hm_get (rq_pending_requests r) rid of
        None \<Rightarrow> drop_pending rid r
      | Some _ \<Rightarrow> publish rid (RoSuccess rid) (drop_pending rid r))"

definition on_error :: "request_id \<Rightarrow> int \<Rightarrow> string \<Rightarrow> req_conn \<Rightarrow> req_conn" where
  "on_error rid code message r =
     (case hm_get (rq_pending_requests r) rid of
        None \<Rightarrow> drop_pending rid r
      | Some _ \<Rightarrow> publish rid (RoError rid code message) (drop_pending rid r))"

text \<open>The loops over the pending requests, the wakers left over and the lookups left over.\<close>

definition resolve_all :: "(request_id \<Rightarrow> request_outcome) \<Rightarrow> req_conn \<Rightarrow> req_conn" where
  "resolve_all out r =
     (let r = fold (\<lambda>rid. publish rid (out rid)) (map fst (rq_pending_requests r)) (r\<lparr>rq_pending_requests := []\<rparr>);
          r = fold (\<lambda>rid. publish rid (out rid)) (map fst (rq_wakers r)) r
      in fold (\<lambda>rid. publish rid (out rid)) (pending_request_ids (rq_lookup r)) r)"

definition rq_reset :: "req_conn \<Rightarrow> req_conn" where
  "rq_reset r =
     (resolve_all RoSessionLost r)\<lparr>rq_outbound := [], rq_lookup := lookup_registry_new (rq_max_pending_lookups r),
       rq_topic_watchers := wr_default\<rparr>"

definition rq_fail_all_pending :: "string \<Rightarrow> req_conn \<Rightarrow> req_conn" where
  "rq_fail_all_pending reason r = resolve_all (\<lambda>rid. RoTerminal rid reason) r"

section \<open>The future that waits\<close>

datatype poll_result = Ready request_outcome | Pending

definition request_fut_poll :: "request_id \<Rightarrow> waker \<Rightarrow> req_conn \<Rightarrow> req_conn \<times> poll_result" where
  "request_fut_poll rid w r =
     (case rq_take_outcome rid r of
        (r, Some out) \<Rightarrow> (r, Ready out)
      | (r, None) \<Rightarrow> (rq_register_waker rid w r, Pending))"

definition request_fut_drop :: "request_id \<Rightarrow> bool \<Rightarrow> req_conn \<Rightarrow> req_conn" where
  "request_fut_drop rid cancel_on_drop r = (if cancel_on_drop then cancel_request rid r else rq_unregister_waker rid r)"

end
