(* ===== verification/Request_Futures.thy ===== *)
theory Request_Futures
  imports Request_Conn
begin

text \<open>
  The futures that wait for a request, over every sequence of requests, polls, drops, broker answers,
  resets and terminal failures: a waiting future is never left without a way to be resolved.
\<close>

section \<open>Events\<close>

datatype req_event =
    ReLookup string bool
  | ReLookupRedirect string bool nat
  | RePartitionedMetadata string
  | ReGetSchema string "bytes option"
  | ReWatch string string
  | ReTcConnect nat
  | ReNewTxn nat
  | ReAddPartition txn_id string
  | ReAddSubscription txn_id string string
  | ReEndTxn txn_id txn_action
  | RePoll request_id waker
  | ReDrop request_id bool
  | ReRelease txn_id txn_action
  | OnLookup lookup_response
  | OnPartitions partitioned_metadata_response
  | OnSchema get_schema_response
  | OnWatchSuccess request_id "string list" string
  | OnWatchUpdate nat string
  | OnTcConnect request_id "int option" "string option"
  | OnNewTxn txn_response
  | OnAddPartition txn_response
  | OnAddSubscription txn_response
  | OnEndTxn txn_response
  | OnSuccess request_id
  | OnError request_id int string
  | OnReset
  | OnFailAll string

datatype req_result = Issued request_id | NotIssued txn_error | Polled poll_result | Silent

abbreviation issued :: "req_conn \<times> request_id \<Rightarrow> req_conn \<times> req_result" where
  "issued x \<equiv> (fst x, Issued (snd x))"

fun req_step :: "req_env \<Rightarrow> req_event \<Rightarrow> req_conn \<Rightarrow> req_conn \<times> req_result" where
  "req_step env (ReLookup t a) r = issued (conn_lookup env t a r)"
| "req_step env (ReLookupRedirect t a h) r = issued (conn_lookup_redirect env t a h r)"
| "req_step env (RePartitionedMetadata t) r = issued (get_partitioned_topic_metadata env t r)"
| "req_step env (ReGetSchema t v) r = issued (get_schema env t v r)"
| "req_step env (ReWatch ns pat) r = issued (watch_topic_list env ns pat r)"
| "req_step env (ReTcConnect i) r = issued (tc_client_connect env i r)"
| "req_step env (ReNewTxn ms) r = issued (conn_new_txn env ms r)"
| "req_step env (ReAddPartition t p) r = issued (add_partition_to_txn env t p r)"
| "req_step env (ReAddSubscription t s p) r = issued (add_subscription_to_txn env t s p r)"
| "req_step env (ReEndTxn t a) r =
     (case conn_end_txn env t a r of (r', Inr rid) \<Rightarrow> (r', Issued rid) | (r', Inl e) \<Rightarrow> (r', NotIssued e))"
| "req_step env (RePoll rid w) r = (case request_fut_poll rid w r of (r', p) \<Rightarrow> (r', Polled p))"
| "req_step env (ReDrop rid c) r = (request_fut_drop rid c r, Silent)"
| "req_step env (ReRelease t a) r = (release_end_txn_waiter t a r, Silent)"
| "req_step env (OnLookup resp) r = (on_lookup_response resp r, Silent)"
| "req_step env (OnPartitions resp) r = (on_partitioned_metadata_response resp r, Silent)"
| "req_step env (OnSchema resp) r = (on_get_schema_response resp r, Silent)"
| "req_step env (OnWatchSuccess rid ts h) r = (on_watch_topic_list_success rid ts h r, Silent)"
| "req_step env (OnWatchUpdate i h) r = (on_watch_topic_update i h r, Silent)"
| "req_step env (OnTcConnect rid e m) r = (on_tc_client_connect_response rid e m r, Silent)"
| "req_step env (OnNewTxn resp) r = (on_new_txn_response resp r, Silent)"
| "req_step env (OnAddPartition resp) r = (on_add_partition_response resp r, Silent)"
| "req_step env (OnAddSubscription resp) r = (on_add_subscription_response resp r, Silent)"
| "req_step env (OnEndTxn resp) r = (on_end_txn_response resp r, Silent)"
| "req_step env (OnSuccess rid) r = (on_success rid r, Silent)"
| "req_step env (OnError rid code m) r = (on_error rid code m r, Silent)"
| "req_step env OnReset r = (rq_reset r, Silent)"
| "req_step env (OnFailAll reason) r = (rq_fail_all_pending reason r, Silent)"

text \<open>
  A future is alive from the moment its request is issued until a poll returns \<open>Ready\<close> or it is dropped.
  It is parked with a waker after a poll returned \<open>Pending\<close>, until that waker fires.
\<close>

definition live_after :: "req_event \<Rightarrow> req_result \<Rightarrow> request_id set \<Rightarrow> request_id set" where
  "live_after ev res live =
     (case res of
        Issued rid \<Rightarrow> insert rid live
      | Polled (Ready out) \<Rightarrow> (case ev of RePoll rid w \<Rightarrow> live - {rid} | _ \<Rightarrow> live)
      | _ \<Rightarrow> (case ev of ReDrop rid c \<Rightarrow> live - {rid} | _ \<Rightarrow> live))"

definition parked_by :: "req_event \<Rightarrow> req_result \<Rightarrow> (request_id \<rightharpoonup> waker) \<Rightarrow> request_id \<rightharpoonup> waker" where
  "parked_by ev res parked =
     (case ev of
        RePoll rid w \<Rightarrow> if res = Polled Pending then parked(rid \<mapsto> w) else parked
      | ReDrop rid c \<Rightarrow> parked(rid := None)
      | _ \<Rightarrow> parked)"

definition parked_after ::
    "req_event \<Rightarrow> req_result \<Rightarrow> req_conn \<Rightarrow> req_conn \<Rightarrow> (request_id \<rightharpoonup> waker) \<Rightarrow> request_id \<rightharpoonup> waker" where
  "parked_after ev res r r' parked = parked_by ev res parked |` (- fst ` set (drop (length (rq_woken r)) (rq_woken r')))"

text \<open>
  The rules of the game. Futures are polled only while alive. The lease of an ending transaction is
  released after its future is gone. Request ids do not wrap around. The broker answers a \<open>NEW_TXN\<close>
  request only with the id of one.
\<close>

definition allowed :: "req_event \<Rightarrow> req_conn \<Rightarrow> request_id set \<Rightarrow> bool" where
  "allowed ev r live =
     (case ev of
        RePoll rid w \<Rightarrow> rid \<in> live
      | ReDrop rid c \<Rightarrow> rid \<in> live
      | ReRelease t a \<Rightarrow> (\<forall>rid. hm_get (rq_end_txn_requests r) (t, a) = Some rid \<longrightarrow> rid \<notin> live)
      | OnNewTxn resp \<Rightarrow> hm_get (rq_pending_requests r) (tr_request_id resp) \<in> {None, Some RkNewTxn}
      | _ \<Rightarrow> rq_next_request_id r + 1 < 2 ^ 64)"

type_synonym fut_state = "req_conn \<times> request_id set \<times> (request_id \<rightharpoonup> waker)"

inductive req_reach :: "req_env \<Rightarrow> fut_state \<Rightarrow> fut_state \<Rightarrow> bool" for env and s where
  refl: "req_reach env s s"
| step: "req_reach env s (r, live, parked) \<Longrightarrow> allowed ev r live \<Longrightarrow> req_step env ev r = (r', res) \<Longrightarrow>
    req_reach env s (r', live_after ev res live, parked_after ev res r r' parked)"

abbreviation req_run :: "req_env \<Rightarrow> req_conn \<Rightarrow> request_id set \<Rightarrow> (request_id \<rightharpoonup> waker) \<Rightarrow> bool" where
  "req_run env r live parked \<equiv> \<exists>m. req_reach env (rq_new m, {}, Map.empty) (r, live, parked)"

section \<open>Answers settle requests\<close>

lemma hm_contains_simps [simp]:
  "hm_contains (hm_insert k v m) q \<longleftrightarrow> q = k \<or> hm_contains m q" "hm_contains (hm_remove k m) q \<longleftrightarrow> q \<noteq> k \<and> hm_contains m q"
  "\<not> hm_contains [] q"
  by (auto simp: hm_contains_def)

definition settles_at :: "req_conn \<Rightarrow> req_conn \<Rightarrow> request_id \<Rightarrow> bool" where
  "settles_at r r' rid \<longleftrightarrow>
     (hm_contains (rq_pending_requests r') rid \<longrightarrow> hm_get (rq_pending_requests r') rid = hm_get (rq_pending_requests r) rid) \<and>
     (hm_contains (rq_pending_requests r) rid \<longrightarrow>
        hm_contains (rq_pending_requests r') rid \<or> hm_contains (rq_outcomes r') rid) \<and>
     (hm_contains (rq_outcomes r) rid \<longrightarrow> hm_contains (rq_outcomes r') rid) \<and>
     (hm_get (rq_pending_requests r') rid = Some RkNewTxn \<longrightarrow>
        hm_contains (tc_new_txn_by_request (rq_txn_client r)) rid \<longrightarrow> hm_contains (tc_new_txn_by_request (rq_txn_client r')) rid) \<and>
     (hm_contains (rq_wakers r') rid \<longrightarrow>
        hm_contains (rq_wakers r) rid \<and> (hm_contains (rq_outcomes r') rid \<longrightarrow> hm_contains (rq_outcomes r) rid))"

definition settles :: "req_conn \<Rightarrow> req_conn \<Rightarrow> bool" where
  "settles r r' \<longleftrightarrow>
     rq_next_request_id r' = rq_next_request_id r \<and> rq_end_txn_requests r' = rq_end_txn_requests r \<and>
     rq_end_txn_request_keys r' = rq_end_txn_request_keys r \<and> rq_end_txn_waiters r' = rq_end_txn_waiters r \<and>
     (\<forall>rid. settles_at r r' rid) \<and>
     (\<exists>ws. rq_woken r' = rq_woken r @ ws \<and> hm_get (rq_wakers r') = hm_get (rq_wakers r) |` (- fst ` set ws))"

lemma settles_at_trans:
  assumes "settles_at r s rid" and "settles_at s t rid" shows "settles_at r t rid"
proof -
  have "hm_get (rq_pending_requests t) rid = Some RkNewTxn \<Longrightarrow> hm_contains (rq_pending_requests t) rid" by (simp add: hm_contains_def)
  then have "hm_get (rq_pending_requests t) rid = Some RkNewTxn \<Longrightarrow> hm_get (rq_pending_requests s) rid = Some RkNewTxn"
    using assms(2) by (simp add: settles_at_def)
  moreover have "hm_contains (rq_pending_requests t) rid \<Longrightarrow> hm_contains (rq_pending_requests s) rid"
    using assms(2) by (simp add: settles_at_def hm_contains_def)
  ultimately show ?thesis using assms unfolding settles_at_def by argo
qed

lemma settles_refl [simp]: "settles r r"
  by (auto simp: settles_def settles_at_def)

lemma settled_trans:
  assumes "settles r s" and "settles s t" shows "settles r t"
proof -
  obtain ws vs where ws: "rq_woken s = rq_woken r @ ws" "hm_get (rq_wakers s) = hm_get (rq_wakers r) |` (- fst ` set ws)"
    and vs: "rq_woken t = rq_woken s @ vs" "hm_get (rq_wakers t) = hm_get (rq_wakers s) |` (- fst ` set vs)"
    using assms by (auto simp: settles_def)
  have "rq_woken t = rq_woken r @ (ws @ vs)" "hm_get (rq_wakers t) = hm_get (rq_wakers r) |` (- fst ` set (ws @ vs))"
    using ws vs by (simp_all add: image_Un Int_commute)
  moreover have "\<forall>rid. settles_at r t rid" using assms settles_at_trans unfolding settles_def by blast
  moreover have "rq_next_request_id t = rq_next_request_id r" "rq_end_txn_requests t = rq_end_txn_requests r"
    "rq_end_txn_request_keys t = rq_end_txn_request_keys r" "rq_end_txn_waiters t = rq_end_txn_waiters r"
    using assms by (simp_all add: settles_def)
  ultimately show ?thesis unfolding settles_def by blast
qed

lemma publish_simps [simp]:
  "rq_pending_requests (publish rid out r) = rq_pending_requests r"
  "rq_next_request_id (publish rid out r) = rq_next_request_id r"
  "rq_outcomes (publish rid out r) = hm_insert rid out (rq_outcomes r)"
  "hm_get (rq_wakers (publish rid out r)) = (hm_get (rq_wakers r))(rid := None)"
  "hm_contains (rq_wakers (publish rid out r)) q \<longleftrightarrow> q \<noteq> rid \<and> hm_contains (rq_wakers r) q"
  "rq_end_txn_requests (publish rid out r) = rq_end_txn_requests r"
  "rq_end_txn_request_keys (publish rid out r) = rq_end_txn_request_keys r"
  "rq_end_txn_waiters (publish rid out r) = rq_end_txn_waiters r"
  "rq_txn_client (publish rid out r) = rq_txn_client r"
  "rq_lookup (publish rid out r) = rq_lookup r"
  "rq_woken (publish rid out r) = rq_woken r @ (case hm_get (rq_wakers r) rid of None \<Rightarrow> [] | Some w \<Rightarrow> [(rid, w)])"
  by (auto simp: publish_def wake_for_request_def fun_eq_iff hm_contains_def split: option.split)

lemma settles_publish: "settles r (publish rid out r)"
proof -
  have "settles_at r (publish rid out r) q" for q by (auto simp: settles_at_def)
  moreover have "hm_get (rq_wakers (publish rid out r)) =
    hm_get (rq_wakers r) |` (- fst ` set (case hm_get (rq_wakers r) rid of None \<Rightarrow> [] | Some w \<Rightarrow> [(rid, w)]))"
    by (cases "hm_get (rq_wakers r) rid") (auto simp: restrict_map_def fun_eq_iff)
  ultimately show ?thesis unfolding settles_def publish_simps by blast
qed

lemma settles_same_wakers:
  assumes "rq_next_request_id r' = rq_next_request_id r" "rq_end_txn_requests r' = rq_end_txn_requests r"
    "rq_end_txn_request_keys r' = rq_end_txn_request_keys r" "rq_end_txn_waiters r' = rq_end_txn_waiters r"
    "rq_woken r' = rq_woken r" "rq_wakers r' = rq_wakers r" "\<And>rid. settles_at r r' rid"
  shows "settles r r'"
  using assms unfolding settles_def by (auto intro!: exI [of _ "[]"])

lemma settles_publishes: "settles r (fold (\<lambda>rid. publish rid (out rid)) rids r)"
  by (induction rids arbitrary: r) (simp_all, blast intro: settled_trans [OF settles_publish])

lemma publishes_outcomes:
  "hm_contains (rq_outcomes (fold (\<lambda>rid. publish rid (out rid)) rids r)) q \<longleftrightarrow> q \<in> set rids \<or> hm_contains (rq_outcomes r) q"
  by (induction rids arbitrary: r) auto

lemma publish_pending [simp]:
  "publish rid out (r\<lparr>rq_pending_requests := p\<rparr>) = (publish rid out r)\<lparr>rq_pending_requests := p\<rparr>"
  by (simp add: publish_def wake_for_request_def split: option.split)

lemma publishes_pending [simp]:
  "fold (\<lambda>rid. publish rid (out rid)) rids (r\<lparr>rq_pending_requests := p\<rparr>) =
     (fold (\<lambda>rid. publish rid (out rid)) rids r)\<lparr>rq_pending_requests := p\<rparr>"
  by (induction rids arbitrary: r) simp_all

text \<open>A request may leave the table of pending ones once it has an outcome.\<close>

lemma settles_unpend:
  assumes "\<And>rid. hm_contains (rq_pending_requests r) rid \<Longrightarrow> \<not> hm_contains p rid \<Longrightarrow> hm_contains (rq_outcomes r) rid"
    and "\<And>rid. hm_contains p rid \<Longrightarrow> hm_get p rid = hm_get (rq_pending_requests r) rid"
  shows "settles r (r\<lparr>rq_pending_requests := p\<rparr>)"
  by (rule settles_same_wakers) (use assms in \<open>auto simp: settles_at_def\<close>)

lemma settles_resolve: "settles r (publish rid out (drop_pending rid r))"
proof -
  have "publish rid out (drop_pending rid r) = (publish rid out r)\<lparr>rq_pending_requests := hm_remove rid (rq_pending_requests r)\<rparr>"
    by (simp add: drop_pending_def)
  moreover have "settles (publish rid out r) ((publish rid out r)\<lparr>rq_pending_requests := hm_remove rid (rq_pending_requests r)\<rparr>)"
    by (rule settles_unpend) (auto split: if_splits)
  ultimately show ?thesis using settled_trans [OF settles_publish] by metis
qed

text \<open>Fields no future depends on.\<close>

lemma settles_fields [simp]:
  "settles r (r\<lparr>rq_lookup := l\<rparr>)" "settles r (r\<lparr>rq_topic_watchers := t\<rparr>)" "settles r (r\<lparr>rq_outbound := b\<rparr>)"
  by (rule settles_same_wakers; simp add: settles_at_def)+

lemma settles_after: "settles r s \<Longrightarrow> settles r (publish rid out (drop_pending rid s))"
  by (rule settled_trans [OF _ settles_resolve])

lemma settles_all: "settles r (resolve_all out r)"
proof -
  let ?p = "\<lambda>rids r. fold (\<lambda>rid. publish rid (out rid)) rids r" and ?ids = "map fst (rq_pending_requests r)"
  have p: "rq_pending_requests (?p ids s) = rq_pending_requests s" for ids s by (induction ids arbitrary: s) simp_all
  have "settles (?p ?ids r) ((?p ?ids r)\<lparr>rq_pending_requests := []\<rparr>)"
  proof (rule settles_unpend)
    fix rid assume "hm_contains (rq_pending_requests (?p ?ids r)) rid"
    then have "rid \<in> set ?ids" unfolding p hm_contains_keys hm_keys_def .
    then show "hm_contains (rq_outcomes (?p ?ids r)) rid" using publishes_outcomes by blast
  qed simp
  then have "settles r (?p ?ids (r\<lparr>rq_pending_requests := []\<rparr>))"
    using settled_trans [OF settles_publishes] by simp
  then show ?thesis unfolding resolve_all_def Let_def
    by (rule settled_trans [OF settled_trans [OF _ settles_publishes] settles_publishes])
qed

lemma publish_client: "publish rid out (r\<lparr>rq_txn_client := c\<rparr>) = (publish rid out r)\<lparr>rq_txn_client := c\<rparr>"
  by (simp add: publish_def wake_for_request_def split: option.split)

lemma settles_client:
  assumes "\<And>q. q \<noteq> rid \<Longrightarrow> hm_contains (tc_new_txn_by_request (rq_txn_client r)) q \<Longrightarrow> hm_contains (tc_new_txn_by_request c) q"
  shows "settles r (publish rid out ((drop_pending rid r)\<lparr>rq_txn_client := c\<rparr>))"
proof -
  let ?s = "publish rid out (drop_pending rid r)"
  have "settles ?s (?s\<lparr>rq_txn_client := c\<rparr>)"
  proof (rule settles_same_wakers)
    show "settles_at ?s (?s\<lparr>rq_txn_client := c\<rparr>) q" for q
      using assms [of q] by (auto simp: settles_at_def drop_pending_def)
  qed simp_all
  then show ?thesis using settled_trans [OF settles_resolve [of r rid out]] by (simp add: publish_client)
qed

lemma drop_pending_client [simp]: "rq_txn_client (drop_pending rid r) = rq_txn_client r"
  by (simp add: drop_pending_def)

lemma new_txn_tables [simp]:
  "tc_new_txn_by_request (update_txn t f c) = tc_new_txn_by_request c"
  "tc_new_txn_by_request (fst (handle_add_partition_response resp c)) = tc_new_txn_by_request c"
  "tc_new_txn_by_request (fst (handle_add_subscription_response resp c)) = tc_new_txn_by_request c"
  "tc_new_txn_by_request (fst (handle_end_txn_response resp c)) = tc_new_txn_by_request c"
proof -
  show u [simp]: "tc_new_txn_by_request (update_txn t f c) = tc_new_txn_by_request c" for t f c
    by (simp add: update_txn_def split: option.split)
  show "tc_new_txn_by_request (fst (handle_add_partition_response resp c)) = tc_new_txn_by_request c"
    "tc_new_txn_by_request (fst (handle_add_subscription_response resp c)) = tc_new_txn_by_request c"
    "tc_new_txn_by_request (fst (handle_end_txn_response resp c)) = tc_new_txn_by_request c"
    by (simp_all add: handle_add_partition_response_def handle_add_subscription_response_def handle_end_txn_response_def
      Let_def split_beta split: option.split)
qed

lemma settles_answers:
  "settles r (on_lookup_response lresp r)" "settles r (on_partitioned_metadata_response mresp r)"
  "settles r (on_get_schema_response gresp r)" "settles r (on_watch_topic_list_success rid ts h r)"
  "settles r (on_watch_topic_update i h r)" "settles r (on_tc_client_connect_response rid e m r)"
  "settles r (on_add_partition_response resp r)" "settles r (on_add_subscription_response resp r)"
  "settles r (on_end_txn_response resp r)" "settles r (rq_reset r)" "settles r (rq_fail_all_pending reason r)"
  using settled_trans [OF settled_trans [OF settled_trans [OF settles_all settles_fields(3)] settles_fields(1)] settles_fields(2)]
  by (auto simp: on_lookup_response_def on_partitioned_metadata_response_def on_get_schema_response_def
    on_watch_topic_list_success_def on_watch_topic_update_def on_tc_client_connect_response_def on_add_partition_response_def
    on_add_subscription_response_def on_end_txn_response_def rq_fail_all_pending_def rq_reset_def take_lookup_def take_partition_def
    Let_def split_beta intro: settles_after settles_resolve settles_all settles_client split: option.split)

lemma drop_absent: "\<not> hm_contains (rq_pending_requests r) rid \<Longrightarrow> settles r (drop_pending rid r)"
  unfolding drop_pending_def by (rule settles_unpend) auto

lemma settles_generic: "settles r (on_success rid r)" "settles r (on_error rid code m r)"
  by (auto simp: on_success_def on_error_def hm_contains_def intro: drop_absent settles_resolve split: option.split)

lemma settles_new_txn:
  assumes "hm_get (rq_pending_requests r) (tr_request_id resp) \<in> {None, Some RkNewTxn}"
    and "hm_get (rq_pending_requests r) (tr_request_id resp) = Some RkNewTxn \<Longrightarrow>
      hm_contains (tc_new_txn_by_request (rq_txn_client r)) (tr_request_id resp)"
  shows "settles r (on_new_txn_response resp r)"
proof (cases "hm_get (tc_new_txn_by_request (rq_txn_client r)) (tr_request_id resp)")
  case None
  then have "\<not> hm_contains (rq_pending_requests r) (tr_request_id resp)" using assms by (auto simp: hm_contains_def)
  then show ?thesis using None drop_absent [of r "tr_request_id resp"]
    by (simp add: on_new_txn_response_def handle_new_txn_response_def drop_pending_def)
next
  case (Some p)
  then show ?thesis
    by (auto simp: on_new_txn_response_def handle_new_txn_response_def Let_def split_beta split: option.split intro!: settles_client)
qed

section \<open>The invariant\<close>

definition fut_inv :: "req_conn \<Rightarrow> request_id set \<Rightarrow> (request_id \<rightharpoonup> waker) \<Rightarrow> bool" where
  "fut_inv r live parked \<longleftrightarrow>
     (\<forall>rid \<in> live. rid < rq_next_request_id r \<and> (hm_contains (rq_pending_requests r) rid \<or> hm_contains (rq_outcomes r) rid)) \<and>
     hm_get (rq_wakers r) = parked \<and> dom parked \<subseteq> live \<and>
     (\<forall>rid. hm_contains (rq_wakers r) rid \<longrightarrow> \<not> hm_contains (rq_outcomes r) rid) \<and>
     (\<forall>rid. hm_contains (rq_pending_requests r) rid \<longrightarrow> rid < rq_next_request_id r) \<and>
     (\<forall>k rid. hm_get (rq_end_txn_requests r) k = Some rid \<longleftrightarrow> hm_get (rq_end_txn_request_keys r) rid = Some k) \<and>
     (\<forall>rid. hm_contains (rq_end_txn_request_keys r) rid \<longrightarrow> rid < rq_next_request_id r \<and>
        (hm_contains (rq_pending_requests r) rid \<or> hm_contains (rq_outcomes r) rid)) \<and>
     (\<forall>rid \<in> live. \<forall>t a. hm_get (rq_end_txn_request_keys r) rid = Some (t, a) \<longrightarrow> hm_get (rq_end_txn_waiters r) t = Some a) \<and>
     (\<forall>rid. hm_get (rq_pending_requests r) rid = Some RkNewTxn \<longrightarrow> hm_contains (tc_new_txn_by_request (rq_txn_client r)) rid)"

lemma settles_inv:
  assumes "fut_inv r live parked" and "settles r r'" and "parked_by ev res parked = parked" and "live_after ev res live = live"
  shows "fut_inv r' (live_after ev res live) (parked_after ev res r r' parked)"
proof -
  obtain ws where ws: "rq_woken r' = rq_woken r @ ws" "hm_get (rq_wakers r') = hm_get (rq_wakers r) |` (- fst ` set ws)"
    using assms(2) by (auto simp: settles_def)
  have at: "settles_at r r' rid" for rid using assms(2) by (simp add: settles_def)
  have p: "parked_after ev res r r' parked = hm_get (rq_wakers r')"
    using assms(1,3) ws by (simp add: parked_after_def fut_inv_def)
  have "dom (hm_get (rq_wakers r')) \<subseteq> live" using ws(2) assms(1) by (auto simp: fut_inv_def)
  moreover have "hm_get (rq_pending_requests r') rid = Some RkNewTxn \<Longrightarrow> hm_contains (tc_new_txn_by_request (rq_txn_client r')) rid" for rid
    using at [of rid] assms(1) by (simp add: settles_at_def fut_inv_def hm_contains_def)
  ultimately show ?thesis unfolding p assms(4) using assms(1,2) at
    unfolding fut_inv_def settles_def settles_at_def by (intro conjI) (metis (no_types, lifting) hm_contains_def)+
qed

section \<open>New requests\<close>

definition opens :: "req_conn \<Rightarrow> req_conn \<Rightarrow> bool" where
  "opens r r' \<longleftrightarrow>
     rq_next_request_id r' = Suc (rq_next_request_id r) \<and>
     (\<forall>rid. rid \<noteq> rq_next_request_id r \<longrightarrow> hm_get (rq_pending_requests r') rid = hm_get (rq_pending_requests r) rid \<and>
        hm_contains (rq_outcomes r') rid = hm_contains (rq_outcomes r) rid) \<and>
     (hm_contains (rq_pending_requests r') (rq_next_request_id r) \<or> hm_contains (rq_outcomes r') (rq_next_request_id r)) \<and>
     rq_wakers r' = rq_wakers r \<and> rq_woken r' = rq_woken r \<and> rq_end_txn_requests r' = rq_end_txn_requests r \<and>
     rq_end_txn_request_keys r' = rq_end_txn_request_keys r \<and> rq_end_txn_waiters r' = rq_end_txn_waiters r \<and>
     (\<forall>rid. hm_contains (tc_new_txn_by_request (rq_txn_client r)) rid \<longrightarrow> hm_contains (tc_new_txn_by_request (rq_txn_client r')) rid) \<and>
     (hm_get (rq_pending_requests r') (rq_next_request_id r) = Some RkNewTxn \<longrightarrow>
        hm_contains (tc_new_txn_by_request (rq_txn_client r')) (rq_next_request_id r))"

lemma opens_inv:
  assumes inv: "fut_inv r live parked" and "opens r r'"
  shows "fut_inv r' (insert (rq_next_request_id r) live) parked"
proof -
  let ?n = "rq_next_request_id r"
  have o: "rq_next_request_id r' = Suc ?n" "rq_wakers r' = rq_wakers r" "rq_end_txn_requests r' = rq_end_txn_requests r"
    "rq_end_txn_request_keys r' = rq_end_txn_request_keys r" "rq_end_txn_waiters r' = rq_end_txn_waiters r"
    "hm_contains (rq_pending_requests r') ?n \<or> hm_contains (rq_outcomes r') ?n"
    "\<And>rid. rid \<noteq> ?n \<Longrightarrow> hm_get (rq_pending_requests r') rid = hm_get (rq_pending_requests r) rid"
    "\<And>rid. rid \<noteq> ?n \<Longrightarrow> hm_contains (rq_outcomes r') rid = hm_contains (rq_outcomes r) rid"
    using assms(2) by (simp_all add: opens_def)
  have p: "rid \<noteq> ?n \<Longrightarrow> hm_contains (rq_pending_requests r') rid = hm_contains (rq_pending_requests r) rid" for rid
    using o(7) by (simp add: hm_contains_def)
  have "\<not> hm_contains (rq_end_txn_request_keys r) ?n" using inv by (auto simp: fut_inv_def)
  then have n: "?n \<notin> live" "\<not> hm_contains (rq_wakers r) ?n" "hm_get (rq_end_txn_request_keys r) ?n = None"
    using inv by (auto simp: fut_inv_def hm_contains_def)
  have new: "hm_get (rq_pending_requests r') rid = Some RkNewTxn \<Longrightarrow> hm_contains (tc_new_txn_by_request (rq_txn_client r')) rid" for rid
    using assms o(7) [of rid] by (cases "rid = ?n") (auto simp: opens_def fut_inv_def)
  have less: "hm_contains (rq_pending_requests r') rid \<Longrightarrow> rid < Suc ?n" for rid
    using p [of rid] inv by (cases "rid = ?n") (auto simp: fut_inv_def less_SucI)
  have live: "rid < Suc ?n \<and> (hm_contains (rq_pending_requests r') rid \<or> hm_contains (rq_outcomes r') rid)" if "rid \<in> insert ?n live" for rid
    using that p [of rid] o(6) o(8) [of rid] inv by (cases "rid = ?n") (auto simp: fut_inv_def less_SucI)
  have keys: "rid < Suc ?n \<and> (hm_contains (rq_pending_requests r') rid \<or> hm_contains (rq_outcomes r') rid)"
    if "hm_contains (rq_end_txn_request_keys r) rid" for rid
    using that p [of rid] o(6) o(8) [of rid] inv by (cases "rid = ?n") (auto simp: fut_inv_def less_SucI)
  have wk: "hm_contains (rq_wakers r) rid \<Longrightarrow> \<not> hm_contains (rq_outcomes r') rid" for rid
    using n(2) o(8) [of rid] inv by (cases "rid = ?n") (auto simp: fut_inv_def)
  show ?thesis unfolding fut_inv_def o(1-5) using inv n(3) new less live keys wk by (auto simp: fut_inv_def)
qed

lemma encode_simps [simp]:
  "rq_next_request_id (rq_encode_command env cmd r) = rq_next_request_id r"
  "rq_pending_requests (rq_encode_command env cmd r) = rq_pending_requests r"
  "rq_outcomes (rq_encode_command env cmd r) = rq_outcomes r" "rq_wakers (rq_encode_command env cmd r) = rq_wakers r"
  "rq_woken (rq_encode_command env cmd r) = rq_woken r" "rq_txn_client (rq_encode_command env cmd r) = rq_txn_client r"
  "rq_end_txn_requests (rq_encode_command env cmd r) = rq_end_txn_requests r"
  "rq_end_txn_request_keys (rq_encode_command env cmd r) = rq_end_txn_request_keys r"
  "rq_end_txn_waiters (rq_encode_command env cmd r) = rq_end_txn_waiters r"
  "rq_topic_watchers (rq_encode_command env cmd r) = rq_topic_watchers r"
  by (simp_all add: rq_encode_command_def)

lemma opens_pending:
  assumes "rq_next_request_id r + 1 < 2 ^ 64" "rq_next_request_id s = wrap_add64 (rq_next_request_id r) 1"
    "rq_pending_requests s = rq_pending_requests r" "rq_outcomes s = rq_outcomes r" "rq_wakers s = rq_wakers r" "rq_woken s = rq_woken r"
    "rq_end_txn_requests s = rq_end_txn_requests r" "rq_end_txn_request_keys s = rq_end_txn_request_keys r"
    "rq_end_txn_waiters s = rq_end_txn_waiters r"
    "\<And>rid. hm_contains (tc_new_txn_by_request (rq_txn_client r)) rid \<Longrightarrow> hm_contains (tc_new_txn_by_request (rq_txn_client s)) rid"
    "kind = RkNewTxn \<Longrightarrow> hm_contains (tc_new_txn_by_request (rq_txn_client s)) (rq_next_request_id r)"
  shows "opens r (add_pending (rq_next_request_id r) kind s)"
  using assms by (simp add: opens_def add_pending_def)

lemma opens_published:
  assumes "rq_next_request_id r + 1 < 2 ^ 64" and "\<not> hm_contains (rq_wakers r) (rq_next_request_id r)"
    and "\<not> hm_contains (rq_pending_requests r) (rq_next_request_id r)"
  shows "opens r (publish (rq_next_request_id r) out (drop_pending (rq_next_request_id r)
    (r\<lparr>rq_next_request_id := wrap_add64 (rq_next_request_id r) 1\<rparr>)))"
proof -
  have "hm_get (rq_wakers r) (rq_next_request_id r) = None" "hm_get (rq_pending_requests r) (rq_next_request_id r) = None"
    using assms(2,3) by (simp_all add: hm_contains_def)
  then show ?thesis using assms(1) by (simp add: opens_def publish_def wake_for_request_def drop_pending_def)
qed

definition encodes_lookups :: "req_env \<Rightarrow> bool" where
  "encodes_lookups env \<longleftrightarrow> (\<forall>rid t a. re_encodes env (RcLookup rid t a))"

lemma opens_lookup:
  assumes "rq_next_request_id r + 1 < 2 ^ 64" "\<not> hm_contains (rq_wakers r) (rq_next_request_id r)"
    "\<not> hm_contains (rq_pending_requests r) (rq_next_request_id r)" "encodes_lookups env"
  shows "opens r (fst (lookup_with_budget env t a h r)) \<and> snd (lookup_with_budget env t a h r) = rq_next_request_id r"
proof -
  let ?n = "rq_next_request_id r" and ?req = "\<lparr>lr_topic = t, lr_authoritative = a, lr_hops_remaining = h, lr_chain_origin = rq_next_request_id r\<rparr>"
  show ?thesis
  proof (cases "insert_lookup ?n ?req (rq_lookup r)")
    case (Inl e)
    then show ?thesis using opens_published [OF assms(1-3)]
      by (simp add: lookup_with_budget_def rq_alloc_request_id_def send_lookup_internal_def synthesize_lookup_failed_def)
  next
    case (Inr l)
    have e: "re_encodes env (RcLookup ?n t a)" using assms(4) by (simp add: encodes_lookups_def)
    then show ?thesis using Inr assms(1)
      by (auto simp: lookup_with_budget_def rq_alloc_request_id_def send_lookup_internal_def intro!: opens_pending)
  qed
qed

lemma opens_partitions:
  assumes "rq_next_request_id r + 1 < 2 ^ 64" "\<not> hm_contains (rq_wakers r) (rq_next_request_id r)"
    "\<not> hm_contains (rq_pending_requests r) (rq_next_request_id r)"
  shows "opens r (fst (get_partitioned_topic_metadata env t r)) \<and> snd (get_partitioned_topic_metadata env t r) = rq_next_request_id r"
proof -
  let ?n = "rq_next_request_id r"
  have id: "snd (get_partitioned_topic_metadata env t r) = ?n"
    by (simp add: get_partitioned_topic_metadata_def rq_alloc_request_id_def)
  show ?thesis
  proof (cases "is_partition_topic t \<or> (\<exists>e. insert_partition ?n (rq_lookup r) = Inl e)")
    case True
    then show ?thesis using opens_published [OF assms] id
      by (auto simp: get_partitioned_topic_metadata_def rq_alloc_request_id_def synthesize_partitioned_metadata_outcome_def)
  next
    case False
    then obtain l where l: "insert_partition ?n (rq_lookup r) = Inr l" by (cases "insert_partition ?n (rq_lookup r)") auto
    then show ?thesis using False assms(1)
      by (auto simp: get_partitioned_topic_metadata_def rq_alloc_request_id_def intro!: opens_pending)
  qed
qed

lemma opens_submit:
  assumes "rq_next_request_id r + 1 < 2 ^ 64"
    and "\<And>rid. hm_contains (tc_new_txn_by_request (rq_txn_client r)) rid \<Longrightarrow>
      hm_contains (tc_new_txn_by_request (fst (build (rq_next_request_id r) (rq_txn_client r)))) rid"
    and "kind = RkNewTxn \<Longrightarrow> hm_contains (tc_new_txn_by_request (fst (build (rq_next_request_id r) (rq_txn_client r)))) (rq_next_request_id r)"
  shows "opens r (fst (submit_txn env kind build r)) \<and> snd (submit_txn env kind build r) = rq_next_request_id r"
  using assms by (auto simp: submit_txn_def rq_alloc_request_id_def split_beta Let_def intro!: opens_pending)

lemma opens_simple:
  assumes "rq_next_request_id r + 1 < 2 ^ 64"
  shows "opens r (fst (get_schema env t v r))" "opens r (fst (watch_topic_list env ns pat r))" "opens r (fst (tc_client_connect env i r))"
    "opens r (fst (conn_new_txn env ms r))" "opens r (fst (add_partition_to_txn env txn t r))" "opens r (fst (add_subscription_to_txn env txn sub t r))"
  using assms
  by (auto simp: get_schema_def watch_topic_list_def tc_client_connect_def conn_new_txn_def add_partition_to_txn_def add_subscription_to_txn_def
    rq_alloc_request_id_def Let_def new_txn_def add_partition_def add_subscription_def intro!: opens_pending opens_submit [THEN conjunct1])

lemma issued_ids:
  "snd (get_schema env t v r) = rq_next_request_id r" "snd (watch_topic_list env ns pat r) = rq_next_request_id r"
  "snd (tc_client_connect env i r) = rq_next_request_id r" "snd (conn_new_txn env ms r) = rq_next_request_id r"
  "snd (add_partition_to_txn env txn t r) = rq_next_request_id r" "snd (add_subscription_to_txn env txn sub t r) = rq_next_request_id r"
  by (simp_all add: get_schema_def watch_topic_list_def tc_client_connect_def conn_new_txn_def add_partition_to_txn_def
    add_subscription_to_txn_def submit_txn_def rq_alloc_request_id_def Let_def split_beta)

section \<open>Every event keeps the invariant\<close>

lemma parked_quiet: "rq_woken r' = rq_woken r \<Longrightarrow> parked_after ev res r r' parked = parked_by ev res parked"
  by (simp add: parked_after_def restrict_map_def)

lemma waiters_inv:
  assumes "fut_inv r live parked"
    and "\<And>rid t a. rid \<in> live \<Longrightarrow> hm_get (rq_end_txn_request_keys r) rid = Some (t, a) \<Longrightarrow> hm_get ws t = Some a"
  shows "fut_inv (r\<lparr>rq_end_txn_waiters := ws\<rparr>) live parked"
  using assms by (simp add: fut_inv_def)

lemma issue_inv:
  assumes "fut_inv r live parked" "opens r r'" "parked_by ev (Issued (rq_next_request_id r)) parked = parked"
  shows "fut_inv r' (live_after ev (Issued (rq_next_request_id r)) live) (parked_after ev (Issued (rq_next_request_id r)) r r' parked)"
proof -
  have "rq_woken r' = rq_woken r" using assms(2) by (simp add: opens_def)
  then show ?thesis using opens_inv [OF assms(1,2)] assms(3) by (simp add: live_after_def parked_quiet)
qed

lemma end_keys_iff:
  "fut_inv r live parked \<Longrightarrow> hm_get (rq_end_txn_requests r) k = Some q \<longleftrightarrow> hm_get (rq_end_txn_request_keys r) q = Some k"
  unfolding fut_inv_def by blast

lemma no_key: "\<not> hm_contains m k \<Longrightarrow> hm_get m k = None"
  by (simp add: hm_contains_def)

lemma end_tables_inv:
  assumes inv: "fut_inv r live parked" and k: "hm_get (rq_end_txn_requests r) k = None" "hm_get (rq_end_txn_request_keys r) rid = None"
    and rid: "rid \<in> live" "hm_get (rq_end_txn_waiters r) (fst k) = Some (snd k)"
  shows "fut_inv (r\<lparr>rq_end_txn_requests := hm_insert k rid (rq_end_txn_requests r),
    rq_end_txn_request_keys := hm_insert rid k (rq_end_txn_request_keys r)\<rparr>) live parked"
proof -
  let ?r = "r\<lparr>rq_end_txn_requests := hm_insert k rid (rq_end_txn_requests r),
    rq_end_txn_request_keys := hm_insert rid k (rq_end_txn_request_keys r)\<rparr>"
  have "hm_get (rq_end_txn_requests ?r) k' = Some q \<longleftrightarrow> hm_get (rq_end_txn_request_keys ?r) q = Some k'" for k' q
    using end_keys_iff [OF inv, of k' q] end_keys_iff [OF inv, of k q] end_keys_iff [OF inv, of k' rid] k by auto
  moreover have "\<forall>q \<in> live. \<forall>t a. hm_get (rq_end_txn_request_keys ?r) q = Some (t, a) \<longrightarrow> hm_get (rq_end_txn_waiters ?r) t = Some a"
    using inv rid(2) by (auto simp: fut_inv_def)
  ultimately show ?thesis using inv rid(1) unfolding fut_inv_def by auto
qed

lemma lease_inv:
  assumes "fut_inv r live parked" "hm_get (rq_end_txn_waiters r) t = None"
  shows "fut_inv (r\<lparr>rq_end_txn_waiters := hm_insert t a (rq_end_txn_waiters r)\<rparr>) live parked"
  by (rule waiters_inv [OF assms(1)]) (use assms in \<open>fastforce simp: fut_inv_def\<close>)

lemma end_txn_inv:
  assumes inv: "fut_inv r live parked" and n: "rq_next_request_id r + 1 < 2 ^ 64" and e: "conn_end_txn env t a r = (r', Inr rid)"
  shows "fut_inv r' (insert rid live) parked \<and> rq_woken r' = rq_woken r \<and> rid \<notin> live"
proof -
  let ?l = "r\<lparr>rq_end_txn_waiters := hm_insert t a (rq_end_txn_waiters r)\<rparr>"
  have free: "hm_get (rq_end_txn_waiters r) t = None" using e by (auto simp: conn_end_txn_def split: option.splits)
  then have l: "fut_inv ?l live parked" by (rule lease_inv [OF inv])
  show ?thesis
  proof (cases "hm_get (rq_end_txn_requests r) (t, a)")
    case (Some q)
    then have r': "r' = ?l" "rid = q" using e free by (auto simp: conn_end_txn_def)
    have key: "hm_get (rq_end_txn_request_keys r) q = Some (t, a)" using Some inv by (simp add: fut_inv_def)
    then have "hm_contains (rq_end_txn_request_keys r) q" by (simp add: hm_contains_def)
    moreover have "q \<notin> live" using key free inv by (auto simp: fut_inv_def)
    ultimately show ?thesis using l key unfolding r' by (auto simp: fut_inv_def)
  next
    case None
    let ?b = "\<lambda>rid. end_txn (re_vacant env) rid t a" and ?n = "rq_next_request_id r"
    let ?s = "fst (submit_txn env RkEndTxn ?b ?l)"
    have sub: "opens ?l ?s \<and> snd (submit_txn env RkEndTxn ?b ?l) = rq_next_request_id ?l"
      by (rule opens_submit) (use n in \<open>auto simp: end_txn_def Let_def\<close>)
    then have r': "r' = ?s\<lparr>rq_end_txn_requests := hm_insert (t, a) ?n (rq_end_txn_requests ?s),
        rq_end_txn_request_keys := hm_insert ?n (t, a) (rq_end_txn_request_keys ?s)\<rparr>" "rid = ?n"
      using e free None by (auto simp: conn_end_txn_def split_beta Let_def)
    have s: "rq_end_txn_requests ?s = rq_end_txn_requests r" "rq_end_txn_request_keys ?s = rq_end_txn_request_keys r"
      "rq_end_txn_waiters ?s = hm_insert t a (rq_end_txn_waiters r)" "rq_woken ?s = rq_woken r" using sub by (auto simp: opens_def)
    have "\<not> hm_contains (rq_end_txn_request_keys r) ?n" using inv by (auto simp: fut_inv_def)
    then have "hm_get (rq_end_txn_request_keys ?s) ?n = None" unfolding s by (rule no_key)
    moreover have "fut_inv ?s (insert ?n live) parked" using opens_inv [OF l sub [THEN conjunct1]] by simp
    ultimately have "fut_inv r' (insert ?n live) parked"
      unfolding r'(1) by (intro end_tables_inv) (simp_all add: s None)
    moreover have "?n \<notin> live" using inv by (auto simp: fut_inv_def)
    ultimately show ?thesis using s(4) r' by simp
  qed
qed

text \<open>Everything a connection knows of a request, forgotten: what a finished or cancelled future leaves.\<close>

lemma forget_inv:
  assumes inv: "fut_inv r live parked"
    and same: "rq_next_request_id r' = rq_next_request_id r" "rq_txn_client r' = rq_txn_client r"
    and keys: "hm_get (rq_end_txn_request_keys r') = (hm_get (rq_end_txn_request_keys r))(rid := None)"
      "hm_get (rq_end_txn_requests r') = (\<lambda>k. if hm_get (rq_end_txn_request_keys r) rid = Some k then None else hm_get (rq_end_txn_requests r) k)"
    and waiters: "\<And>t a. hm_get (rq_end_txn_waiters r) t = Some a \<Longrightarrow> hm_get (rq_end_txn_request_keys r) rid \<noteq> Some (t, a) \<Longrightarrow>
      hm_get (rq_end_txn_waiters r') t = Some a"
    and wakers: "hm_get (rq_wakers r') = (hm_get (rq_wakers r))(rid := None)"
    and pending: "\<And>q. q \<noteq> rid \<Longrightarrow> hm_get (rq_pending_requests r') q = hm_get (rq_pending_requests r) q"
      "hm_contains (rq_pending_requests r') rid \<Longrightarrow> hm_get (rq_pending_requests r') rid = hm_get (rq_pending_requests r) rid"
    and outcomes: "\<And>q. q \<noteq> rid \<Longrightarrow> hm_contains (rq_outcomes r') q = hm_contains (rq_outcomes r) q"
  shows "fut_inv r' (live - {rid}) (parked(rid := None))"
proof -
  have p: "q \<noteq> rid \<Longrightarrow> hm_contains (rq_pending_requests r') q = hm_contains (rq_pending_requests r) q" for q
    using pending(1) by (simp add: hm_contains_def)
  have wk: "hm_contains (rq_wakers r') q \<Longrightarrow> q \<noteq> rid \<and> hm_contains (rq_wakers r) q" for q
    using wakers by (auto simp: hm_contains_def split: if_splits)
  have kq: "hm_contains (rq_end_txn_request_keys r') q \<Longrightarrow> q \<noteq> rid \<and> hm_contains (rq_end_txn_request_keys r) q" for q
    using keys(1) by (auto simp: hm_contains_def split: if_splits)
  have "hm_get (rq_end_txn_requests r') k = Some q \<longleftrightarrow> hm_get (rq_end_txn_request_keys r') q = Some k" for k q
    using end_keys_iff [OF inv, of k q] end_keys_iff [OF inv, of k rid] by (auto simp: keys)
  moreover have "hm_get (rq_end_txn_waiters r') t = Some a"
    if "q \<in> live - {rid}" "hm_get (rq_end_txn_request_keys r') q = Some (t, a)" for q t a
  proof (rule waiters)
    show "hm_get (rq_end_txn_waiters r) t = Some a" using that inv by (auto simp: keys fut_inv_def split: if_splits)
    show "hm_get (rq_end_txn_request_keys r) rid \<noteq> Some (t, a)"
      using that end_keys_iff [OF inv, of "(t, a)" q] end_keys_iff [OF inv, of "(t, a)" rid] by (auto simp: keys split: if_splits)
  qed
  moreover have "hm_get (rq_pending_requests r') q = Some RkNewTxn \<Longrightarrow> hm_contains (tc_new_txn_by_request (rq_txn_client r')) q" for q
    using inv pending(1) [of q] pending(2) unfolding same fut_inv_def by (cases "q = rid") (auto simp: hm_contains_def)
  moreover have "hm_contains (rq_pending_requests r') q \<Longrightarrow> q < rq_next_request_id r'" for q
    using inv p [of q] pending(2) unfolding same fut_inv_def by (cases "q = rid") (auto simp: hm_contains_def)
  moreover have "q < rq_next_request_id r' \<and> (hm_contains (rq_pending_requests r') q \<or> hm_contains (rq_outcomes r') q)"
    if "q \<noteq> rid" "q \<in> live \<or> hm_contains (rq_end_txn_request_keys r) q" for q
    using inv that p [of q] outcomes [of q] unfolding same fut_inv_def by auto
  moreover have "hm_contains (rq_wakers r') q \<Longrightarrow> \<not> hm_contains (rq_outcomes r') q" for q
    using inv wk [of q] outcomes [of q] by (auto simp: fut_inv_def)
  moreover have "hm_get (rq_wakers r') = parked(rid := None)" "dom (parked(rid := None)) \<subseteq> live - {rid}"
    using inv wakers by (auto simp: fut_inv_def)
  ultimately show ?thesis unfolding fut_inv_def using kq by auto
qed

lemma watcher_case:
  "rq_next_request_id (case k of Some (RkTopicWatcher i) \<Rightarrow> r\<lparr>rq_topic_watchers := f i\<rparr> | _ \<Rightarrow> r) = rq_next_request_id r"
  "rq_pending_requests (case k of Some (RkTopicWatcher i) \<Rightarrow> r\<lparr>rq_topic_watchers := f i\<rparr> | _ \<Rightarrow> r) = rq_pending_requests r"
  "rq_outcomes (case k of Some (RkTopicWatcher i) \<Rightarrow> r\<lparr>rq_topic_watchers := f i\<rparr> | _ \<Rightarrow> r) = rq_outcomes r"
  "rq_wakers (case k of Some (RkTopicWatcher i) \<Rightarrow> r\<lparr>rq_topic_watchers := f i\<rparr> | _ \<Rightarrow> r) = rq_wakers r"
  "rq_woken (case k of Some (RkTopicWatcher i) \<Rightarrow> r\<lparr>rq_topic_watchers := f i\<rparr> | _ \<Rightarrow> r) = rq_woken r"
  "rq_txn_client (case k of Some (RkTopicWatcher i) \<Rightarrow> r\<lparr>rq_topic_watchers := f i\<rparr> | _ \<Rightarrow> r) = rq_txn_client r"
  "rq_end_txn_requests (case k of Some (RkTopicWatcher i) \<Rightarrow> r\<lparr>rq_topic_watchers := f i\<rparr> | _ \<Rightarrow> r) = rq_end_txn_requests r"
  "rq_end_txn_request_keys (case k of Some (RkTopicWatcher i) \<Rightarrow> r\<lparr>rq_topic_watchers := f i\<rparr> | _ \<Rightarrow> r) = rq_end_txn_request_keys r"
  "rq_end_txn_waiters (case k of Some (RkTopicWatcher i) \<Rightarrow> r\<lparr>rq_topic_watchers := f i\<rparr> | _ \<Rightarrow> r) = rq_end_txn_waiters r"
  by (simp_all split: option.split request_kind.split)

lemma cancel_simps:
  "rq_next_request_id (cancel_request rid r) = rq_next_request_id r" "rq_txn_client (cancel_request rid r) = rq_txn_client r"
  "rq_pending_requests (cancel_request rid r) = hm_remove rid (rq_pending_requests r)"
  "rq_outcomes (cancel_request rid r) = hm_remove rid (rq_outcomes r)" "rq_wakers (cancel_request rid r) = hm_remove rid (rq_wakers r)"
  "rq_woken (cancel_request rid r) = rq_woken r"
  "hm_get (rq_end_txn_request_keys (cancel_request rid r)) = (hm_get (rq_end_txn_request_keys r))(rid := None)"
  "hm_get (rq_end_txn_requests (cancel_request rid r)) =
     (\<lambda>k. if hm_get (rq_end_txn_request_keys r) rid = Some k then None else hm_get (rq_end_txn_requests r) k)"
  "hm_get (rq_end_txn_waiters (cancel_request rid r)) t =
     (if hm_get (rq_end_txn_request_keys r) rid = map_option (Pair t) (hm_get (rq_end_txn_waiters r) t) then None
      else hm_get (rq_end_txn_waiters r) t)"
  by (auto simp: cancel_request_def rq_unregister_waker_def drop_pending_def Let_def watcher_case fun_eq_iff split: option.splits)

lemma drop_inv:
  assumes inv: "fut_inv r live parked"
  shows "fut_inv (request_fut_drop rid c r) (live - {rid}) (parked(rid := None))"
proof (cases c)
  case True
  have "fut_inv (cancel_request rid r) (live - {rid}) (parked(rid := None))"
    by (rule forget_inv [OF inv]) (auto simp: cancel_simps)
  then show ?thesis using True by (simp add: request_fut_drop_def)
next
  case False
  have "fut_inv (rq_unregister_waker rid r) (live - {rid}) (parked(rid := None))"
    using inv by (auto simp: rq_unregister_waker_def fut_inv_def)
  then show ?thesis using False by (simp add: request_fut_drop_def)
qed

lemma take_simps:
  assumes "hm_get (rq_outcomes r) rid = Some out"
  shows "snd (rq_take_outcome rid r) = Some out"
    "rq_next_request_id (fst (rq_take_outcome rid r)) = rq_next_request_id r" "rq_txn_client (fst (rq_take_outcome rid r)) = rq_txn_client r"
    "rq_pending_requests (fst (rq_take_outcome rid r)) = rq_pending_requests r"
    "rq_outcomes (fst (rq_take_outcome rid r)) = hm_remove rid (rq_outcomes r)" "rq_wakers (fst (rq_take_outcome rid r)) = rq_wakers r"
    "rq_woken (fst (rq_take_outcome rid r)) = rq_woken r" "rq_end_txn_waiters (fst (rq_take_outcome rid r)) = rq_end_txn_waiters r"
    "hm_get (rq_end_txn_request_keys (fst (rq_take_outcome rid r))) = (hm_get (rq_end_txn_request_keys r))(rid := None)"
    "hm_get (rq_end_txn_requests (fst (rq_take_outcome rid r))) =
       (\<lambda>k. if hm_get (rq_end_txn_request_keys r) rid = Some k then None else hm_get (rq_end_txn_requests r) k)"
  using assms by (auto simp: rq_take_outcome_def Let_def fun_eq_iff split: option.splits)

lemma poll_inv:
  assumes inv: "fut_inv r live parked" and "rid \<in> live" and p: "request_fut_poll rid w r = (r', res)"
  shows "fut_inv r' (live_after (RePoll rid w) (Polled res) live) (parked_after (RePoll rid w) (Polled res) r r' parked)"
proof (cases "hm_get (rq_outcomes r) rid")
  case None
  then have r': "r' = r\<lparr>rq_wakers := hm_insert rid w (rq_wakers r)\<rparr>" "res = Pending"
    using p by (auto simp: request_fut_poll_def rq_take_outcome_def rq_register_waker_def)
  have no: "\<not> hm_contains (rq_outcomes r) rid" using None by (simp add: hm_contains_def)
  have "fut_inv r' live (parked(rid \<mapsto> w))" using inv assms(2) no unfolding r' by (auto simp: fut_inv_def)
  moreover have "parked_after (RePoll rid w) (Polled Pending) r r' parked = parked(rid \<mapsto> w)"
    unfolding r' by (subst parked_quiet) (simp_all add: parked_by_def)
  ultimately show ?thesis by (simp add: r'(2) live_after_def)
next
  case (Some out)
  note t = take_simps [OF Some]
  have r': "r' = fst (rq_take_outcome rid r)" "res = Ready out"
    using p t(1) by (auto simp: request_fut_poll_def split: prod.splits option.splits)
  have "hm_contains (rq_outcomes r) rid" using Some by (simp add: hm_contains_def)
  then have np: "hm_get (rq_wakers r) rid = None" "parked rid = None" using inv by (auto simp: fut_inv_def intro: no_key)
  have "fut_inv r' (live - {rid}) (parked(rid := None))"
    unfolding r' by (rule forget_inv [OF inv]) (use np in \<open>auto simp: t\<close>)
  moreover have "parked(rid := None) = parked" using np(2) by auto
  moreover have "parked_after (RePoll rid w) (Polled (Ready out)) r r' parked = parked"
    unfolding r' by (subst parked_quiet) (simp_all add: parked_by_def t)
  ultimately show ?thesis by (simp add: r'(2) live_after_def)
qed

lemma release_inv:
  assumes inv: "fut_inv r live parked" and "\<And>rid. hm_get (rq_end_txn_requests r) (t, a) = Some rid \<Longrightarrow> rid \<notin> live"
  shows "fut_inv (release_end_txn_waiter t a r) live parked"
proof -
  have "hm_get (hm_remove t (rq_end_txn_waiters r)) t' = Some a'"
    if "hm_get (rq_end_txn_waiters r) t = Some a" "rid \<in> live" "hm_get (rq_end_txn_request_keys r) rid = Some (t', a')" for rid t' a'
  proof -
    have "hm_get (rq_end_txn_waiters r) t' = Some a'" using that inv by (auto simp: fut_inv_def)
    moreover have "(t', a') \<noteq> (t, a)" using that assms(2) end_keys_iff [OF inv, of "(t', a')" rid] by auto
    ultimately show ?thesis using that(1) by auto
  qed
  then show ?thesis using inv waiters_inv [OF inv] by (simp add: release_end_txn_waiter_def)
qed

lemma end_txn_refused: "conn_end_txn env t a r = (r', Inl e) \<Longrightarrow> r' = r"
  by (auto simp: conn_end_txn_def Let_def split_beta split: option.splits)

text \<open>Apart from ending a transaction and from what a future does, an event issues a request or settles some.\<close>

definition of_future :: "req_event \<Rightarrow> bool" where
  "of_future ev = (case ev of ReEndTxn t a \<Rightarrow> True | RePoll rid w \<Rightarrow> True | ReDrop rid c \<Rightarrow> True | ReRelease t a \<Rightarrow> True | _ \<Rightarrow> False)"

lemma issues_or_settles:
  assumes inv: "fut_inv r live parked" and env: "encodes_lookups env" and ok: "allowed ev r live" and st: "req_step env ev r = (r', res)"
    and ev: "\<not> of_future ev"
  shows "(opens r r' \<and> res = Issued (rq_next_request_id r)) \<or> (settles r r' \<and> res = Silent)"
proof -
  have fresh: "\<not> hm_contains (rq_wakers r) (rq_next_request_id r)" "\<not> hm_contains (rq_pending_requests r) (rq_next_request_id r)"
    using inv by (auto simp: fut_inv_def hm_contains_def)
  show ?thesis
  proof (cases ev)
    case (ReLookup t a)
    then show ?thesis using st ok opens_lookup [OF _ fresh env, of t a MAX_LOOKUP_REDIRECTS]
      by (simp add: allowed_def conn_lookup_def)
  next
    case (ReLookupRedirect t a h)
    then show ?thesis using st ok opens_lookup [OF _ fresh env, of t a "min h MAX_LOOKUP_REDIRECTS"]
      by (simp add: allowed_def conn_lookup_redirect_def)
  next
    case (RePartitionedMetadata t)
    then show ?thesis using st ok opens_partitions [OF _ fresh, of env t] by (simp add: allowed_def)
  next
    case (OnNewTxn resp)
    have "settles r (on_new_txn_response resp r)"
      by (rule settles_new_txn) (use ok OnNewTxn inv in \<open>simp_all add: allowed_def fut_inv_def\<close>)
    then show ?thesis using st OnNewTxn by simp
  qed (use st ok ev in \<open>auto simp: allowed_def of_future_def issued_ids opens_simple settles_answers settles_generic\<close>)
qed

text \<open>The table of live futures, the parked ones and the connection are in step after every event.\<close>

lemma step_inv:
  assumes inv: "fut_inv r live parked" and env: "encodes_lookups env" and ok: "allowed ev r live" and st: "req_step env ev r = (r', res)"
  shows "fut_inv r' (live_after ev res live) (parked_after ev res r r' parked)"
proof (cases "of_future ev")
  case False
  then have q: "parked_by ev x parked = parked" "live_after ev Silent live = live" for x
    by (auto simp: of_future_def parked_by_def live_after_def split: req_event.splits)
  show ?thesis using issues_or_settles [OF assms False] issue_inv [OF inv _ q(1)] settles_inv [OF inv _ q(1) q(2)] by blast
next
  case True
  then consider (ending) t a where "ev = ReEndTxn t a" | (polling) rid w where "ev = RePoll rid w" | (dropping) rid c where "ev = ReDrop rid c"
    | (releasing) t a where "ev = ReRelease t a" by (auto simp: of_future_def split: req_event.splits)
  then show ?thesis
  proof cases
    case ending
    then consider (no) e where "conn_end_txn env t a r = (r', Inl e)" "res = NotIssued e" | (yes) rid where "conn_end_txn env t a r = (r', Inr rid)" "res = Issued rid"
      using st by (simp split: prod.splits sum.splits)
    then show ?thesis
    proof cases
      case no
      then show ?thesis using inv ending end_txn_refused [OF no(1)] parked_quiet [of r' r] by (simp add: live_after_def parked_by_def)
    next
      case yes
      then show ?thesis using end_txn_inv [OF inv _ yes(1)] ok ending parked_quiet [of r' r]
        by (simp add: live_after_def parked_by_def allowed_def)
    qed
  next
    case polling
    then show ?thesis using poll_inv [OF inv] ok st by (auto simp: allowed_def split: prod.splits)
  next
    case dropping
    then have "r' = request_fut_drop rid c r" "res = Silent" using st by simp_all
    moreover have "rq_woken (request_fut_drop rid c r) = rq_woken r" by (simp add: request_fut_drop_def cancel_simps rq_unregister_waker_def)
    ultimately show ?thesis using drop_inv [OF inv] dropping parked_quiet [of r' r] by (simp add: live_after_def parked_by_def)
  next
    case releasing
    then have "r' = release_end_txn_waiter t a r" "res = Silent" using st by simp_all
    moreover have "rq_woken (release_end_txn_waiter t a r) = rq_woken r" by (simp add: release_end_txn_waiter_def)
    ultimately show ?thesis using release_inv [OF inv] ok releasing parked_quiet [of r' r]
      by (simp add: live_after_def parked_by_def allowed_def)
  qed
qed

lemma reach_inv:
  assumes "req_reach env s s'" "encodes_lookups env" "case s of (r, live, parked) \<Rightarrow> fut_inv r live parked"
  shows "case s' of (r, live, parked) \<Rightarrow> fut_inv r live parked"
  using assms(1)
proof (induction rule: req_reach.induct)
  case (step r live parked ev r' res)
  then have "fut_inv r live parked" by simp
  then show ?case using step_inv [OF _ assms(2) step(2,3)] by simp
qed (rule assms(3))

lemma run_inv:
  assumes "req_run env r live parked" "encodes_lookups env" shows "fut_inv r live parked"
proof -
  obtain m where "req_reach env (rq_new m, {}, Map.empty) (r, live, parked)" using assms(1) by blast
  moreover have "fut_inv (rq_new m) {} Map.empty" by (simp add: fut_inv_def rq_new_def)
  ultimately show ?thesis using reach_inv [OF _ assms(2)] by fastforce
qed

text \<open>An outcome whose future is gone is never removed.\<close>

definition orphaned :: "request_id \<Rightarrow> req_conn \<Rightarrow> request_id set \<Rightarrow> bool" where
  "orphaned rid r live \<longleftrightarrow> rid < rq_next_request_id r \<and> rid \<notin> live \<and> \<not> hm_contains (rq_end_txn_request_keys r) rid \<and>
     hm_contains (rq_outcomes r) rid"

lemma orphaned_settles: "orphaned rid r live \<Longrightarrow> settles r r' \<Longrightarrow> orphaned rid r' live"
  by (simp add: orphaned_def settles_def settles_at_def)

lemma orphaned_opens: "orphaned rid r live \<Longrightarrow> opens r r' \<Longrightarrow> orphaned rid r' (insert (rq_next_request_id r) live)"
  by (auto simp: orphaned_def opens_def)

lemma orphaned_step:
  assumes inv: "fut_inv r live parked" and env: "encodes_lookups env" and ok: "allowed ev r live" and st: "req_step env ev r = (r', res)"
    and o: "orphaned rid r live"
  shows "orphaned rid r' (live_after ev res live)"
proof (cases "of_future ev")
  case False
  then have "live_after ev Silent live = live" "live_after ev (Issued x) live = insert x live" for x
    by (auto simp: of_future_def live_after_def split: req_event.splits)
  then show ?thesis using issues_or_settles [OF inv env ok st False] orphaned_settles [OF o] orphaned_opens [OF o] by auto
next
  case True
  then consider (ending) t a where "ev = ReEndTxn t a" | (polling) q w where "ev = RePoll q w" | (dropping) q c where "ev = ReDrop q c"
    | (releasing) t a where "ev = ReRelease t a" by (auto simp: of_future_def split: req_event.splits)
  then show ?thesis
  proof cases
    case ending
    show ?thesis
    proof (cases "hm_get (rq_end_txn_waiters r) t = None")
      case False
      then show ?thesis using st o ending by (auto simp: conn_end_txn_def live_after_def)
    next
      case free: True
      show ?thesis
      proof (cases "hm_get (rq_end_txn_requests r) (t, a)")
        case (Some q)
        then have "q \<noteq> rid" using end_keys_iff [OF inv, of "(t, a)" q] o by (auto simp: orphaned_def hm_contains_def)
        then show ?thesis using st o ending free Some by (auto simp: conn_end_txn_def live_after_def orphaned_def)
      next
        case None
        let ?l = "r\<lparr>rq_end_txn_waiters := hm_insert t a (rq_end_txn_waiters r)\<rparr>"
        have sub: "opens ?l (fst (submit_txn env RkEndTxn (\<lambda>rid. end_txn (re_vacant env) rid t a) ?l)) \<and>
            snd (submit_txn env RkEndTxn (\<lambda>rid. end_txn (re_vacant env) rid t a) ?l) = rq_next_request_id ?l"
          by (rule opens_submit) (use ok ending in \<open>auto simp: end_txn_def Let_def allowed_def\<close>)
        have "orphaned rid ?l live" using o by (simp add: orphaned_def)
        from orphaned_opens [OF this conjunct1 [OF sub]] show ?thesis using st ending free None sub o
          by (auto simp: conn_end_txn_def live_after_def orphaned_def split_beta Let_def)
      qed
    qed
  next
    case polling
    then have "q \<noteq> rid" using ok o by (auto simp: allowed_def orphaned_def)
    then show ?thesis using st o polling
      by (cases "hm_get (rq_outcomes r) q") (auto simp: request_fut_poll_def rq_take_outcome_def rq_register_waker_def live_after_def orphaned_def
        Let_def split: prod.splits option.splits)
  next
    case dropping
    then have q: "q \<noteq> rid" using ok o by (auto simp: allowed_def orphaned_def)
    have "hm_contains (rq_end_txn_request_keys (cancel_request q r)) rid \<Longrightarrow> hm_contains (rq_end_txn_request_keys r) rid"
      by (simp add: hm_contains_def cancel_simps split: if_splits)
    then show ?thesis using st o dropping q
      by (cases c) (auto simp: request_fut_drop_def live_after_def orphaned_def cancel_simps rq_unregister_waker_def)
  next
    case releasing
    then show ?thesis using st o by (auto simp: release_end_txn_waiter_def live_after_def orphaned_def split: if_splits)
  qed
qed

lemma orphaned_reach:
  assumes "req_reach env s s'" "encodes_lookups env" "case s of (r, live, parked) \<Rightarrow> fut_inv r live parked \<and> orphaned rid r live"
  shows "case s' of (r, live, parked) \<Rightarrow> fut_inv r live parked \<and> orphaned rid r live"
  using assms(1)
proof (induction rule: req_reach.induct)
  case (step r live parked ev r' res)
  then have "fut_inv r live parked" "orphaned rid r live" by simp_all
  then show ?case using step_inv [OF _ assms(2) step(2,3)] orphaned_step [OF _ assms(2) step(2,3)] by simp
qed (rule assms(3))

section \<open>Properties\<close>



section \<open>Examples\<close>

definition env1 :: req_env where "env1 = \<lparr>re_vacant = length, re_encodes = (\<lambda>_. True)\<rparr>"

definition watching :: req_conn where "watching = fst (watch_topic_list env1 ''ns'' ''p'' (rq_new 0))"

lemma watching_run: "req_run env1 watching {0} Map.empty"
proof -
  have st: "req_step env1 (ReWatch ''ns'' ''p'') (rq_new 0) = (watching, Issued 0)"
    by (simp add: watching_def issued_ids) (simp add: rq_new_def)
  have "allowed (ReWatch ''ns'' ''p'') (rq_new 0) {}" by (simp add: allowed_def rq_new_def)
  from req_reach.step [OF req_reach.refl this st]
  have "req_reach env1 (rq_new 0, {}, Map.empty) (watching, {0}, parked_after (ReWatch ''ns'' ''p'') (Issued 0) (rq_new 0) watching Map.empty)"
    by (simp add: live_after_def)
  moreover have "parked_after (ReWatch ''ns'' ''p'') (Issued 0) (rq_new 0) watching Map.empty = Map.empty"
    by (simp add: parked_after_def parked_by_def)
  ultimately show ?thesis by auto
qed

lemma env1_encodes: "encodes_lookups env1"
  by (simp add: encodes_lookups_def env1_def)



end
