(* ===== verification/Wire_Frame.thy ===== *)
theory Wire_Frame
  imports Msg_Types Clock
begin

text \<open>
  The wire framing, \<open>crates/magnetar-proto/src/frame.rs\<close>, and the decode loop of
  \<open>crates/magnetar-proto/src/conn.rs\<close> that drives it. The protobuf codec (prost) and the CRC-32C
  routine are parameters, gathered in the record \<open>codec\<close>; \<open>codec_ok\<close> names the documented behaviour
  the framing relies on.
\<close>

definition MAGIC_CRC32C :: nat where "MAGIC_CRC32C = 0x0e01"
definition MAGIC_BROKER_ENTRY_METADATA :: nat where "MAGIC_BROKER_ENTRY_METADATA = 0x0e02"
definition MAX_FRAME_SIZE :: nat where "MAX_FRAME_SIZE = 5 * 1024 * 1024"

abbreviation TOTAL_SIZE_LEN :: nat where "TOTAL_SIZE_LEN \<equiv> 4"
abbreviation CMD_SIZE_LEN :: nat where "CMD_SIZE_LEN \<equiv> 4"
abbreviation MAGIC_LEN :: nat where "MAGIC_LEN \<equiv> 2"
abbreviation CHECKSUM_LEN :: nat where "CHECKSUM_LEN \<equiv> 4"
abbreviation METADATA_SIZE_LEN :: nat where "METADATA_SIZE_LEN \<equiv> 4"
abbreviation BEM_SIZE_LEN :: nat where "BEM_SIZE_LEN \<equiv> 4"

type_synonym crc = "32 word"

datatype frame_error =
    Incomplete (needed: nat)
  | BadLength nat
  | DecodeError
  | EncodeError
  | ChecksumMismatch (computed: crc) (expected: crc)
  | MissingMagic nat

text \<open>
  prost encodes a message to bytes, whose number is \<open>encoded_len\<close>, and decodes bytes to a message
  or fails; \<open>crc32c_append\<close> extends a checksum, and \<open>crc32c data\<close> starts it at zero.
\<close>

record ('c, 'm, 'e) codec =
  enc_cmd :: "'c \<Rightarrow> bytes"
  dec_cmd :: "bytes \<Rightarrow> 'c option"
  enc_meta :: "'m \<Rightarrow> bytes"
  dec_meta :: "bytes \<Rightarrow> 'm option"
  enc_bem :: "'e \<Rightarrow> bytes"
  dec_bem :: "bytes \<Rightarrow> 'e option"
  crc32c_append :: "crc \<Rightarrow> bytes \<Rightarrow> crc"

abbreviation crc32c :: "('c, 'm, 'e) codec \<Rightarrow> bytes \<Rightarrow> crc" where
  "crc32c cd \<equiv> crc32c_append cd 0"

definition codec_ok :: "('c, 'm, 'e) codec \<Rightarrow> bool" where
  "codec_ok cd \<longleftrightarrow> (\<forall>c. dec_cmd cd (enc_cmd cd c) = Some c) \<and>
     (\<forall>m. dec_meta cd (enc_meta cd m) = Some m) \<and> (\<forall>e. dec_bem cd (enc_bem cd e) = Some e) \<and>
     (\<forall>c xs ys. crc32c_append cd (crc32c_append cd c xs) ys = crc32c_append cd c (xs @ ys))"

record ('m, 'e) payload =
  broker_entry_metadata :: "'e option"
  metadata :: 'm
  body :: bytes

record ('c, 'm, 'e) frame =
  fr_command :: 'c
  fr_payload :: "('m, 'e) payload option"

section \<open>Encoding\<close>

text \<open>\<open>Message::encode\<close> into a growable buffer: it fails when the buffer cannot take the bytes.\<close>

definition pb_encode :: "bytes \<Rightarrow> bytes \<Rightarrow> frame_error + bytes" where
  "pb_encode dst bs = (if length bs > USIZE_MAX - length dst then Inl EncodeError else Inr (dst @ bs))"

definition u32_try_from :: "nat \<Rightarrow> nat option" where
  "u32_try_from x = (if x \<le> U32_MAX then Some x else None)"

definition or_bad_length :: "'a option \<Rightarrow> frame_error + 'a" where
  "or_bad_length x = (case x of Some v \<Rightarrow> Inr v | None \<Rightarrow> Inl (BadLength U32_MAX))"

definition and_then :: "'e + 'a \<Rightarrow> ('a \<Rightarrow> 'e + 'b) \<Rightarrow> 'e + 'b" where
  "and_then r f = (case r of Inl e \<Rightarrow> Inl e | Inr x \<Rightarrow> f x)"

definition encode_command :: "('c, 'm, 'e) codec \<Rightarrow> bytes \<Rightarrow> 'c \<Rightarrow> frame_error + bytes" where
  "encode_command cd dst cmd =
     (let cmd_size = length (enc_cmd cd cmd) in
      and_then (or_bad_length (checked_add USIZE_MAX CMD_SIZE_LEN cmd_size)) (\<lambda>total_size.
      and_then (or_bad_length (u32_try_from total_size)) (\<lambda>total_u32.
      and_then (or_bad_length (u32_try_from cmd_size)) (\<lambda>cmd_u32.
        pb_encode (dst @ put_u32 total_u32 @ put_u32 cmd_u32) (enc_cmd cd cmd)))))"

definition header_content_size :: "nat \<Rightarrow> nat \<Rightarrow> nat option" where
  "header_content_size cmd_size meta_size =
     Option.bind (checked_add USIZE_MAX CMD_SIZE_LEN cmd_size) (\<lambda>s.
     Option.bind (checked_add USIZE_MAX s MAGIC_LEN) (\<lambda>s.
     Option.bind (checked_add USIZE_MAX s CHECKSUM_LEN) (\<lambda>s.
     Option.bind (checked_add USIZE_MAX s METADATA_SIZE_LEN) (\<lambda>s.
       checked_add USIZE_MAX s meta_size))))"

text \<open>The three sizes written on the wire: of the frame, the command and the metadata.\<close>

definition payload_sizes :: "nat \<Rightarrow> nat \<Rightarrow> nat \<Rightarrow> frame_error + nat \<times> nat \<times> nat" where
  "payload_sizes cmd_size meta_size payload_len =
     and_then (or_bad_length (header_content_size cmd_size meta_size)) (\<lambda>header.
     and_then (or_bad_length (checked_add USIZE_MAX header payload_len)) (\<lambda>total.
     and_then (or_bad_length (u32_try_from total)) (\<lambda>total_u32.
     and_then (or_bad_length (u32_try_from cmd_size)) (\<lambda>cmd_u32.
     and_then (or_bad_length (u32_try_from meta_size)) (\<lambda>meta_u32.
       Inr (total_u32, cmd_u32, meta_u32))))))"

text \<open>\<open>dst[off..off+4].copy_from_slice(bs)\<close>\<close>

definition backfill :: "nat \<Rightarrow> bytes \<Rightarrow> bytes \<Rightarrow> bytes" where
  "backfill off bs dst = take off dst @ bs @ drop (off + length bs) dst"

definition encode_payload ::
    "('c, 'm, 'e) codec \<Rightarrow> bytes \<Rightarrow> 'c \<Rightarrow> 'm \<Rightarrow> bytes \<Rightarrow> frame_error + bytes" where
  "encode_payload cd dst cmd meta pl =
     and_then (payload_sizes (length (enc_cmd cd cmd)) (length (enc_meta cd meta)) (length pl))
       (\<lambda>(total, cmd_size, meta_size).
     and_then (pb_encode (dst @ put_u32 total @ put_u32 cmd_size) (enc_cmd cd cmd)) (\<lambda>d1.
       let d2 = d1 @ put_u16 MAGIC_CRC32C; checksum_offset = length d2; d3 = d2 @ put_u32 0;
           checksummed_start = length d3 in
     and_then (pb_encode (d3 @ put_u32 meta_size) (enc_meta cd meta)) (\<lambda>d4.
       let pre_payload_crc = crc32c cd (drop checksummed_start d4);
           full_crc = crc32c_append cd pre_payload_crc pl;
           d5 = backfill checksum_offset (put_u32 (unat full_crc)) d4
       in Inr (d5 @ pl))))"

definition encode_payload_head ::
    "('c, 'm, 'e) codec \<Rightarrow> 'c \<Rightarrow> 'm \<Rightarrow> bytes \<Rightarrow> frame_error + bytes" where
  "encode_payload_head cd cmd meta pl =
     and_then (payload_sizes (length (enc_cmd cd cmd)) (length (enc_meta cd meta)) (length pl))
       (\<lambda>(total, cmd_size, meta_size).
     and_then (pb_encode (put_u32 total @ put_u32 cmd_size) (enc_cmd cd cmd)) (\<lambda>d1.
       let d2 = d1 @ put_u16 MAGIC_CRC32C; checksum_offset = length d2; d3 = d2 @ put_u32 0;
           checksummed_start = length d3 in
     and_then (pb_encode (d3 @ put_u32 meta_size) (enc_meta cd meta)) (\<lambda>d4.
       let pre_payload_crc = crc32c cd (drop checksummed_start d4);
           full_crc = crc32c_append cd pre_payload_crc pl
       in Inr (backfill checksum_offset (put_u32 (unat full_crc)) d4))))"

section \<open>Decoding\<close>

definition peek_full_frame_len :: "bytes \<Rightarrow> frame_error + nat option" where
  "peek_full_frame_len inbound =
     (if length inbound < TOTAL_SIZE_LEN then Inr None
      else let total_size = be_value (take 4 inbound) in
        if total_size = 0 then Inl (BadLength total_size)
        else if total_size > MAX_FRAME_SIZE then Inl (BadLength total_size)
        else if length inbound < TOTAL_SIZE_LEN + total_size then Inr None
        else Inr (Some (TOTAL_SIZE_LEN + total_size)))"

text \<open>
  The optional broker-entry-metadata envelope before the payload prelude; the result is the
  envelope, the magic that follows, and the bytes that start with that magic.
\<close>

definition decode_bem ::
    "('c, 'm, 'e) codec \<Rightarrow> nat \<Rightarrow> bytes \<Rightarrow> frame_error + 'e option \<times> nat \<times> bytes" where
  "decode_bem cd total_size fb =
     (if length fb < MAGIC_LEN then Inl (Incomplete (MAGIC_LEN - length fb))
      else let magic = be_value (take 2 fb) in
        if magic = MAGIC_BROKER_ENTRY_METADATA then
          let fb = drop MAGIC_LEN fb in
          if length fb < BEM_SIZE_LEN then Inl (Incomplete (BEM_SIZE_LEN - length fb))
          else let bem_size = be_value (take 4 fb); fb = drop 4 fb in
            if bem_size > length fb then Inl (BadLength total_size)
            else case dec_bem cd (take bem_size fb) of
                None \<Rightarrow> Inl DecodeError
              | Some bem \<Rightarrow>
                  let fb = drop bem_size fb in
                  if length fb < MAGIC_LEN then Inl (Incomplete (MAGIC_LEN - length fb))
                  else Inr (Some bem, be_value (take 2 fb), fb)
        else Inr (None, magic, fb))"

definition decode_payload ::
    "('c, 'm, 'e) codec \<Rightarrow> nat \<Rightarrow> bytes \<Rightarrow> frame_error + ('m, 'e) payload" where
  "decode_payload cd total_size fb =
     and_then (decode_bem cd total_size fb) (\<lambda>(bem, magic, fb).
       if magic \<noteq> MAGIC_CRC32C then Inl (MissingMagic magic)
       else let fb = drop MAGIC_LEN fb in
         if length fb < CHECKSUM_LEN + METADATA_SIZE_LEN
         then Inl (Incomplete (CHECKSUM_LEN + METADATA_SIZE_LEN - length fb))
         else let expected_crc = word_of_nat (be_value (take 4 fb)); fb = drop 4 fb;
                  computed_crc = crc32c cd fb in
           if computed_crc \<noteq> expected_crc then Inl (ChecksumMismatch computed_crc expected_crc)
           else let meta_size = be_value (take 4 fb); fb = drop 4 fb in
             if meta_size > length fb then Inl (BadLength total_size)
             else case dec_meta cd (take meta_size fb) of
                 None \<Rightarrow> Inl DecodeError
               | Some m \<Rightarrow> Inr \<lparr>broker_entry_metadata = bem, metadata = m, body = drop meta_size fb\<rparr>)"

text \<open>The frame after its length field: command size, command, and what follows as payload.\<close>

definition decode_frame ::
    "('c, 'm, 'e) codec \<Rightarrow> nat \<Rightarrow> bytes \<Rightarrow> frame_error + ('c, 'm, 'e) frame" where
  "decode_frame cd total_size fb =
     (if length fb < CMD_SIZE_LEN then Inl (BadLength total_size)
      else let cmd_size = be_value (take 4 fb); fb = drop 4 fb in
        if cmd_size > length fb then Inl (BadLength total_size)
        else case dec_cmd cd (take cmd_size fb) of
            None \<Rightarrow> Inl DecodeError
          | Some cmd \<Rightarrow>
              let fb = drop cmd_size fb in
              if fb = [] then Inr \<lparr>fr_command = cmd, fr_payload = None\<rparr>
              else and_then (decode_payload cd total_size fb)
                     (\<lambda>p. Inr \<lparr>fr_command = cmd, fr_payload = Some p\<rparr>))"

text \<open>\<open>decode_one\<close> returns what is left of \<open>src\<close> besides its result.\<close>

definition decode_one ::
    "('c, 'm, 'e) codec \<Rightarrow> bytes \<Rightarrow> bytes \<times> (frame_error + ('c, 'm, 'e) frame)" where
  "decode_one cd src =
     (if length src < TOTAL_SIZE_LEN then (src, Inl (Incomplete (TOTAL_SIZE_LEN - length src)))
      else let total_size = be_value (take 4 src) in
        if total_size = 0 then (src, Inl (BadLength total_size))
        else if total_size > MAX_FRAME_SIZE then (src, Inl (BadLength total_size))
        else let full_frame_len = TOTAL_SIZE_LEN + total_size in
          if length src < full_frame_len
          then (src, Inl (Incomplete (full_frame_len - length src)))
          else let frame_bytes = drop TOTAL_SIZE_LEN (take full_frame_len src)
               in (drop full_frame_len src, decode_frame cd total_size frame_bytes))"

lemmas frame_defs [op_defs] = encode_command_def encode_payload_def encode_payload_head_def
  peek_full_frame_len_def decode_bem_def decode_payload_def decode_frame_def decode_one_def

section \<open>The read loop of the connection\<close>

text \<open>
  The part of \<open>Connection\<close> that \<open>handle_bytes\<close> touches itself, with everything else in \<open>rd_conn\<close>.
  \<open>hf\<close> stands for \<open>handle_frame\<close> and \<open>cm\<close> for the push of the \<open>ChecksumMismatch\<close> event: both act on
  \<open>rd_conn\<close> only. \<open>short_read\<close> is the outcome of the fault-injection roll, false in production.
\<close>

record 's reader =
  rd_inbound :: bytes
  rd_last_activity :: "instant option"
  rd_ping_outstanding :: bool
  rd_conn :: 's

type_synonym ('c, 'm, 'e, 's) frame_handler =
  "instant \<Rightarrow> ('c, 'm, 'e) frame \<Rightarrow> 's \<Rightarrow> 's \<times> frame_error option"

definition process_frame ::
    "('c, 'm, 'e) codec \<Rightarrow> ('c, 'm, 'e, 's) frame_handler \<Rightarrow> (crc \<Rightarrow> crc \<Rightarrow> 's \<Rightarrow> 's) \<Rightarrow> instant \<Rightarrow>
     bytes \<Rightarrow> 's reader \<Rightarrow> 's reader \<times> frame_error option" where
  "process_frame cd hf cm now frame_bytes s =
     (case snd (decode_one cd frame_bytes) of
        Inr frame \<Rightarrow> (let (c, e) = hf now frame (rd_conn s) in (s\<lparr>rd_conn := c\<rparr>, e))
      | Inl (ChecksumMismatch cp ex) \<Rightarrow> (s\<lparr>rd_conn := cm cp ex (rd_conn s)\<rparr>, None)
      | Inl e \<Rightarrow> (s, Some e))"

text \<open>A complete frame is more than its four length bytes, and its handling leaves the buffer alone, so
  every iteration of the loop below shortens the buffer.\<close>

lemma peek_Some:
  "peek_full_frame_len inb = Inr (Some len) \<Longrightarrow> 4 < len \<and> len \<le> length inb"
  by (auto simp: peek_full_frame_len_def Let_def split: if_splits)

lemma process_frame_inbound:
  "process_frame cd hf cm now fb s = (s2, err) \<Longrightarrow> rd_inbound s2 = rd_inbound s"
  by (auto simp: process_frame_def split: sum.splits frame_error.splits prod.splits)

function handle_bytes_decode_loop ::
    "('c, 'm, 'e) codec \<Rightarrow> ('c, 'm, 'e, 's) frame_handler \<Rightarrow> (crc \<Rightarrow> crc \<Rightarrow> 's \<Rightarrow> 's) \<Rightarrow> bool \<Rightarrow> instant \<Rightarrow>
     's reader \<Rightarrow> 's reader \<times> frame_error option" where
  "handle_bytes_decode_loop cd hf cm short_read now s =
     (case peek_full_frame_len (rd_inbound s) of
        Inl e \<Rightarrow> (s, Some e)
      | Inr None \<Rightarrow> (s, None)
      | Inr (Some len) \<Rightarrow>
          (case process_frame cd hf cm now (take len (rd_inbound s))
                  (s\<lparr>rd_inbound := drop len (rd_inbound s), rd_last_activity := Some now,
                     rd_ping_outstanding := False\<rparr>) of
             (s2, Some e) \<Rightarrow> (s2, Some e)
           | (s2, None) \<Rightarrow>
               if short_read \<and> rd_inbound s2 \<noteq> [] then (s2, None)
               else handle_bytes_decode_loop cd hf cm short_read now s2))"
  by pat_completeness auto

termination
  by (relation "measure (\<lambda>(cd, hf, cm, short_read, now, s). length (rd_inbound s))")
    (auto dest!: peek_Some process_frame_inbound [OF sym])

declare handle_bytes_decode_loop.simps [simp del]

definition handle_bytes ::
    "('c, 'm, 'e) codec \<Rightarrow> ('c, 'm, 'e, 's) frame_handler \<Rightarrow> (crc \<Rightarrow> crc \<Rightarrow> 's \<Rightarrow> 's) \<Rightarrow> bool \<Rightarrow> instant \<Rightarrow>
     bytes \<Rightarrow> 's reader \<Rightarrow> 's reader \<times> frame_error option" where
  "handle_bytes cd hf cm short_read now chunk s =
     handle_bytes_decode_loop cd hf cm short_read now (s\<lparr>rd_inbound := rd_inbound s @ chunk\<rparr>)"

definition handle_bytes_owned ::
    "('c, 'm, 'e) codec \<Rightarrow> ('c, 'm, 'e, 's) frame_handler \<Rightarrow> (crc \<Rightarrow> crc \<Rightarrow> 's \<Rightarrow> 's) \<Rightarrow> bool \<Rightarrow> instant \<Rightarrow>
     bytes \<Rightarrow> 's reader \<Rightarrow> 's reader \<times> frame_error option" where
  "handle_bytes_owned cd hf cm short_read now chunk s =
     handle_bytes_decode_loop cd hf cm short_read now
       (if rd_inbound s = [] then s\<lparr>rd_inbound := chunk\<rparr>
        else s\<lparr>rd_inbound := rd_inbound s @ chunk\<rparr>)"

section \<open>The wire format\<close>

lemma and_then_simps [simp]:
  "and_then (Inl e) f = Inl e" "and_then (Inr x) f = f x"
  by (simp_all add: and_then_def)

lemma or_bad_length_simps [simp]:
  "or_bad_length (Some x) = Inr x" "or_bad_length None = Inl (BadLength U32_MAX)"
  by (simp_all add: or_bad_length_def)

text \<open>The documented layout of a command frame and of a payload frame.\<close>

definition wire_command :: "('c, 'm, 'e) codec \<Rightarrow> 'c \<Rightarrow> bytes" where
  "wire_command cd cmd =
     put_u32 (4 + length (enc_cmd cd cmd)) @ put_u32 (length (enc_cmd cd cmd)) @ enc_cmd cd cmd"

definition checksummed :: "('c, 'm, 'e) codec \<Rightarrow> 'm \<Rightarrow> bytes \<Rightarrow> bytes" where
  "checksummed cd meta pl = put_u32 (length (enc_meta cd meta)) @ enc_meta cd meta @ pl"

definition wire_payload :: "('c, 'm, 'e) codec \<Rightarrow> 'c \<Rightarrow> 'm \<Rightarrow> bytes \<Rightarrow> bytes" where
  "wire_payload cd cmd meta pl =
     put_u32 (14 + length (enc_cmd cd cmd) + length (enc_meta cd meta) + length pl) @
     put_u32 (length (enc_cmd cd cmd)) @ enc_cmd cd cmd @ put_u16 MAGIC_CRC32C @
     put_u32 (unat (crc32c cd (checksummed cd meta pl))) @ checksummed cd meta pl"

lemma payload_sizes_eq:
  "payload_sizes c m p =
     (if 14 + c + m + p \<le> U32_MAX then Inr (14 + c + m + p, c, m) else Inl (BadLength U32_MAX))"
  by (auto simp: payload_sizes_def header_content_size_def checked_add_def u32_try_from_def
      split: Option.bind_splits)

lemma backfill_slot:
  "length bs = length old \<Longrightarrow> backfill (length pre) bs (pre @ old @ post) = pre @ bs @ post"
  by (simp add: backfill_def)

lemma encode_payload_wire:
  assumes "codec_ok cd" and "length dst \<le> 9223372036854775807"
  shows "encode_payload cd dst cmd meta pl =
     (if 14 + length (enc_cmd cd cmd) + length (enc_meta cd meta) + length pl \<le> U32_MAX
      then Inr (dst @ wire_payload cd cmd meta pl) else Inl (BadLength U32_MAX))"
proof -
  have crc: "crc32c_append cd (crc32c cd (put_u32 n @ enc_meta cd meta)) pl =
      crc32c cd (put_u32 n @ enc_meta cd meta @ pl)" for n
    using assms(1) by (simp add: codec_ok_def)
  show ?thesis
    using assms(2)
    by (auto simp: encode_payload_def payload_sizes_eq pb_encode_def Let_def wire_payload_def
        checksummed_def crc [symmetric] backfill_def)
qed

text \<open>
  C29. The zero-copy encoder agrees with the copying one: for every command, metadata and payload,
  the head followed by the payload is byte for byte what \<open>encode_payload\<close> writes, and the two fail
  with the same error on the same inputs.
\<close>

theorem encode_head_matches_encode_payload:
  "encode_payload cd [] cmd meta pl = and_then (encode_payload_head cd cmd meta pl) (\<lambda>head. Inr (head @ pl))"
  by (auto simp: encode_payload_def encode_payload_head_def payload_sizes_eq pb_encode_def Let_def)

lemma encode_command_wire:
  assumes "length dst \<le> 9223372036854775807"
  shows "encode_command cd dst cmd =
     (if 4 + length (enc_cmd cd cmd) \<le> U32_MAX
      then Inr (dst @ wire_command cd cmd) else Inl (BadLength U32_MAX))"
  using assms
  by (auto simp: encode_command_def checked_add_def u32_try_from_def pb_encode_def Let_def wire_command_def)

section \<open>Round trips\<close>

lemma be_value_put_u32_append [simp]:
  "x \<le> U32_MAX \<Longrightarrow> be_value (take 4 (put_u32 x @ ys)) = x"
  "drop 4 (put_u32 x @ ys) = ys"
  by simp_all

lemma unat_crc: "unat (w :: crc) \<le> U32_MAX"
proof -
  have "unat w < 2 ^ LENGTH(32)" by (rule unsigned_less)
  then show ?thesis by simp
qed

lemma decode_payload_wire:
  assumes "codec_ok cd" and "length (enc_meta cd meta) \<le> U32_MAX"
  shows "decode_payload cd n
      (put_u16 MAGIC_CRC32C @ put_u32 (unat (crc32c cd (checksummed cd meta pl))) @ checksummed cd meta pl) =
    Inr \<lparr>broker_entry_metadata = None, metadata = meta, body = pl\<rparr>"
proof -
  note u = unat_crc
  have m: "be_value (put_u16 MAGIC_CRC32C) = MAGIC_CRC32C" by (simp add: MAGIC_CRC32C_def)
  show ?thesis
    using assms u
    by (simp add: decode_payload_def decode_bem_def m Let_def MAGIC_BROKER_ENTRY_METADATA_def
        MAGIC_CRC32C_def checksummed_def codec_ok_def)
qed

lemma decode_one_framed:
  "0 < length fb \<Longrightarrow> length fb \<le> MAX_FRAME_SIZE \<Longrightarrow>
     decode_one cd (put_u32 (length fb) @ fb @ rest) = (rest, decode_frame cd (length fb) fb)"
  by (simp add: decode_one_def MAX_FRAME_SIZE_def)

lemma peek_framed:
  "0 < length fb \<Longrightarrow> length fb \<le> MAX_FRAME_SIZE \<Longrightarrow>
     peek_full_frame_len (put_u32 (length fb) @ fb @ rest) = Inr (Some (4 + length fb))"
  by (simp add: peek_full_frame_len_def MAX_FRAME_SIZE_def)

text \<open>A message to put on the wire: a command, with metadata and payload when it is a send.\<close>

type_synonym ('c, 'm) outgoing = "'c \<times> ('m \<times> bytes) option"

fun wire_body :: "('c, 'm, 'e) codec \<Rightarrow> ('c, 'm) outgoing \<Rightarrow> bytes" where
  "wire_body cd (cmd, None) = drop 4 (wire_command cd cmd)"
| "wire_body cd (cmd, Some (meta, pl)) = drop 4 (wire_payload cd cmd meta pl)"

fun encode_out :: "('c, 'm, 'e) codec \<Rightarrow> bytes \<Rightarrow> ('c, 'm) outgoing \<Rightarrow> frame_error + bytes" where
  "encode_out cd dst (cmd, None) = encode_command cd dst cmd"
| "encode_out cd dst (cmd, Some (meta, pl)) = encode_payload cd dst cmd meta pl"

fun frame_of :: "('c, 'm) outgoing \<Rightarrow> ('c, 'm, 'e) frame" where
  "frame_of (cmd, None) = \<lparr>fr_command = cmd, fr_payload = None\<rparr>"
| "frame_of (cmd, Some (meta, pl)) =
     \<lparr>fr_command = cmd, fr_payload = Some \<lparr>broker_entry_metadata = None, metadata = meta, body = pl\<rparr>\<rparr>"

lemma encode_out_wire:
  assumes "codec_ok cd" and "length dst \<le> 9223372036854775807"
  shows "encode_out cd dst out =
    (if length (wire_body cd out) \<le> U32_MAX
     then Inr (dst @ put_u32 (length (wire_body cd out)) @ wire_body cd out) else Inl (BadLength U32_MAX))"
  by (cases "(cd, out)" rule: wire_body.cases)
    (auto simp: encode_command_wire [OF assms(2)] encode_payload_wire [OF assms] wire_command_def
      wire_payload_def checksummed_def add.assoc)

lemma wire_body_not_Nil [simp]: "wire_body cd out \<noteq> []"
  by (cases "(cd, out)" rule: wire_body.cases)
    (auto simp: wire_command_def wire_payload_def be_bytes_def)

lemma decode_frame_wire:
  assumes "codec_ok cd" and "length (wire_body cd out) \<le> U32_MAX"
  shows "decode_frame cd n (wire_body cd out) = Inr (frame_of out)"
proof (cases "(cd, out)" rule: wire_body.cases)
  case (1 cd' cmd)
  with assms show ?thesis
    by (auto simp: decode_frame_def wire_command_def codec_ok_def Let_def)
next
  case (2 cd' cmd meta pl)
  let ?p = "put_u16 MAGIC_CRC32C @ put_u32 (unat (crc32c cd (checksummed cd meta pl))) @ checksummed cd meta pl"
  have "?p \<noteq> []" by (simp add: be_bytes_def)
  moreover have "length (enc_meta cd meta) \<le> U32_MAX"
    using 2 assms(2) by (simp add: wire_payload_def checksummed_def)
  ultimately show ?thesis
    using 2 assms decode_payload_wire [OF assms(1), of meta n pl]
    by (simp add: decode_frame_def wire_payload_def codec_ok_def Let_def)
qed

text \<open>
  C26. Encoding and then decoding gives back the command, the metadata and the payload, for command
  frames and for payload frames: whatever follows the frame in the buffer is left there, and the
  front-of-stream check announces exactly the encoded length. Encoding itself succeeds whenever
  the frame is within the size limit that the decoder accepts.
\<close>

theorem encode_decode_roundtrip:
  fixes cd :: "('c, 'm, 'e) codec"
  assumes "codec_ok cd" and "length (wire_body cd out) \<le> MAX_FRAME_SIZE"
  shows "\<exists>bs. encode_out cd [] out = Inr bs \<and> peek_full_frame_len (bs @ rest) = Inr (Some (length bs)) \<and>
     decode_one cd (bs @ rest) = (rest, Inr (frame_of out))"
proof -
  have u: "length (wire_body cd out) \<le> U32_MAX" using assms(2) by (simp add: MAX_FRAME_SIZE_def)
  have "encode_out cd [] out = Inr (put_u32 (length (wire_body cd out)) @ wire_body cd out)"
    using encode_out_wire [OF assms(1), of "[]" out] u by simp
  moreover have "0 < length (wire_body cd out)" by simp
  ultimately show ?thesis
    using peek_framed [of "wire_body cd out" rest] decode_one_framed [of "wire_body cd out" cd rest]
      decode_frame_wire [OF assms(1) u] assms(2)
    by simp
qed

section \<open>Streams of frames\<close>

lemma peek_append:
  "peek_full_frame_len inb = Inr (Some n) \<Longrightarrow> peek_full_frame_len (inb @ x) = Inr (Some n)"
  "peek_full_frame_len inb = Inl e \<Longrightarrow> peek_full_frame_len (inb @ x) = Inl e"
  by (auto simp: peek_full_frame_len_def Let_def split: if_splits)

lemma process_frame_set_inbound:
  "process_frame cd hf cm now fb (s\<lparr>rd_inbound := i\<rparr>) =
     (let (s2, e) = process_frame cd hf cm now fb s in (s2\<lparr>rd_inbound := i\<rparr>, e))"
  by (auto simp: process_frame_def split: sum.splits frame_error.splits prod.splits)

lemma decode_loop_empty:
  "rd_inbound s = [] \<Longrightarrow> handle_bytes_decode_loop cd hf cm sr now s = (s, None)"
  by (simp add: handle_bytes_decode_loop.simps [of _ _ _ _ _ s] peek_full_frame_len_def)

text \<open>Bytes that arrive later do not change what the loop does with the frames already complete.\<close>

lemma decode_loop_append:
  "handle_bytes_decode_loop cd hf cm False now (s\<lparr>rd_inbound := rd_inbound s @ x\<rparr>) =
     (case handle_bytes_decode_loop cd hf cm False now s of
        (s', Some e) \<Rightarrow> (s'\<lparr>rd_inbound := rd_inbound s' @ x\<rparr>, Some e)
      | (s', None) \<Rightarrow> handle_bytes_decode_loop cd hf cm False now (s'\<lparr>rd_inbound := rd_inbound s' @ x\<rparr>))"
proof (induction "length (rd_inbound s)" arbitrary: s rule: less_induct)
  case less
  consider (err) e where "peek_full_frame_len (rd_inbound s) = Inl e"
    | (wait) "peek_full_frame_len (rd_inbound s) = Inr None"
    | (frame) n where "peek_full_frame_len (rd_inbound s) = Inr (Some n)"
    by (metis option.exhaust sum.exhaust)
  then show ?case
  proof cases
    case err
    then show ?thesis
      by (simp add: handle_bytes_decode_loop.simps [of _ _ _ _ _ s]
          handle_bytes_decode_loop.simps [of _ _ _ _ _ "s\<lparr>rd_inbound := rd_inbound s @ x\<rparr>"] peek_append)
  next
    case wait
    then show ?thesis by (simp add: handle_bytes_decode_loop.simps [of _ _ _ _ _ s])
  next
    case (frame n)
    define s1 where "s1 = s\<lparr>rd_inbound := drop n (rd_inbound s), rd_last_activity := Some now,
        rd_ping_outstanding := False\<rparr>"
    obtain s2 err where p: "process_frame cd hf cm now (take n (rd_inbound s)) s1 = (s2, err)"
      by fastforce
    have n: "4 < n" "n \<le> length (rd_inbound s)" using peek_Some [OF frame] by auto
    have i2: "rd_inbound s2 = drop n (rd_inbound s)"
      using process_frame_inbound [OF p] by (simp add: s1_def)
    have s1: "s\<lparr>rd_inbound := drop n (rd_inbound s) @ x, rd_last_activity := Some now,
        rd_ping_outstanding := False\<rparr> = s1\<lparr>rd_inbound := drop n (rd_inbound s) @ x\<rparr>"
      by (simp add: s1_def)
    have p': "process_frame cd hf cm now (take n (rd_inbound s))
        (s\<lparr>rd_inbound := drop n (rd_inbound s) @ x, rd_last_activity := Some now, rd_ping_outstanding := False\<rparr>)
        = (s2\<lparr>rd_inbound := rd_inbound s2 @ x\<rparr>, err)"
      unfolding s1 process_frame_set_inbound p by (simp add: i2)
    have "handle_bytes_decode_loop cd hf cm False now (s2\<lparr>rd_inbound := rd_inbound s2 @ x\<rparr>) =
     (case handle_bytes_decode_loop cd hf cm False now s2 of
        (s', Some e) \<Rightarrow> (s'\<lparr>rd_inbound := rd_inbound s' @ x\<rparr>, Some e)
      | (s', None) \<Rightarrow> handle_bytes_decode_loop cd hf cm False now (s'\<lparr>rd_inbound := rd_inbound s' @ x\<rparr>))"
      using less [of s2] n i2 by simp
    with frame n p p' show ?thesis
      by (simp add: handle_bytes_decode_loop.simps [of _ _ _ _ _ s] peek_append
          handle_bytes_decode_loop.simps [of _ _ _ _ _ "s\<lparr>rd_inbound := rd_inbound s @ x\<rparr>"]
          s1_def [symmetric] split: option.split)
  qed
qed

text \<open>The socket delivers the stream in chunks; the driver stops at the first error.\<close>

fun feed ::
    "('c, 'm, 'e) codec \<Rightarrow> ('c, 'm, 'e, 's) frame_handler \<Rightarrow> (crc \<Rightarrow> crc \<Rightarrow> 's \<Rightarrow> 's) \<Rightarrow> instant \<Rightarrow>
     bytes list \<Rightarrow> 's reader \<Rightarrow> 's reader \<times> frame_error option" where
  "feed cd hf cm now [] s = (s, None)"
| "feed cd hf cm now (c # cs) s =
     (case handle_bytes cd hf cm False now c s of
        (s', Some e) \<Rightarrow> (s', Some e)
      | (s', None) \<Rightarrow> feed cd hf cm now cs s')"

lemma handle_bytes_split:
  "handle_bytes cd hf cm False now (x @ y) s =
     (case handle_bytes cd hf cm False now x s of
        (s', Some e) \<Rightarrow> (s'\<lparr>rd_inbound := rd_inbound s' @ y\<rparr>, Some e)
      | (s', None) \<Rightarrow> handle_bytes cd hf cm False now y s')"
  using decode_loop_append [of cd hf cm now "s\<lparr>rd_inbound := rd_inbound s @ x\<rparr>" y]
  by (simp add: handle_bytes_def split: prod.splits option.splits)

lemma feed_concat:
  "\<exists>left. handle_bytes cd hf cm False now (concat (c # cs)) s =
     (case feed cd hf cm now (c # cs) s of
        (s', Some e) \<Rightarrow> (s'\<lparr>rd_inbound := rd_inbound s' @ left\<rparr>, Some e)
      | (s', None) \<Rightarrow> (s', None))"
proof (induction cs arbitrary: c s)
  case Nil
  show ?case by (rule exI [of _ "[]"]) (simp split: prod.splits option.splits)
next
  case (Cons d cs)
  obtain s' e where h: "handle_bytes cd hf cm False now c s = (s', e)" by fastforce
  show ?case
  proof (cases e)
    case None
    with Cons.IH [of d s'] h show ?thesis
      by (simp add: handle_bytes_split [of _ _ _ _ c])
  next
    case (Some e')
    with h show ?thesis
      by (intro exI [of _ "concat (d # cs)"]) (simp add: handle_bytes_split [of _ _ _ _ c])
  qed
qed

text \<open>
  C28. How the socket cuts the byte stream into reads does not matter: feeding the chunks one by one
  ends with the same error or success, the same connection state and the same keep-alive fields as
  feeding their concatenation at once; without an error the whole reader is the same.
\<close>

theorem read_segmentation_irrelevant:
  "let (s1, e1) = handle_bytes cd hf cm False now (concat (c # cs)) s;
       (s2, e2) = feed cd hf cm now (c # cs) s
   in e1 = e2 \<and>
      s1 = (case e2 of None \<Rightarrow> s2 | Some _ \<Rightarrow> s2\<lparr>rd_inbound := rd_inbound s1\<rparr>)"
proof -
  obtain s2 e2 where f: "feed cd hf cm now (c # cs) s = (s2, e2)" by fastforce
  then show ?thesis
    using feed_concat [of cd hf cm now c cs s] by (cases e2) (auto simp del: feed.simps concat.simps)
qed

text \<open>The frames handed to \<open>handle_frame\<close> one after the other, up to the first error.\<close>

fun dispatch_all ::
    "('c, 'm, 'e, 's) frame_handler \<Rightarrow> instant \<Rightarrow> ('c, 'm, 'e) frame list \<Rightarrow> 's \<Rightarrow> 's \<times> frame_error option" where
  "dispatch_all hf now [] c = (c, None)"
| "dispatch_all hf now (f # fs) c =
     (case hf now f c of (c', Some e) \<Rightarrow> (c', Some e) | (c', None) \<Rightarrow> dispatch_all hf now fs c')"

lemma decode_loop_frame:
  assumes "codec_ok cd" and "encode_out cd [] out = Inr bs" and "length bs \<le> MAX_FRAME_SIZE"
    and "rd_inbound s = bs @ rest"
  shows "handle_bytes_decode_loop cd hf cm False now s =
    (case hf now (frame_of out) (rd_conn s) of
       (c, Some e) \<Rightarrow> (s\<lparr>rd_inbound := rest, rd_last_activity := Some now, rd_ping_outstanding := False,
                       rd_conn := c\<rparr>, Some e)
     | (c, None) \<Rightarrow> handle_bytes_decode_loop cd hf cm False now
                    (s\<lparr>rd_inbound := rest, rd_last_activity := Some now, rd_ping_outstanding := False,
                       rd_conn := c\<rparr>))"
proof -
  let ?w = "wire_body cd out"
  have bs: "bs = put_u32 (length ?w) @ ?w" and u: "length ?w \<le> U32_MAX"
    using assms(2) encode_out_wire [OF assms(1), of "[]" out] by (auto split: if_splits)
  have w: "0 < length ?w" "length ?w \<le> MAX_FRAME_SIZE" using assms(3) by (auto simp: bs)
  have "peek_full_frame_len (rd_inbound s) = Inr (Some (length bs))"
    using peek_framed [OF w, of rest] by (simp add: assms(4) bs)
  moreover have "decode_one cd (take (length bs) (rd_inbound s)) = ([], Inr (frame_of out))"
    using decode_one_framed [OF w, of cd "[]"] decode_frame_wire [OF assms(1) u, of "length ?w"]
    by (simp add: assms(4) bs)
  ultimately show ?thesis
    using assms(4)
    by (simp add: handle_bytes_decode_loop.simps [of _ _ _ _ _ s] process_frame_def split: prod.split option.split)
qed

lemma decode_loop_frames:
  assumes "codec_ok cd"
  shows "list_all2 (\<lambda>out bs. encode_out cd [] out = Inr bs \<and> length bs \<le> MAX_FRAME_SIZE) outs bss \<Longrightarrow>
     rd_inbound s = concat bss \<Longrightarrow> dispatch_all hf now (map frame_of outs) (rd_conn s) = (c', None) \<Longrightarrow>
     outs \<noteq> [] \<Longrightarrow>
     handle_bytes_decode_loop cd hf cm False now s =
       (s\<lparr>rd_inbound := [], rd_last_activity := Some now, rd_ping_outstanding := False, rd_conn := c'\<rparr>, None)"
proof (induction outs arbitrary: bss s)
  case Nil
  then show ?case by simp
next
  case (Cons out outs)
  obtain bs bss' where b: "bss = bs # bss'" "encode_out cd [] out = Inr bs" "length bs \<le> MAX_FRAME_SIZE"
    and l: "list_all2 (\<lambda>out bs. encode_out cd [] out = Inr bs \<and> length bs \<le> MAX_FRAME_SIZE) outs bss'"
    using Cons.prems(1) by (auto simp: list_all2_Cons1)
  obtain c1 where c1: "hf now (frame_of out) (rd_conn s) = (c1, None)"
    and d: "dispatch_all hf now (map frame_of outs) c1 = (c', None)"
    using Cons.prems(3) by (auto split: prod.splits option.splits)
  let ?s1 = "s\<lparr>rd_inbound := concat bss', rd_last_activity := Some now, rd_ping_outstanding := False, rd_conn := c1\<rparr>"
  have step: "handle_bytes_decode_loop cd hf cm False now s = handle_bytes_decode_loop cd hf cm False now ?s1"
    using decode_loop_frame [OF assms b(2,3), of s "concat bss'" hf cm now] Cons.prems(2) b(1) c1 by simp
  show ?case
  proof (cases "outs = []")
    case True
    with l d step show ?thesis
      by (simp add: decode_loop_empty)
  next
    case False
    with Cons.IH [OF l, of ?s1] d step show ?thesis by simp
  qed
qed

text \<open>
  C27. End to end over the wire: the peer encodes any sequence of commands and messages within the
  frame limit, the socket cuts the bytes into arbitrary chunks, and the reader hands exactly these
  frames to \<open>handle_frame\<close>, in order and once each; nothing is left in the buffer, and the
  keep-alive baseline is the instant of the read.
\<close>

theorem wire_stream_delivered:
  assumes "codec_ok cd"
    and "list_all2 (\<lambda>out bs. encode_out cd [] out = Inr bs \<and> length bs \<le> MAX_FRAME_SIZE) outs bss"
    and "outs \<noteq> []" and "concat (c # cs) = concat bss" and "rd_inbound s = []"
    and "dispatch_all hf now (map frame_of outs) (rd_conn s) = (c', None)"
  shows "feed cd hf cm now (c # cs) s =
    (s\<lparr>rd_last_activity := Some now, rd_ping_outstanding := False, rd_conn := c'\<rparr>, None)"
proof -
  have "handle_bytes cd hf cm False now (concat (c # cs)) s =
    (s\<lparr>rd_inbound := [], rd_last_activity := Some now, rd_ping_outstanding := False, rd_conn := c'\<rparr>, None)"
    using decode_loop_frames [OF assms(1,2), of "s\<lparr>rd_inbound := concat (c # cs)\<rparr>"] assms(3-6)
    by (simp add: handle_bytes_def)
  moreover have "s\<lparr>rd_inbound := []\<rparr> = s" using assms(5) by simp
  ultimately show ?thesis
    using feed_concat [of cd hf cm now c cs s]
    by (cases "feed cd hf cm now (c # cs) s"; cases "snd (feed cd hf cm now (c # cs) s)")
      (auto simp del: feed.simps concat.simps)
qed

section \<open>Integrity\<close>

text \<open>The payload part of a decoded frame lies behind a checksum that was verified over all of it.\<close>

definition checked_region :: "('c, 'm, 'e) codec \<Rightarrow> bytes \<Rightarrow> ('m, 'e) payload \<Rightarrow> bool" where
  "checked_region cd fb p \<longleftrightarrow> (\<exists>pre crcb mlen mbytes.
     fb = pre @ crcb @ mlen @ mbytes @ body p \<and> length crcb = 4 \<and> length mlen = 4 \<and>
     word_of_nat (be_value crcb) = crc32c cd (mlen @ mbytes @ body p) \<and>
     be_value mlen = length mbytes \<and> dec_meta cd mbytes = Some (metadata p))"

lemma checked_region_prepend: "checked_region cd fb p \<Longrightarrow> checked_region cd (x @ fb) p"
  unfolding checked_region_def by (metis append.assoc)

lemma decode_bem_suffix:
  "decode_bem cd n fb = Inr (bem, magic, fb') \<Longrightarrow> \<exists>pre. fb = pre @ fb'"
proof -
  assume "decode_bem cd n fb = Inr (bem, magic, fb')"
  then have "fb' = fb \<or> (\<exists>k. fb' = drop k (drop 4 (drop 2 fb)))"
    by (auto simp: decode_bem_def Let_def split: if_splits option.splits)
  then show ?thesis
    by (metis append_Nil append_take_drop_id drop_drop)
qed

lemma decode_payload_checked:
  assumes "decode_payload cd n fb = Inr p"
  shows "checked_region cd fb p"
proof -
  obtain bem magic fb1 where b: "decode_bem cd n fb = Inr (bem, magic, fb1)"
    using assms by (cases "decode_bem cd n fb") (auto simp: decode_payload_def)
  define fb2 where "fb2 = drop 2 fb1"
  define fb3 where "fb3 = drop 4 (drop 4 fb2)"
  let ?k = "be_value (take 4 (drop 4 fb2))"
  have c: "8 \<le> length fb2" "crc32c cd (drop 4 fb2) = word_of_nat (be_value (take 4 fb2))"
      "?k \<le> length fb3" "dec_meta cd (take ?k fb3) = Some (metadata p)" "body p = drop ?k fb3"
    using assms b unfolding decode_payload_def fb2_def fb3_def
    by (auto simp: Let_def split: if_splits option.splits)
  have d4: "drop 4 fb2 = take 4 (drop 4 fb2) @ take ?k fb3 @ body p"
    by (metis append_take_drop_id c(5) fb3_def)
  have f2: "fb2 = take 4 fb2 @ take 4 (drop 4 fb2) @ take ?k fb3 @ body p"
    by (metis append_take_drop_id c(5) fb3_def)
  have "checked_region cd fb2 p"
    unfolding checked_region_def
  proof (intro exI conjI)
    show "fb2 = [] @ take 4 fb2 @ take 4 (drop 4 fb2) @ take ?k fb3 @ body p" using f2 by simp
    show "word_of_nat (be_value (take 4 fb2)) = crc32c cd (take 4 (drop 4 fb2) @ take ?k fb3 @ body p)"
      using c(2) d4 by simp
  qed (use c in \<open>auto simp: fb3_def\<close>)
  moreover obtain pre where "fb = pre @ fb1" using decode_bem_suffix [OF b] by auto
  moreover have "fb1 = take 2 fb1 @ fb2" by (simp add: fb2_def)
  ultimately show ?thesis by (metis checked_region_prepend)
qed

text \<open>
  C30. No unverified payload leaves the decoder: when \<open>decode_one\<close> returns a frame with a payload,
  the consumed bytes contain a checksum field followed by the length-prefixed metadata and the
  body it returns, the checksum of that whole region equals the field, and the metadata is the
  decoding of its bytes. What is not consumed stays in the buffer.
\<close>

theorem decoded_payload_is_checksummed:
  assumes "decode_one cd src = (rest, Inr f)" and "fr_payload f = Some p"
  shows "\<exists>fb. src = fb @ rest \<and> checked_region cd fb p"
proof -
  let ?n = "be_value (take 4 src)"
  let ?fb = "drop 4 (take (4 + ?n) src)"
  have r: "rest = drop (4 + ?n) src" and d: "decode_frame cd ?n ?fb = Inr f"
    using assms(1) by (auto simp: decode_one_def Let_def split: if_splits)
  let ?k = "be_value (take 4 ?fb)"
  have "checked_region cd (drop ?k (drop 4 ?fb)) p"
  proof -
    have "decode_payload cd ?n (drop ?k (drop 4 ?fb)) = Inr p"
      using d assms(2)
      by (cases "decode_payload cd ?n (drop ?k (drop 4 ?fb))")
        (auto simp: decode_frame_def Let_def split: if_splits option.splits)
    then show ?thesis by (rule decode_payload_checked)
  qed
  then have "checked_region cd (take (4 + ?n) src) p"
    by (metis append_take_drop_id checked_region_prepend)
  then show ?thesis using r by (metis append_take_drop_id)
qed

text \<open>
  C31. A corrupted message costs only itself: if the checksummed bytes of an encoded message are
  replaced by others of the same length whose checksum differs, the read loop drops this frame,
  reports the two checksums, and goes on with the bytes behind it as if the frame had not been
  there.
\<close>

theorem corrupt_frame_is_skipped:
  assumes "codec_ok cd" and "encode_payload cd [] cmd meta pl = Inr (head @ checksummed cd meta pl)"
    and "length (head @ checksummed cd meta pl) \<le> MAX_FRAME_SIZE"
    and "length bad = length (checksummed cd meta pl)"
    and "crc32c cd bad \<noteq> crc32c cd (checksummed cd meta pl)"
    and "rd_inbound s = head @ bad @ rest"
  shows "handle_bytes_decode_loop cd hf cm False now s =
    handle_bytes_decode_loop cd hf cm False now
      (s\<lparr>rd_inbound := rest, rd_last_activity := Some now, rd_ping_outstanding := False,
         rd_conn := cm (crc32c cd bad) (crc32c cd (checksummed cd meta pl)) (rd_conn s)\<rparr>)"
proof -
  let ?c = "enc_cmd cd cmd" and ?crc = "crc32c cd (checksummed cd meta pl)"
  let ?fb = "put_u32 (length ?c) @ ?c @ put_u16 MAGIC_CRC32C @ put_u32 (unat ?crc) @ bad"
  have h: "head = put_u32 (length ?fb) @ take (10 + length ?c) ?fb"
    using assms(2,4) encode_payload_wire [OF assms(1), of "[]" cmd meta pl]
    by (auto simp: wire_payload_def checksummed_def add.assoc split: if_splits)
  then have inb: "rd_inbound s = put_u32 (length ?fb) @ ?fb @ rest" using assms(6) by simp
  have len: "0 < length ?fb" "length ?fb \<le> MAX_FRAME_SIZE"
    using assms(3,4) h by auto
  then have lc: "length ?c \<le> U32_MAX" by (simp add: MAX_FRAME_SIZE_def)
  have m: "be_value (put_u16 MAGIC_CRC32C) = MAGIC_CRC32C" by (simp add: MAGIC_CRC32C_def)
  have b: "4 \<le> length bad" using assms(4) by (simp add: checksummed_def)
  have ne: "put_u16 MAGIC_CRC32C @ put_u32 (unat ?crc) @ bad \<noteq> []" by (simp add: be_bytes_def)
  have "decode_payload cd n (put_u16 MAGIC_CRC32C @ put_u32 (unat ?crc) @ bad) =
      Inl (ChecksumMismatch (crc32c cd bad) ?crc)" for n
    using assms(5) b
    by (simp add: decode_payload_def decode_bem_def m unat_crc Let_def MAGIC_BROKER_ENTRY_METADATA_def
        MAGIC_CRC32C_def)
  then have "decode_frame cd n ?fb = Inl (ChecksumMismatch (crc32c cd bad) ?crc)" for n
    using lc assms(1) ne by (simp add: decode_frame_def codec_ok_def Let_def)
  then have "decode_one cd (take (4 + length ?fb) (rd_inbound s)) =
      ([], Inl (ChecksumMismatch (crc32c cd bad) ?crc))"
    using decode_one_framed [OF len, of cd "[]"] by (simp add: inb)
  moreover have "peek_full_frame_len (rd_inbound s) = Inr (Some (4 + length ?fb))"
    using peek_framed [OF len, of rest] by (simp add: inb)
  moreover have "drop (4 + length ?fb) (rd_inbound s) = rest" by (simp add: inb)
  ultimately show ?thesis
    by (simp add: handle_bytes_decode_loop.simps [of _ _ _ _ _ s] process_frame_def del: append_assoc)
qed

section \<open>A concrete codec\<close>

text \<open>
  The parameters at a concrete value: messages that are their own encoding, and a polynomial
  checksum that is extended byte by byte, as CRC-32C is.
\<close>

definition poly_sum :: "crc \<Rightarrow> bytes \<Rightarrow> crc" where
  "poly_sum c bs = foldl (\<lambda>c b. c * 31 + ucast b) c bs"

definition raw_codec :: "(bytes, bytes, bytes) codec" where
  "raw_codec = \<lparr>enc_cmd = (\<lambda>x. x), dec_cmd = Some, enc_meta = (\<lambda>x. x), dec_meta = Some,
     enc_bem = (\<lambda>x. x), dec_bem = Some, crc32c_append = poly_sum\<rparr>"

lemma raw_codec_ok: "codec_ok raw_codec"
  by (simp add: codec_ok_def raw_codec_def poly_sum_def)

lemma raw_codec_sel [simp]:
  "enc_cmd raw_codec = (\<lambda>x. x)" "enc_meta raw_codec = (\<lambda>x. x)" "dec_meta raw_codec = Some"
  "crc32c_append raw_codec = poly_sum"
  by (simp_all add: raw_codec_def)

lemma poly_sum_values:
  "poly_sum 0 [0, 0, 0, 2, 7, 8, 9] = 66566" "poly_sum 0 [0, 0, 0, 2, 7, 8, 8] = 66565"
  by (simp_all add: poly_sum_def)

lemma put_u32_2: "put_u32 (Suc (Suc 0)) = [0, 0, 0, 2]"
  by (simp add: be_bytes_def upt_rec)

theorem encode_decode_roundtrip_witness:
  "\<exists>bs. encode_out raw_codec [] ([1, 2], Some ([7, 8], [9])) = Inr bs \<and>
     peek_full_frame_len (bs @ [5]) = Inr (Some (length bs)) \<and>
     decode_one raw_codec (bs @ [5]) = ([5], Inr (frame_of ([1, 2], Some ([7, 8], [9]))))"
  by (rule encode_decode_roundtrip [OF raw_codec_ok])
    (simp add: wire_payload_def checksummed_def MAX_FRAME_SIZE_def)

theorem wire_stream_delivered_witness:
  "\<exists>bs. encode_out raw_codec [] ([1, 2], Some ([7, 8], [9])) = Inr bs \<and>
     feed raw_codec (\<lambda>now f c. (c @ [f], None)) (\<lambda>_ _ c. c) 40 [take 3 bs, drop 3 bs]
       \<lparr>rd_inbound = [], rd_last_activity = None, rd_ping_outstanding = True, rd_conn = []\<rparr> =
     (\<lparr>rd_inbound = [], rd_last_activity = Some 40, rd_ping_outstanding = False,
       rd_conn = [frame_of ([1, 2], Some ([7, 8], [9]))]\<rparr>, None)"
proof -
  let ?out = "([1, 2], Some ([7, 8], [9])) :: (bytes, bytes) outgoing"
  obtain bs where bs: "encode_out raw_codec [] ?out = Inr bs" "length bs \<le> MAX_FRAME_SIZE"
    using encode_out_wire [OF raw_codec_ok, of "[]" ?out]
    by (auto simp: wire_payload_def checksummed_def MAX_FRAME_SIZE_def)
  show ?thesis
    using wire_stream_delivered [OF raw_codec_ok, of "[?out]" "[bs]" "take 3 bs" "[drop 3 bs]"
        "\<lparr>rd_inbound = [], rd_last_activity = None, rd_ping_outstanding = True, rd_conn = []\<rparr>"
        "\<lambda>now f c. (c @ [f], None)" 40 _ "\<lambda>_ _ c. c"] bs
    by (intro exI [of _ bs]) simp
qed

theorem decoded_payload_is_checksummed_witness:
  "\<exists>bs. encode_out raw_codec [] ([1, 2], Some ([7, 8], [9])) = Inr bs \<and>
     (\<exists>fb. bs = fb @ [] \<and>
       checked_region raw_codec fb \<lparr>broker_entry_metadata = None, metadata = [7, 8], body = [9]\<rparr>)"
proof -
  let ?out = "([1, 2], Some ([7, 8], [9])) :: (bytes, bytes) outgoing"
  have w: "wire_body raw_codec ?out \<noteq> []" "length (wire_body raw_codec ?out) \<le> MAX_FRAME_SIZE"
      "length (wire_body raw_codec ?out) \<le> U32_MAX"
    by (simp_all add: wire_payload_def checksummed_def MAX_FRAME_SIZE_def)
  then have "decode_one raw_codec (put_u32 (length (wire_body raw_codec ?out)) @ wire_body raw_codec ?out) =
      ([], Inr (frame_of ?out))"
    using decode_one_framed [of "wire_body raw_codec ?out" raw_codec "[]"]
      decode_frame_wire [OF raw_codec_ok w(3)] by simp
  from decoded_payload_is_checksummed [OF this] show ?thesis
    using encode_out_wire [OF raw_codec_ok, of "[]" ?out] w by simp
qed

theorem corrupt_frame_is_skipped_witness:
  "\<exists>head. encode_payload raw_codec [] [1, 2] [7, 8] [9] = Inr (head @ checksummed raw_codec [7, 8] [9]) \<and>
     handle_bytes_decode_loop raw_codec (\<lambda>now f c. (c, None)) (\<lambda>a b c. c @ [(a, b)]) False 40
       \<lparr>rd_inbound = head @ [0, 0, 0, 2, 7, 8, 8] @ [], rd_last_activity = None,
        rd_ping_outstanding = True, rd_conn = []\<rparr> =
     (\<lparr>rd_inbound = [], rd_last_activity = Some 40, rd_ping_outstanding = False,
       rd_conn = [(66565, 66566)]\<rparr>, None)"
proof -
  have cs: "checksummed raw_codec [7, 8] [9] = [0, 0, 0, 2, 7, 8, 9]"
    by (simp add: checksummed_def put_u32_2)
  obtain head where h: "encode_payload raw_codec [] [1, 2] [7, 8] [9] =
      Inr (head @ checksummed raw_codec [7, 8] [9])" "length head = 16"
    using encode_payload_wire [OF raw_codec_ok, of "[]" "[1, 2]" "[7, 8]" "[9]"]
    by (simp add: wire_payload_def)
  show ?thesis
    using corrupt_frame_is_skipped [OF raw_codec_ok h(1), of "[0, 0, 0, 2, 7, 8, 8]"
        "\<lparr>rd_inbound = head @ [0, 0, 0, 2, 7, 8, 8] @ [], rd_last_activity = None,
          rd_ping_outstanding = True, rd_conn = []\<rparr>" "[]"
        "\<lambda>now f c. (c, None)" "\<lambda>a b c. c @ [(a, b)]" 40] h cs poly_sum_values
    by (intro exI [of _ head]) (simp add: MAX_FRAME_SIZE_def decode_loop_empty)
qed

end
