(* ===== verification/Compression.thy ===== *)
theory Compression
  imports Wire_Frame
begin

text \<open>
  Payload compression, \<open>crates/magnetar-proto/src/compress.rs\<close>: the checks around the four codecs.
  The codec libraries (lz4, zlib, zstd, snappy) are the parameter \<open>codecs\<close>; \<open>codecs_ok\<close> names what
  their documentation promises and the round trip relies on. A streaming decoder is the list of
  results its reads give.
\<close>

section \<open>Codecs\<close>

datatype read_event = Chunk bytes | ReadError

record codecs =
  lz4_compress :: "bytes \<Rightarrow> bytes"
  lz4_decompress_into :: "bytes \<Rightarrow> nat \<Rightarrow> bytes option"
  lz4_decompress :: "bytes \<Rightarrow> nat \<Rightarrow> bytes option"
  zlib_encode :: "bytes \<Rightarrow> bytes option"
  zlib_reads :: "bytes \<Rightarrow> read_event list"
  zstd_encode_all :: "bytes \<Rightarrow> bytes option"
  zstd_decompress_to_buffer :: "nat \<Rightarrow> bytes \<Rightarrow> nat \<Rightarrow> bytes option"
  zstd_reads :: "bytes \<Rightarrow> read_event list option"
  snap_compress_vec :: "bytes \<Rightarrow> bytes option"
  snap_decompress_len :: "bytes \<Rightarrow> nat option"
  snap_decompress :: "bytes \<Rightarrow> nat \<Rightarrow> bytes option"
  snap_decompress_vec :: "bytes \<Rightarrow> bytes option"

datatype compression_error =
    Lz4Error
  | ZlibError
  | ZstdError
  | SnappyError
  | SizeMismatch nat nat
  | UncompressedSizeTooLarge nat nat

definition DECOMPRESSION_VALIDATION_SLACK :: nat where "DECOMPRESSION_VALIDATION_SLACK = 1"
definition ZSTD_MIN_WINDOW_SIZE :: nat where "ZSTD_MIN_WINDOW_SIZE = 1024"
definition LZ4_MAX_INFLATE_RATIO :: nat where "LZ4_MAX_INFLATE_RATIO = 255"

definition ok_or :: "'e \<Rightarrow> 'a option \<Rightarrow> 'e + 'a" where
  "ok_or e x = (case x of Some v \<Rightarrow> Inr v | None \<Rightarrow> Inl e)"

section \<open>Helpers\<close>

text \<open>
  \<open>read_bounded\<close> and \<open>read_within\<close>: read until the buffer of \<open>room\<close> bytes is full, a read gives
  nothing, or a read fails.
\<close>

fun read_up_to :: "read_event list \<Rightarrow> nat \<Rightarrow> bytes option" where
  "read_up_to es 0 = Some []"
| "read_up_to [] (Suc room) = Some []"
| "read_up_to (ReadError # es) (Suc room) = None"
| "read_up_to (Chunk b # es) (Suc room) =
     (if b = [] then Some []
      else let got = take (Suc room) b
           in map_option (\<lambda>r. got @ r) (read_up_to es (Suc room - length got)))"

fun bit_length :: "nat \<Rightarrow> nat" where
  "bit_length n = (if n = 0 then 0 else Suc (bit_length (n div 2)))"

declare bit_length.simps [simp del]

definition next_power_of_two :: "nat \<Rightarrow> nat" where
  "next_power_of_two n = (if n \<le> 1 then 1 else 2 ^ bit_length (n - 1))"

text \<open>\<open>usize::BITS - window.leading_zeros() - 1\<close> is the bit length less one.\<close>

definition zstd_window_log :: "nat \<Rightarrow> nat" where
  "zstd_window_log n = bit_length (next_power_of_two (max n ZSTD_MIN_WINDOW_SIZE)) - 1"

definition ensure_within :: "nat \<Rightarrow> nat \<Rightarrow> compression_error + unit" where
  "ensure_within got ceiling = (if got > ceiling then Inl (UncompressedSizeTooLarge got ceiling) else Inr ())"

definition verify_size :: "bytes \<Rightarrow> nat \<Rightarrow> compression_error + unit" where
  "verify_size buf n = (if length buf \<noteq> n then Inl (SizeMismatch (length buf) n) else Inr ())"

section \<open>Compressing and decompressing\<close>

definition compress :: "codecs \<Rightarrow> compression_kind \<Rightarrow> bytes \<Rightarrow> compression_error + bytes" where
  "compress cd kind plain =
     (case kind of
        CkNone \<Rightarrow> Inr plain
      | CkLz4 \<Rightarrow> Inr (lz4_compress cd plain)
      | CkZlib \<Rightarrow> ok_or ZlibError (zlib_encode cd plain)
      | CkZstd \<Rightarrow> ok_or ZstdError (zstd_encode_all cd plain)
      | CkSnappy \<Rightarrow> ok_or SnappyError (snap_compress_vec cd plain))"

definition decompress :: "codecs \<Rightarrow> compression_kind \<Rightarrow> bytes \<Rightarrow> nat \<Rightarrow> compression_error + bytes" where
  "decompress cd kind ciphertext n =
     (if n > MAX_FRAME_SIZE then Inl (UncompressedSizeTooLarge n MAX_FRAME_SIZE)
      else case checked_add USIZE_MAX n DECOMPRESSION_VALIDATION_SLACK of
        None \<Rightarrow> Inl (UncompressedSizeTooLarge USIZE_MAX MAX_FRAME_SIZE)
      | Some validation_len \<Rightarrow>
          (case kind of
             CkNone \<Rightarrow> Inr ciphertext
           | CkLz4 \<Rightarrow> and_then (ok_or Lz4Error (lz4_decompress_into cd ciphertext validation_len)) (\<lambda>out.
               and_then (verify_size out n) (\<lambda>_. Inr out))
           | CkZlib \<Rightarrow> and_then (ok_or ZlibError (read_up_to (zlib_reads cd ciphertext) validation_len)) (\<lambda>out.
               and_then (verify_size out n) (\<lambda>_. Inr out))
           | CkZstd \<Rightarrow> and_then (ok_or ZstdError
                 (zstd_decompress_to_buffer cd (zstd_window_log n) ciphertext validation_len)) (\<lambda>out.
               and_then (verify_size out n) (\<lambda>_. Inr out))
           | CkSnappy \<Rightarrow> and_then (ok_or SnappyError (snap_decompress_len cd ciphertext)) (\<lambda>announced.
               if announced > MAX_FRAME_SIZE then Inl (UncompressedSizeTooLarge announced MAX_FRAME_SIZE)
               else if announced \<noteq> n then Inl (SizeMismatch announced n)
               else and_then (ok_or SnappyError (snap_decompress cd ciphertext n)) (\<lambda>out.
                 and_then (verify_size out n) (\<lambda>_. Inr out)))))"

definition decompress_within :: "codecs \<Rightarrow> compression_kind \<Rightarrow> bytes \<Rightarrow> nat \<Rightarrow> compression_error + bytes" where
  "decompress_within cd kind ciphertext limit =
     (let limit = min limit MAX_FRAME_SIZE in
      and_then
        (case kind of
           CkNone \<Rightarrow> Inr ciphertext
         | CkLz4 \<Rightarrow> ok_or Lz4Error (lz4_decompress cd ciphertext
             (min limit (sat_mul USIZE_MAX (length ciphertext) LZ4_MAX_INFLATE_RATIO)))
         | CkZlib \<Rightarrow> ok_or ZlibError (read_up_to (zlib_reads cd ciphertext) (sat_add USIZE_MAX limit 1))
         | CkZstd \<Rightarrow> ok_or ZstdError (case zstd_reads cd ciphertext of
             None \<Rightarrow> None | Some es \<Rightarrow> read_up_to es (sat_add USIZE_MAX limit 1))
         | CkSnappy \<Rightarrow> and_then (ok_or SnappyError (snap_decompress_len cd ciphertext)) (\<lambda>announced.
             and_then (ensure_within announced limit) (\<lambda>_.
               ok_or SnappyError (snap_decompress_vec cd ciphertext))))
        (\<lambda>out. and_then (ensure_within (length out) limit) (\<lambda>_. Inr out)))"

lemmas compression_defs [op_defs] = compress_def decompress_def decompress_within_def

section \<open>What the codecs promise\<close>

definition reads_data :: "read_event list \<Rightarrow> bytes \<Rightarrow> bool" where
  "reads_data es x \<longleftrightarrow> (\<exists>bs. es = map Chunk bs \<and> [] \<notin> set bs \<and> concat bs = x)"

text \<open>Decoding what the same library encoded gives back the input, given a buffer that holds it.\<close>

definition codecs_ok :: "codecs \<Rightarrow> bool" where
  "codecs_ok cd \<longleftrightarrow>
     (\<forall>x n. length x \<le> n \<longrightarrow> lz4_decompress_into cd (lz4_compress cd x) n = Some x) \<and>
     (\<forall>x y. zlib_encode cd x = Some y \<longrightarrow> reads_data (zlib_reads cd y) x) \<and>
     (\<forall>x y n w. zstd_encode_all cd x = Some y \<and> length x \<le> n \<and> length x \<le> 2 ^ w \<longrightarrow>
        zstd_decompress_to_buffer cd w y n = Some x) \<and>
     (\<forall>x y. snap_compress_vec cd x = Some y \<longrightarrow> snap_decompress_len cd y = Some (length x) \<and>
        (\<forall>n\<ge>length x. snap_decompress cd y n = Some x))"

lemma read_up_to_data:
  assumes "reads_data es x" and "length x \<le> room"
  shows "read_up_to es room = Some x"
proof -
  obtain bs where bs: "es = map Chunk bs" "[] \<notin> set bs" "concat bs = x"
    using assms(1) by (auto simp: reads_data_def)
  have "[] \<notin> set bs \<Longrightarrow> length (concat bs) \<le> room \<Longrightarrow> read_up_to (map Chunk bs) room = Some (concat bs)" for bs room
  proof (induction bs arbitrary: room)
    case Nil
    then show ?case by (cases room) simp_all
  next
    case (Cons b bs)
    then obtain r where "room = Suc r" by (cases room) (cases b, auto)
    then show ?case using Cons by (cases b) simp_all
  qed
  then show ?thesis using bs assms(2) by blast
qed

lemma bit_length_bound: "n < 2 ^ bit_length n"
proof (induction n rule: bit_length.induct)
  case (1 n)
  show ?case
  proof (cases "n = 0")
    case False
    then have "n div 2 < 2 ^ bit_length (n div 2)" by (rule 1)
    then have "n < 2 * 2 ^ bit_length (n div 2)" by linarith
    then show ?thesis using False by (simp add: bit_length.simps [of n])
  qed simp
qed

lemma bit_length_power: "bit_length (2 ^ k) = Suc k"
  by (induction k) (simp_all add: bit_length.simps)

lemma window_holds: "n \<le> 2 ^ zstd_window_log n"
proof -
  let ?m = "max n ZSTD_MIN_WINDOW_SIZE"
  have m: "1 < ?m" by (simp add: ZSTD_MIN_WINDOW_SIZE_def)
  then have "next_power_of_two ?m = 2 ^ bit_length (?m - 1)" unfolding next_power_of_two_def by (simp only: not_le [symmetric] if_False)
  then have "2 ^ zstd_window_log n = (2 :: nat) ^ bit_length (?m - 1)"
    by (simp add: zstd_window_log_def bit_length_power)
  moreover have "?m - 1 < 2 ^ bit_length (?m - 1)" by (rule bit_length_bound)
  ultimately show ?thesis using m by linarith
qed

section \<open>Properties\<close>

lemma ok_or_Inr [simp]: "ok_or e x = Inr v \<longleftrightarrow> x = Some v"
  by (simp add: ok_or_def split: option.split)

lemma and_then_Inr [simp]: "and_then r f = Inr v \<longleftrightarrow> (\<exists>x. r = Inr x \<and> f x = Inr v)"
  by (cases r) (simp_all add: and_then_def)

lemma verify_size_Inr [simp]: "verify_size b n = Inr u \<longleftrightarrow> length b = n"
  by (simp add: verify_size_def)

lemma ensure_within_Inr [simp]: "ensure_within a b = Inr u \<longleftrightarrow> a \<le> b"
  by (simp add: ensure_within_def)

lemma decompress_size:
  "decompress cd kind c n = Inr out \<Longrightarrow> n \<le> MAX_FRAME_SIZE \<and> (kind \<noteq> CkNone \<longrightarrow> length out = n)"
  by (cases kind) (auto simp: decompress_def split: if_splits option.splits)

lemma decompress_within_size:
  "decompress_within cd kind c limit = Inr out \<Longrightarrow> length out \<le> limit \<and> length out \<le> MAX_FRAME_SIZE"
  by (simp add: decompress_within_def Let_def)

text \<open>
  Whatever the codecs return and whatever size the broker advertised, a payload that
  \<open>decompress\<close> hands out has exactly the advertised size and at most the frame limit (the pass-through
  kind aside), and \<open>decompress_within\<close> never hands out more than its budget and the frame limit.
\<close>

theorem decompressed_size_bounded:
  assumes "decompress cd kind c n = Inr out" and "decompress_within cd kind' c' limit = Inr out'"
  shows "n \<le> MAX_FRAME_SIZE \<and> (kind \<noteq> CkNone \<longrightarrow> length out = n) \<and>
    length out' \<le> min limit MAX_FRAME_SIZE"
  using decompress_size [OF assms(1)] decompress_within_size [OF assms(2)] by simp

text \<open>
  Decompressing what was compressed with the same codec and the true size gives back the
  payload, for every kind and every payload within the frame limit.
\<close>

lemma compress_roundtrip:
  assumes "codecs_ok cd" and "length x \<le> MAX_FRAME_SIZE" and "compress cd kind x = Inr c"
  shows "decompress cd kind c (length x) = Inr x"
proof -
  have "length x + DECOMPRESSION_VALIDATION_SLACK \<le> USIZE_MAX"
    using assms(2) by (simp add: MAX_FRAME_SIZE_def DECOMPRESSION_VALIDATION_SLACK_def)
  then have v: "checked_add USIZE_MAX (length x) DECOMPRESSION_VALIDATION_SLACK = Some (length x + 1)"
    by (simp add: checked_add_def DECOMPRESSION_VALIDATION_SLACK_def)
  have fin: "and_then (ok_or e (Some x)) (\<lambda>out. and_then (verify_size out (length x)) (\<lambda>_. Inr out)) = Inr x" for e
    by (simp add: ok_or_def and_then_def verify_size_def)
  show ?thesis
  proof (cases kind)
    case CkNone
    then show ?thesis using assms v by (simp add: compress_def decompress_def)
  next
    case CkLz4
    then have "lz4_decompress_into cd c (length x + 1) = Some x"
      using assms by (auto simp: compress_def codecs_ok_def)
    then show ?thesis using CkLz4 assms(2) v fin by (simp add: decompress_def)
  next
    case CkZlib
    then have "reads_data (zlib_reads cd c) x" using assms by (simp add: compress_def codecs_ok_def)
    then have "read_up_to (zlib_reads cd c) (length x + 1) = Some x" by (rule read_up_to_data) simp
    then show ?thesis using CkZlib assms(2) v fin by (simp add: decompress_def)
  next
    case CkZstd
    then have "zstd_decompress_to_buffer cd (zstd_window_log (length x)) c (length x + 1) = Some x"
      using assms window_holds [of "length x"] by (simp add: compress_def codecs_ok_def)
    then show ?thesis using CkZstd assms(2) v fin by (simp add: decompress_def)
  next
    case CkSnappy
    then have "snap_decompress_len cd c = Some (length x)" "snap_decompress cd c (length x) = Some x"
      using assms by (simp_all add: compress_def codecs_ok_def)
    then show ?thesis using CkSnappy assms(2) v fin by (simp add: decompress_def)
  qed
qed

section \<open>Examples\<close>

text \<open>Codecs that store their input behind a tag byte.\<close>

definition stored :: codecs where
  "stored = \<lparr>
     lz4_compress = Cons 1,
     lz4_decompress_into = (\<lambda>c n. if c \<noteq> [] \<and> length c - 1 \<le> n then Some (tl c) else None),
     lz4_decompress = (\<lambda>c n. if c \<noteq> [] \<and> length c - 1 \<le> n then Some (tl c) else None),
     zlib_encode = (\<lambda>x. Some (2 # x)),
     zlib_reads = (\<lambda>c. if c = [] then [ReadError] else map (\<lambda>b. Chunk [b]) (tl c)),
     zstd_encode_all = (\<lambda>x. Some (3 # x)),
     zstd_decompress_to_buffer = (\<lambda>w c n. if c \<noteq> [] \<and> length c - 1 \<le> n then Some (tl c) else None),
     zstd_reads = (\<lambda>c. if c = [] then None else Some (map (\<lambda>b. Chunk [b]) (tl c))),
     snap_compress_vec = (\<lambda>x. Some (4 # x)),
     snap_decompress_len = (\<lambda>c. if c = [] then None else Some (length c - 1)),
     snap_decompress = (\<lambda>c n. if c \<noteq> [] \<and> length c - 1 \<le> n then Some (tl c) else None),
     snap_decompress_vec = (\<lambda>c. if c = [] then None else Some (tl c))\<rparr>"

lemma stored_ok: "codecs_ok stored"
proof -
  have "reads_data (map (\<lambda>b. Chunk [b]) x) x" for x
    unfolding reads_data_def by (rule exI [of _ "map (\<lambda>b. [b]) x"]) (auto simp: comp_def)
  then show ?thesis by (simp add: codecs_ok_def stored_def)
qed

end
