(* ===== verification/Batch_Ack.thy ===== *)
theory Batch_Ack
  imports Msg_Types
begin

text \<open>
  Batch-index acknowledgement, the type \<open>BatchAckEntry\<close> of \<open>crates/magnetar-proto/src/consumer.rs\<close>
  and the ack path of \<open>crates/magnetar-proto/src/conn.rs\<close> that uses it: per batched entry a bitset of
  the positions that are still unacknowledged, packed into u64 words. The second part shows that
  every operation on the words is the corresponding operation on the set of positions.
\<close>

unbundle bit_operations_syntax

section \<open>The bitset\<close>

record batch_ack_entry =
  ba_batch_size :: int
  ba_unacked :: "64 word list"

definition ba_fresh :: "int \<Rightarrow> batch_ack_entry" where
  "ba_fresh bsize =
     (let sz = nat (max bsize 0); n_words = div_ceil sz 64 in
      \<lparr>ba_batch_size = bsize,
       ba_unacked = fold (\<lambda>i ws. ws[i div 64 := (ws ! (i div 64)) OR push_bit (i mod 64) 1]) [0..<sz]
                      (replicate n_words 0)\<rparr>)"

text \<open>\<open>Vec::resize(n, 0)\<close> on a vector of at most \<open>n\<close> words, and the mask of the last word.\<close>

definition mask_last :: "nat \<Rightarrow> 64 word list \<Rightarrow> 64 word list" where
  "mask_last sz ws =
     (if ws \<noteq> [] \<and> sz mod 64 \<noteq> 0
      then ws[length ws - 1 := (ws ! (length ws - 1)) AND (push_bit (sz mod 64) 1 - 1)] else ws)"

definition ba_from_ack_set :: "int \<Rightarrow> int list \<Rightarrow> batch_ack_entry" where
  "ba_from_ack_set bsize ack_set =
     (if ack_set = [] then ba_fresh bsize
      else let sz = nat (max bsize 0); n = div_ceil sz 64;
               unacked = map word_of_int (take n ack_set);
               unacked = unacked @ replicate (n - length unacked) 0
           in \<lparr>ba_batch_size = bsize, ba_unacked = mask_last sz unacked\<rparr>)"

definition ba_clear :: "int \<Rightarrow> batch_ack_entry \<Rightarrow> batch_ack_entry" where
  "ba_clear position e =
     (if position < 0 \<or> ba_batch_size e \<le> position then e
      else let p = nat position in
        case list_get (ba_unacked e) (p div 64) of
          Some w \<Rightarrow> e\<lparr>ba_unacked := (ba_unacked e)[p div 64 := w AND NOT (push_bit (p mod 64) 1)]\<rparr>
        | None \<Rightarrow> e)"

definition ba_clear_before :: "int \<Rightarrow> batch_ack_entry \<Rightarrow> batch_ack_entry" where
  "ba_clear_before position e =
     fold (\<lambda>i. ba_clear (int i)) [0..<nat (max (min position (ba_batch_size e)) 0)] e"

definition ba_seek_from_ack_set :: "int \<Rightarrow> int \<Rightarrow> int list \<Rightarrow> batch_ack_entry" where
  "ba_seek_from_ack_set bsize position ack_set =
     ba_clear_before (max position 0) (ba_from_ack_set bsize ack_set)"

definition ba_seek_from :: "int \<Rightarrow> int \<Rightarrow> batch_ack_entry" where
  "ba_seek_from bsize position = ba_clear_before (max position 0) (ba_fresh bsize)"

text \<open>Both loops run over the words with their index; a missing word counts as \<open>u64::MAX\<close>.\<close>

definition and_words :: "64 word list \<Rightarrow> 64 word list \<Rightarrow> 64 word list" where
  "and_words ws ds =
     map (\<lambda>(i, w). w AND (case list_get ds i of Some d \<Rightarrow> d | None \<Rightarrow> word_of_nat U64_MAX)) (enumerate 0 ws)"

definition ba_from_delivered_ack_set :: "int \<Rightarrow> int list \<Rightarrow> batch_ack_entry" where
  "ba_from_delivered_ack_set bsize ack_set =
     (let e = ba_fresh bsize in e\<lparr>ba_unacked := and_words (ba_unacked e) (map word_of_int ack_set)\<rparr>)"

definition ba_intersect_delivered :: "batch_ack_entry \<Rightarrow> batch_ack_entry \<Rightarrow> batch_ack_entry" where
  "ba_intersect_delivered delivered e = e\<lparr>ba_unacked := and_words (ba_unacked e) (ba_unacked delivered)\<rparr>"

definition ba_is_unacked :: "batch_ack_entry \<Rightarrow> int \<Rightarrow> bool" where
  "ba_is_unacked e position =
     (let p = (if position < 0 then USIZE_MAX else nat position) in
      case list_get (ba_unacked e) (p div 64) of
        Some w \<Rightarrow> (w AND push_bit (p mod 64) 1) \<noteq> 0
      | None \<Rightarrow> False)"

definition ba_is_fully_acked :: "batch_ack_entry \<Rightarrow> bool" where
  "ba_is_fully_acked e \<longleftrightarrow> list_all (\<lambda>w. w = 0) (ba_unacked e)"

definition ba_ack_position :: "int \<Rightarrow> batch_ack_entry \<Rightarrow> batch_ack_entry \<times> bool" where
  "ba_ack_position position e = (let e = ba_clear position e in (e, ba_is_fully_acked e))"

definition ba_ack_cumulative :: "int \<Rightarrow> batch_ack_entry \<Rightarrow> batch_ack_entry \<times> bool" where
  "ba_ack_cumulative position e =
     (let e = ba_clear_before (min (position + 1) I32_MAX) e in (e, ba_is_fully_acked e))"

text \<open>\<open>u64::count_ones\<close>\<close>

definition count_ones :: "64 word \<Rightarrow> nat" where
  "count_ones w = length (filter (bit w) [0..<64])"

definition ba_unacked_count :: "batch_ack_entry \<Rightarrow> nat" where
  "ba_unacked_count e = foldl (\<lambda>c w. sat_add U32_MAX c (count_ones w)) 0 (ba_unacked e)"

definition ba_ack_set_i64 :: "batch_ack_entry \<Rightarrow> int list" where
  "ba_ack_set_i64 e = map sint (ba_unacked e)"

lemmas ba_defs [op_defs] = ba_fresh_def ba_from_ack_set_def ba_clear_def ba_clear_before_def
  ba_seek_from_ack_set_def ba_seek_from_def ba_from_delivered_ack_set_def ba_intersect_delivered_def
  ba_is_unacked_def ba_is_fully_acked_def ba_ack_position_def ba_ack_cumulative_def
  ba_unacked_count_def ba_ack_set_i64_def

section \<open>Positions\<close>

text \<open>
  A well-formed entry has one word per 64 positions, rounded up, and no bit set past the batch.
\<close>

definition ba_words :: "batch_ack_entry \<Rightarrow> nat" where
  "ba_words e = div_ceil (nat (max (ba_batch_size e) 0)) 64"

definition wbit :: "64 word list \<Rightarrow> nat \<Rightarrow> bool" where
  "wbit ws p \<longleftrightarrow> p div 64 < length ws \<and> bit (ws ! (p div 64)) (p mod 64)"

definition ba_wf :: "batch_ack_entry \<Rightarrow> bool" where
  "ba_wf e \<longleftrightarrow> length (ba_unacked e) = ba_words e \<and>
     (\<forall>p. wbit (ba_unacked e) p \<longrightarrow> int p < ba_batch_size e) \<and> ba_batch_size e \<le> I32_MAX"

definition unacked :: "batch_ack_entry \<Rightarrow> nat set" where
  "unacked e = {p. wbit (ba_unacked e) p}"

lemma wbit_update:
  "q div 64 < length ws \<Longrightarrow> wbit (ws[q div 64 := w]) p \<longleftrightarrow>
     (if p div 64 = q div 64 then bit w (p mod 64) else wbit ws p)"
  by (auto simp: wbit_def nth_list_update)

lemma div_mod_64_eq: "p div 64 = q div 64 \<Longrightarrow> p mod 64 = q mod 64 \<Longrightarrow> p = (q :: nat)"
  by (metis div_mult_mod_eq)

lemma bit_set_push: "bit ((w :: 64 word) OR push_bit k 1) n \<longleftrightarrow> bit w n \<or> (n = k \<and> n < 64)"
  by (auto simp: bit_simps)

lemma bit_clear_push: "n < 64 \<Longrightarrow> bit ((w :: 64 word) AND NOT (push_bit k 1)) n \<longleftrightarrow> bit w n \<and> n \<noteq> k"
  by (auto simp: bit_simps)

lemma same_position: "p div 64 = q div 64 \<Longrightarrow> p mod 64 = q mod 64 \<longleftrightarrow> p = (q :: nat)"
  using div_mod_64_eq by blast

lemma wbit_set:
  assumes "q div 64 < length ws"
  shows "wbit (ws[q div 64 := (ws ! (q div 64)) OR push_bit (q mod 64) 1]) p \<longleftrightarrow> p = q \<or> wbit ws p"
proof (cases "p div 64 = q div 64")
  case True
  then show ?thesis
    unfolding wbit_update [OF assms] bit_set_push same_position [OF True] using assms by (simp add: wbit_def) blast
next
  case False
  then show ?thesis unfolding wbit_update [OF assms] by auto
qed

lemma wbit_clear:
  assumes "q div 64 < length ws"
  shows "wbit (ws[q div 64 := (ws ! (q div 64)) AND NOT (push_bit (q mod 64) 1)]) p \<longleftrightarrow> wbit ws p \<and> p \<noteq> q"
proof (cases "p div 64 = q div 64")
  case True
  have "p mod 64 < 64" by simp
  then show ?thesis
    unfolding wbit_update [OF assms] bit_clear_push [OF \<open>p mod 64 < 64\<close>] same_position [OF True]
    using True assms by (simp add: wbit_def)
next
  case False
  then show ?thesis unfolding wbit_update [OF assms] by auto
qed

lemma fresh_fold:
  assumes "n \<le> sz" and "k = div_ceil sz 64"
    and f: "f = (\<lambda>i ws. ws[i div 64 := (ws ! (i div 64)) OR push_bit (i mod 64) (1 :: 64 word)])"
  shows "length (fold f [0..<n] (replicate k 0)) = k \<and>
    (\<forall>p. wbit (fold f [0..<n] (replicate k 0)) p \<longleftrightarrow> p < n)"
  using assms(1)
proof (induction n)
  case 0
  then show ?case by (simp add: wbit_def)
next
  case (Suc n)
  let ?ws = "fold f [0..<n] (replicate k 0)"
  have len: "length ?ws = k" and bits: "wbit ?ws p \<longleftrightarrow> p < n" for p using Suc by auto
  have "n div 64 < k" using Suc.prems unfolding assms(2) by (intro div_ceil_less) simp_all
  then have n: "n div 64 < length ?ws" by (simp only: len)
  have "wbit (f n ws) p \<longleftrightarrow> p = n \<or> wbit ws p" if "n div 64 < length ws" for ws p
    unfolding f by (rule wbit_set [OF that])
  note this [OF n]
  moreover have "length (f n ws) = length ws" for ws by (simp add: f)
  note this [of ?ws]
  moreover have "fold f [0..<Suc n] (replicate k 0) = f n ?ws" by simp
  ultimately show ?case unfolding len bits by (metis less_Suc_eq)
qed

lemma fresh_words: "length (ba_unacked (ba_fresh b)) = div_ceil (nat b) 64"
  "wbit (ba_unacked (ba_fresh b)) p \<longleftrightarrow> int p < b" "ba_batch_size (ba_fresh b) = b"
proof -
  have m: "nat (max b 0) = nat b" by simp
  note f = fresh_fold [OF order_refl refl refl, of "nat b"]
  show "length (ba_unacked (ba_fresh b)) = div_ceil (nat b) 64"
    unfolding ba_fresh_def Let_def m batch_ack_entry.select_convs by (rule f [THEN conjunct1])
  show "wbit (ba_unacked (ba_fresh b)) p \<longleftrightarrow> int p < b"
    unfolding ba_fresh_def Let_def m batch_ack_entry.select_convs f [THEN conjunct2, THEN spec]
    by (rule zless_nat_eq_int_zless)
  show "ba_batch_size (ba_fresh b) = b" by (simp only: ba_fresh_def Let_def batch_ack_entry.select_convs)
qed

lemma nat_max_0 [simp]: "nat (max b 0) = nat b"
  by simp

lemma ba_words_bound:
  assumes "ba_wf e"
  shows "length (ba_unacked e) < 4294967296"
proof -
  have "length (ba_unacked e) \<le> nat (ba_batch_size e) div 64 + 1"
    using assms by (simp add: ba_wf_def ba_words_def div_ceil_def)
  also have "\<dots> \<le> nat (ba_batch_size e) + 1" by (simp add: div_le_dividend)
  also have "nat (ba_batch_size e) \<le> 2147483647" using assms unfolding ba_wf_def by linarith
  finally show ?thesis by simp
qed

lemma is_unacked_iff:
  assumes "ba_wf e"
  shows "ba_is_unacked e i \<longleftrightarrow> 0 \<le> i \<and> nat i \<in> unacked e"
proof (cases "i < 0")
  case True
  then show ?thesis using ba_words_bound [OF assms] by (simp add: ba_is_unacked_def list_get_def)
next
  case False
  have "(w AND push_bit k 1) \<noteq> 0 \<longleftrightarrow> bit w k" if "k < 64" for w :: "64 word" and k
    using that by (auto simp: and_exp_eq_0_iff_not_bit)
  then show ?thesis
    using False by (simp add: ba_is_unacked_def list_get_def unacked_def wbit_def Let_def)
qed

lemma fully_acked_iff: "ba_is_fully_acked e \<longleftrightarrow> unacked e = {}"
proof
  assume "ba_is_fully_acked e"
  then show "unacked e = {}" by (auto simp: ba_is_fully_acked_def unacked_def wbit_def list_all_length)
next
  assume none: "unacked e = {}"
  have "ba_unacked e ! j = 0" if "j < length (ba_unacked e)" for j
  proof (rule bit_word_eqI)
    fix n assume "n < LENGTH(64)"
    then have "wbit (ba_unacked e) (64 * j + n) \<longleftrightarrow> bit (ba_unacked e ! j) n" using that by (simp add: wbit_def)
    then show "bit (ba_unacked e ! j) n \<longleftrightarrow> bit (0 :: 64 word) n" using none by (auto simp: unacked_def)
  qed
  then show "ba_is_fully_acked e" by (simp add: ba_is_fully_acked_def list_all_length)
qed

section \<open>The operations on positions\<close>

lemma fresh_spec: "b \<le> I32_MAX \<Longrightarrow> ba_wf (ba_fresh b) \<and> unacked (ba_fresh b) = {p. int p < b}"
  by (auto simp: ba_wf_def ba_words_def unacked_def fresh_words)

lemma clear_size [simp]: "ba_batch_size (ba_clear i e) = ba_batch_size e"
  "length (ba_unacked (ba_clear i e)) = length (ba_unacked e)"
  by (simp_all add: ba_clear_def Let_def split: option.split)

lemma clear_bits:
  assumes "ba_wf e"
  shows "wbit (ba_unacked (ba_clear i e)) p \<longleftrightarrow> wbit (ba_unacked e) p \<and> int p \<noteq> i"
proof (cases "i < 0 \<or> ba_batch_size e \<le> i")
  case True
  moreover have "int p < ba_batch_size e" if "wbit (ba_unacked e) p" using that assms by (simp add: ba_wf_def)
  ultimately show ?thesis by (auto simp: ba_clear_def)
next
  case False
  define q where "q = nat i"
  have q: "i = int q" using False by (simp add: q_def)
  have len: "length (ba_unacked e) = div_ceil (nat (ba_batch_size e)) 64"
    using assms by (simp add: ba_wf_def ba_words_def)
  have "q div 64 < length (ba_unacked e)"
    unfolding len by (rule div_ceil_less) (use False in \<open>simp_all add: q\<close>)
  note get = list_get_def [of "ba_unacked e" "q div 64", unfolded if_P [OF this]]
  have "ba_unacked (ba_clear i e) =
      (ba_unacked e)[q div 64 := (ba_unacked e ! (q div 64)) AND NOT (push_bit (q mod 64) 1)]"
    using False by (simp add: ba_clear_def q_def [symmetric] get)
  then show ?thesis using wbit_clear [OF \<open>q div 64 < length (ba_unacked e)\<close>, of p] q by simp
qed

lemma clear_spec: "ba_wf e \<Longrightarrow> ba_wf (ba_clear i e) \<and> unacked (ba_clear i e) = {p \<in> unacked e. int p \<noteq> i}"
  using clear_bits [of e i] by (auto simp: ba_wf_def ba_words_def unacked_def)

lemma clear_fold:
  assumes "ba_wf e"
  shows "ba_wf (fold (\<lambda>i. ba_clear (int i)) [0..<n] e) \<and>
    ba_batch_size (fold (\<lambda>i. ba_clear (int i)) [0..<n] e) = ba_batch_size e \<and>
    unacked (fold (\<lambda>i. ba_clear (int i)) [0..<n] e) = {p \<in> unacked e. n \<le> p}"
proof (induction n)
  case 0
  then show ?case using assms by simp
next
  case (Suc n)
  let ?e = "fold (\<lambda>i. ba_clear (int i)) [0..<n] e"
  have "fold (\<lambda>i. ba_clear (int i)) [0..<Suc n] e = ba_clear (int n) ?e" by simp
  moreover have "{p \<in> {p \<in> unacked e. n \<le> p}. int p \<noteq> int n} = {p \<in> unacked e. Suc n \<le> p}" by auto
  ultimately show ?case using Suc clear_spec [of ?e "int n"] by (simp only: clear_size)
qed

lemma unacked_less: "ba_wf e \<Longrightarrow> p \<in> unacked e \<Longrightarrow> int p < ba_batch_size e"
  by (simp add: ba_wf_def unacked_def)

lemma clear_before_spec:
  assumes "ba_wf e"
  shows "ba_wf (ba_clear_before i e) \<and> ba_batch_size (ba_clear_before i e) = ba_batch_size e \<and>
    unacked (ba_clear_before i e) = {p \<in> unacked e. i \<le> int p}"
proof -
  have "nat (max (min i (ba_batch_size e)) 0) \<le> p \<longleftrightarrow> i \<le> int p" if "p \<in> unacked e" for p
    using unacked_less [OF assms that] by linarith
  then have "{p \<in> unacked e. nat (max (min i (ba_batch_size e)) 0) \<le> p} = {p \<in> unacked e. i \<le> int p}" by auto
  then show ?thesis
    unfolding ba_clear_before_def using clear_fold [OF assms, of "nat (max (min i (ba_batch_size e)) 0)"] by simp
qed

lemma ack_position_spec:
  assumes "ba_wf e"
  shows "ba_wf (fst (ba_ack_position i e))"
    "unacked (fst (ba_ack_position i e)) = {p \<in> unacked e. int p \<noteq> i}"
    "ba_batch_size (fst (ba_ack_position i e)) = ba_batch_size e"
    "snd (ba_ack_position i e) \<longleftrightarrow> unacked (fst (ba_ack_position i e)) = {}"
  using clear_spec [OF assms, of i] by (simp_all add: ba_ack_position_def Let_def fully_acked_iff)

lemma ack_cumulative_spec:
  assumes "ba_wf e"
  shows "ba_wf (fst (ba_ack_cumulative i e))"
    "unacked (fst (ba_ack_cumulative i e)) = {p \<in> unacked e. i < int p}"
    "ba_batch_size (fst (ba_ack_cumulative i e)) = ba_batch_size e"
    "snd (ba_ack_cumulative i e) \<longleftrightarrow> unacked (fst (ba_ack_cumulative i e)) = {}"
proof -
  have "min (i + 1) I32_MAX \<le> int p \<longleftrightarrow> i < int p" if "p \<in> unacked e" for p
    using unacked_less [OF assms that] assms unfolding ba_wf_def by linarith
  then have "{p \<in> unacked e. min (i + 1) I32_MAX \<le> int p} = {p \<in> unacked e. i < int p}" by auto
  with clear_before_spec [OF assms, of "min (i + 1) I32_MAX"]
  show "ba_wf (fst (ba_ack_cumulative i e))"
    "unacked (fst (ba_ack_cumulative i e)) = {p \<in> unacked e. i < int p}"
    "ba_batch_size (fst (ba_ack_cumulative i e)) = ba_batch_size e"
    "snd (ba_ack_cumulative i e) \<longleftrightarrow> unacked (fst (ba_ack_cumulative i e)) = {}"
    by (simp_all add: ba_ack_cumulative_def Let_def fully_acked_iff)
qed

lemma length_and_words [simp]: "length (and_words ws ds) = length ws"
  by (simp add: and_words_def)

lemma wbit_and_words:
  "wbit (and_words ws ds) p \<longleftrightarrow> wbit ws p \<and> (p div 64 < length ds \<longrightarrow> wbit ds p)"
proof (cases "p div 64 < length ws")
  case True
  have "(word_of_nat U64_MAX :: 64 word) = -1" by simp
  then have full: "bit (word_of_nat U64_MAX :: 64 word) n \<longleftrightarrow> n < 64" for n
    by (simp only: bit_minus_1_iff) simp
  show ?thesis using True full [of "p mod 64"]
    by (auto simp: wbit_def and_words_def list_get_def nth_enumerate_eq bit_and_iff)
qed (simp add: wbit_def)

lemma intersect_spec:
  assumes "ba_wf e" and "ba_wf d" and "ba_batch_size d = ba_batch_size e"
  shows "ba_wf (ba_intersect_delivered d e)"
    "unacked (ba_intersect_delivered d e) = unacked e \<inter> unacked d"
    "ba_batch_size (ba_intersect_delivered d e) = ba_batch_size e"
proof -
  have "length (ba_unacked d) = length (ba_unacked e)" using assms by (simp add: ba_wf_def ba_words_def)
  then have "wbit (ba_unacked (ba_intersect_delivered d e)) p \<longleftrightarrow> wbit (ba_unacked e) p \<and> wbit (ba_unacked d) p" for p
    by (auto simp: ba_intersect_delivered_def wbit_and_words) (auto simp: wbit_def)
  then show "ba_wf (ba_intersect_delivered d e)"
    "unacked (ba_intersect_delivered d e) = unacked e \<inter> unacked d"
    using assms(1) by (auto simp: ba_wf_def ba_words_def unacked_def ba_intersect_delivered_def)
  show "ba_batch_size (ba_intersect_delivered d e) = ba_batch_size e" by (simp add: ba_intersect_delivered_def)
qed

text \<open>A delivered ack set clears the bits it names; positions it does not reach stay unacknowledged.\<close>

lemma from_delivered_spec:
  assumes "b \<le> I32_MAX"
  shows "ba_wf (ba_from_delivered_ack_set b xs)"
    "unacked (ba_from_delivered_ack_set b xs) =
      {p. int p < b \<and> (p div 64 < length xs \<longrightarrow> wbit (map word_of_int xs) p)}"
    "ba_batch_size (ba_from_delivered_ack_set b xs) = b"
  using assms
  by (auto simp: ba_from_delivered_ack_set_def Let_def wbit_and_words fresh_words ba_wf_def ba_words_def unacked_def)

lemma from_delivered_empty: "ba_from_delivered_ack_set b [] = ba_fresh b"
proof -
  have "(18446744073709551615 :: 64 word) = -1" by simp
  then have "w AND 18446744073709551615 = w" for w :: "64 word" by (simp only: and.right_neutral)
  then have "and_words ws [] = ws" for ws
    by (intro nth_equalityI) (simp_all add: and_words_def list_get_def nth_enumerate_eq)
  then show ?thesis by (simp add: ba_from_delivered_ack_set_def Let_def)
qed

lemma sint_word_of_int: "map (word_of_int :: int \<Rightarrow> 64 word) (map sint ws) = ws"
  by (simp add: comp_def)

lemma wbit_ext: "length ws = length vs \<Longrightarrow> (\<And>p. wbit ws p \<longleftrightarrow> wbit vs p) \<Longrightarrow> ws = vs"
proof (rule nth_equalityI)
  fix i assume len: "length ws = length vs" and eq: "\<And>p. wbit ws p \<longleftrightarrow> wbit vs p" and i: "i < length ws"
  show "ws ! i = vs ! i"
  proof (rule bit_word_eqI)
    fix n assume "n < LENGTH(64)"
    then show "bit (ws ! i) n \<longleftrightarrow> bit (vs ! i) n" using eq [of "64 * i + n"] i len by (simp add: wbit_def)
  qed
qed

lemma ba_eqI: "ba_wf e \<Longrightarrow> ba_wf d \<Longrightarrow> ba_batch_size e = ba_batch_size d \<Longrightarrow> unacked e = unacked d \<Longrightarrow> e = d"
proof -
  assume "ba_wf e" "ba_wf d" and sz: "ba_batch_size e = ba_batch_size d" and "unacked e = unacked d"
  then have "ba_unacked e = ba_unacked d"
    by (intro wbit_ext) (auto simp: ba_wf_def ba_words_def unacked_def set_eq_iff)
  with sz show ?thesis by (cases e; cases d) simp
qed

text \<open>What is sent as an ack set reads back as the same entry, whichever reader is used.\<close>

lemma ack_set_roundtrip:
  assumes "ba_wf e"
  shows "ba_from_delivered_ack_set (ba_batch_size e) (ba_ack_set_i64 e) = e"
proof (rule ba_eqI)
  have b: "ba_batch_size e \<le> I32_MAX" using assms by (simp add: ba_wf_def)
  note spec = from_delivered_spec [OF b, of "ba_ack_set_i64 e"]
  show "ba_wf (ba_from_delivered_ack_set (ba_batch_size e) (ba_ack_set_i64 e))" by (rule spec)
  show "ba_batch_size (ba_from_delivered_ack_set (ba_batch_size e) (ba_ack_set_i64 e)) = ba_batch_size e" by (rule spec)
  have len: "p div 64 < length (ba_ack_set_i64 e)" if "int p < ba_batch_size e" for p
  proof -
    have "p div 64 < div_ceil (nat (ba_batch_size e)) 64" by (rule div_ceil_less) (use that in simp_all)
    then show ?thesis using assms by (simp add: ba_ack_set_i64_def ba_wf_def ba_words_def)
  qed
  then show "unacked (ba_from_delivered_ack_set (ba_batch_size e) (ba_ack_set_i64 e)) = unacked e"
    unfolding spec(2) using unacked_less [OF assms]
    by (auto simp: ba_ack_set_i64_def sint_word_of_int unacked_def simp del: map_map)
qed (rule assms)

lemma mask_last_bits:
  assumes "length ws = div_ceil sz 64"
  shows "length (mask_last sz ws) = length ws \<and> (wbit (mask_last sz ws) p \<longleftrightarrow> wbit ws p \<and> p < sz)"
proof (cases "ws \<noteq> [] \<and> sz mod 64 \<noteq> 0")
  case True
  then have len: "length ws - 1 = sz div 64" using assms by (simp add: div_ceil_def)
  then have lt: "sz div 64 < length ws" using True by (metis diff_less length_greater_0_conv zero_less_one)
  have word: "bit (w AND (push_bit k 1 - 1)) n \<longleftrightarrow> bit w n \<and> n < k" if "n < 64" for w :: "64 word" and k n
    using that by (auto simp: bit_and_iff mask_eq_exp_minus_1 [symmetric] bit_mask_iff)
  have eq: "mask_last sz ws = ws[sz div 64 := (ws ! (sz div 64)) AND (push_bit (sz mod 64) 1 - 1)]"
    unfolding mask_last_def len using True by simp
  have "wbit (mask_last sz ws) p \<longleftrightarrow> wbit ws p \<and> p < sz"
  proof (cases "p div 64 = sz div 64")
    case True
    then have "p mod 64 < sz mod 64 \<longleftrightarrow> p < sz"
      using div_mult_mod_eq [of p 64] div_mult_mod_eq [of sz 64] by linarith
    moreover have "p mod 64 < 64" by simp
    ultimately show ?thesis
      unfolding eq wbit_update [OF lt] word [OF \<open>p mod 64 < 64\<close>] using True lt by (simp add: wbit_def)
  next
    case False
    have "p div 64 < sz div 64" if "wbit ws p" using that False len unfolding wbit_def by linarith
    then have "p < sz" if "wbit ws p" using that by (metis div_le_mono linorder_not_less)
    then show ?thesis unfolding eq wbit_update [OF lt] using False by auto
  qed
  then show ?thesis by (simp add: mask_last_def)
next
  case False
  then have "sz mod 64 = 0 \<or> ws = []" by auto
  then have "p < sz" if "wbit ws p"
  proof
    assume "sz mod 64 = 0"
    then have "length ws = sz div 64" using assms by (simp add: div_ceil_def)
    then have "p div 64 < sz div 64" using that by (simp add: wbit_def)
    then show "p < sz" by (metis div_le_mono linorder_not_less)
  qed (use that in \<open>simp add: wbit_def\<close>)
  then show ?thesis using False by (auto simp: mask_last_def)
qed

text \<open>The other reader: a non-empty ack set that is too short acknowledges the rest.\<close>

lemma from_ack_set_spec:
  assumes "b \<le> I32_MAX"
  shows "ba_wf (ba_from_ack_set b xs)"
    "unacked (ba_from_ack_set b xs) =
      {p. int p < b \<and> (xs \<noteq> [] \<longrightarrow> wbit (map word_of_int xs) p)}"
    "ba_batch_size (ba_from_ack_set b xs) = b"
proof -
  define n where "n = div_ceil (nat b) 64"
  define ws where "ws = map (word_of_int :: int \<Rightarrow> 64 word) (take n xs) @ replicate (n - length (take n xs)) 0"
  have len: "length ws = n" by (simp add: ws_def)
  have bits: "wbit ws p \<longleftrightarrow> wbit (map word_of_int xs) p" if "int p < b" for p
  proof -
    have "p div 64 < n" unfolding n_def by (rule div_ceil_less) (use that in simp_all)
    then show ?thesis by (auto simp: ws_def wbit_def nth_append)
  qed
  have eq: "ba_from_ack_set b xs = \<lparr>ba_batch_size = b, ba_unacked = mask_last (nat b) ws\<rparr>" if "xs \<noteq> []"
    using that by (simp add: ba_from_ack_set_def Let_def ws_def n_def)
  note mask = mask_last_bits [OF len [unfolded n_def]]
  have masked: "wbit (mask_last (nat b) ws) p \<longleftrightarrow> int p < b \<and> wbit (map word_of_int xs) p" for p
    using mask [of p] bits [of p] by auto
  show "ba_batch_size (ba_from_ack_set b xs) = b"
    by (simp add: ba_from_ack_set_def Let_def fresh_words(3))
  show "unacked (ba_from_ack_set b xs) = {p. int p < b \<and> (xs \<noteq> [] \<longrightarrow> wbit (map word_of_int xs) p)}"
  proof (cases "xs = []")
    case True
    then show ?thesis using fresh_spec [OF assms] by (simp add: ba_from_ack_set_def)
  next
    case False
    then show ?thesis by (simp add: eq unacked_def masked)
  qed
  show "ba_wf (ba_from_ack_set b xs)"
  proof (cases "xs = []")
    case True
    then show ?thesis using fresh_spec [OF assms] by (simp add: ba_from_ack_set_def)
  next
    case False
    then show ?thesis
      using mask [THEN conjunct1] assms len by (simp add: eq ba_wf_def ba_words_def masked n_def)
  qed
qed

lemma seek_spec:
  assumes "b \<le> I32_MAX"
  shows "unacked (ba_seek_from_ack_set b i xs) =
    {p. int p < b \<and> i \<le> int p \<and> (xs \<noteq> [] \<longrightarrow> wbit (map word_of_int xs) p)}"
  using clear_before_spec [OF from_ack_set_spec(1) [OF assms], of "max i 0"]
  by (auto simp: ba_seek_from_ack_set_def from_ack_set_spec(2) [OF assms])

section \<open>Counting\<close>

lemma card_unacked_words: "card {p. wbit ws p} = sum_list (map count_ones ws) \<and> finite {p. wbit ws p}"
proof (induction ws rule: rev_induct)
  case Nil
  then show ?case by (simp add: wbit_def)
next
  case (snoc w ws)
  let ?N = "(\<lambda>n. 64 * length ws + n) ` {n. n < 64 \<and> bit w n}"
  have "{p. wbit (ws @ [w]) p} = {p. wbit ws p} \<union> ?N"
  proof (intro set_eqI iffI)
    fix p assume "p \<in> {p. wbit (ws @ [w]) p}"
    then consider "wbit ws p" | "p div 64 = length ws" "bit w (p mod 64)"
      by (auto simp: wbit_def nth_append split: if_splits)
    then show "p \<in> {p. wbit ws p} \<union> ?N"
    proof cases
      case 2
      then have "p = 64 * length ws + p mod 64" by (metis mult_div_mod_eq)
      then show ?thesis using 2 by auto
    qed simp
  qed (auto simp: wbit_def nth_append)
  moreover have "{p. wbit ws p} \<inter> ?N = {}" by (auto simp: wbit_def)
  moreover have "card ?N = card {n. n < 64 \<and> bit w n}" by (rule card_image) (simp add: inj_on_def)
  moreover have "count_ones w = card {n. n < 64 \<and> bit w n}"
    unfolding count_ones_def length_filter_conv_card by (rule arg_cong [where f = card]) auto
  ultimately show ?case using snoc by (simp add: card_Un_disjoint)
qed

lemma unacked_count_spec:
  assumes "ba_wf e"
  shows "ba_unacked_count e = card (unacked e)"
proof -
  have fold: "foldl (\<lambda>c w. sat_add U32_MAX c (count_ones w)) a ws = a + sum_list (map count_ones ws)"
    if "a + sum_list (map count_ones ws) \<le> U32_MAX" for a ws
    using that by (induction ws arbitrary: a) (auto simp: sat_add_exact)
  have "unacked e \<subseteq> {p. p < nat (ba_batch_size e)}" using unacked_less [OF assms] by fastforce
  then have "card (unacked e) \<le> nat (ba_batch_size e)"
    by (metis card_Collect_less_nat card_mono finite_Collect_less_nat)
  moreover have "nat (ba_batch_size e) \<le> 2147483647" using assms unfolding ba_wf_def by linarith
  ultimately have "0 + sum_list (map count_ones (ba_unacked e)) \<le> U32_MAX"
    using card_unacked_words [of "ba_unacked e"] by (simp add: unacked_def)
  from fold [OF this] show ?thesis
    using card_unacked_words [of "ba_unacked e"] by (simp add: ba_unacked_count_def unacked_def)
qed

end
