(* ===== verification/Ack_Path.thy ===== *)
theory Ack_Path
  imports Batch_Ack
begin

text \<open>
  The ack path of \<open>crates/magnetar-proto/src/conn.rs\<close> over the batch-index bitsets: how an ack request
  of the application becomes the message ids of a \<open>CommandAck\<close>, and what it leaves in the consumer's
  table of partially acknowledged batches. A table maps the ledger and entry id of a batch to its
  bitset.
\<close>

datatype ack_type = Individual | Cumulative

record ack_request =
  ar_message_ids :: "message_id list"
  ar_ack_type :: ack_type
  ar_properties :: "(string \<times> int) list"
  ar_txn_id :: "txn_id option"

type_synonym batch_key = "nat \<times> nat"
type_synonym batch_table = "(batch_key, batch_ack_entry) hashmap"

abbreviation key_of :: "message_id \<Rightarrow> batch_key" where
  "key_of m \<equiv> (ledger_id m, entry_id m)"

definition set_ack_set :: "int list \<Rightarrow> message_id_data \<Rightarrow> message_id_data" where
  "set_ack_set xs p = MessageIdData (pb_ledger_id p) (pb_entry_id p) (pb_partition p) (pb_batch_index p) xs
     (pb_batch_size p) (pb_first_chunk_message_id p)"

lemma set_ack_set_sel [simp]: "pb_ack_set (set_ack_set xs p) = xs" "pb_batch_size (set_ack_set xs p) = pb_batch_size p"
  by (simp_all add: set_ack_set_def)

definition plain_ack_message_ids :: "ack_request \<Rightarrow> message_id_data list option \<Rightarrow> message_id_data list" where
  "plain_ack_message_ids ack datas =
     map (\<lambda>(i, m). case datas of
            Some ids \<Rightarrow> (case list_get ids i of Some d \<Rightarrow> d | None \<Rightarrow> mid_to_pb m)
          | None \<Rightarrow> mid_to_pb m) (enumerate 0 (ar_message_ids ack))"

text \<open>One turn of the loop over the message ids: an id whose batch is not in the table seeds it.\<close>

definition seed_batch :: "batch_key \<Rightarrow> message_id_data \<Rightarrow> batch_table \<Rightarrow> batch_table" where
  "seed_batch key pb t =
     (if hm_contains t key then t
      else case pb_batch_size pb of
        Some b \<Rightarrow> if b > 0 then hm_insert key (ba_from_ack_set b (pb_ack_set pb)) t else t
      | None \<Rightarrow> t)"

definition ack_one :: "ack_type \<Rightarrow> message_id \<Rightarrow> message_id_data \<Rightarrow> batch_table \<Rightarrow> message_id_data \<times> batch_table" where
  "ack_one ty m pb t =
     (if batch_index m < 0 then (pb, t)
      else
        let key = key_of m; t = seed_batch key pb t; pb = set_ack_set [] pb in
        case hm_get t key of
          None \<Rightarrow> (pb, hm_remove key t)
        | Some e \<Rightarrow>
            (case (case ty of Individual \<Rightarrow> ba_ack_position (batch_index m) e
                            | Cumulative \<Rightarrow> ba_ack_cumulative (batch_index m) e) of
               (e, fully) \<Rightarrow>
                 if fully then (pb, hm_remove key t)
                 else (set_ack_set (ba_ack_set_i64 e) pb, hm_insert key e t)))"

fun ack_ids :: "ack_type \<Rightarrow> message_id list \<Rightarrow> message_id_data list \<Rightarrow> batch_table \<Rightarrow> message_id_data list \<times> batch_table" where
  "ack_ids ty (m # ms) (pb # pbs) t =
     (case ack_one ty m pb t of (pb, t) \<Rightarrow> (case ack_ids ty ms pbs t of (pbs, t) \<Rightarrow> (pb # pbs, t)))"
| "ack_ids ty ms pbs t = (pbs, t)"

text \<open>A cumulative ack drops every entry below the greatest id, and that one too when it is acknowledged as a whole.\<close>

definition prune_below :: "message_id list \<Rightarrow> batch_table \<Rightarrow> batch_table" where
  "prune_below ms t =
     (case ms of
        [] \<Rightarrow> t
      | m # ms' \<Rightarrow>
          let horizon = key_of (fold max ms' m);
              t = filter (\<lambda>(k, e). horizon \<le> k) t;
              horizon_is_partial = list_ex (\<lambda>m. key_of m = horizon \<and> 0 \<le> batch_index m) ms
          in if horizon_is_partial then t else hm_remove horizon t)"

definition apply_batch_ack_state ::
    "ack_request \<Rightarrow> message_id_data list option \<Rightarrow> batch_table \<Rightarrow> message_id_data list \<times> batch_table" where
  "apply_batch_ack_state ack datas t =
     (let ms = ar_message_ids ack;
          (ids, t) = ack_ids (ar_ack_type ack) ms (plain_ack_message_ids ack datas) t
      in (ids, case ar_ack_type ack of Individual \<Rightarrow> t | Cumulative \<Rightarrow> prune_below ms t))"

text \<open>The check of \<open>ack_inner\<close> that turns a request away.\<close>

definition invalid_batch_ack :: "ack_request \<Rightarrow> bool" where
  "invalid_batch_ack ack \<longleftrightarrow> ar_ack_type ack = Individual \<and>
     list_ex (\<lambda>m. 0 \<le> batch_index m \<and> (batch_size m \<le> 0 \<or> batch_size m \<le> batch_index m)) (ar_message_ids ack)"

text \<open>A batched delivery seeds the table, or narrows the entry it finds (in \<open>ConsumerState::deliver\<close>).\<close>

definition deliver_ack_set :: "batch_key \<Rightarrow> int \<Rightarrow> int list \<Rightarrow> batch_table \<Rightarrow> batch_table" where
  "deliver_ack_set key num_in_batch ack_set t =
     (let d = ba_from_delivered_ack_set num_in_batch ack_set in
      case hm_get t key of
        Some e \<Rightarrow> hm_insert key (ba_intersect_delivered d e) t
      | None \<Rightarrow> hm_insert key d t)"

text \<open>The message id of a seek: the first chunk of a chunked message, and an inclusive suffix of a batch.\<close>

fun innermost_chunk :: "message_id_data \<Rightarrow> message_id_data" where
  "innermost_chunk (MessageIdData l e p bi xs bs (Some first)) = innermost_chunk first"
| "innermost_chunk (MessageIdData l e p bi xs bs None) = MessageIdData l e p bi xs bs None"

definition broker_seek_message_id :: "message_id_data \<Rightarrow> message_id_data" where
  "broker_seek_message_id m =
     (let m = innermost_chunk m;
          xs = (case (pb_batch_index m, pb_batch_size m) of
                  (Some i, Some b) \<Rightarrow> if 0 \<le> i \<and> 0 < b then ba_ack_set_i64 (ba_seek_from_ack_set b i (pb_ack_set m))
                                      else pb_ack_set m
                | _ \<Rightarrow> pb_ack_set m)
      in MessageIdData (pb_ledger_id m) (pb_entry_id m) (pb_partition m) None xs None None)"

lemmas ack_defs [op_defs] = plain_ack_message_ids_def ack_one_def prune_below_def apply_batch_ack_state_def
  invalid_batch_ack_def deliver_ack_set_def broker_seek_message_id_def

section \<open>What the bitset promises\<close>

text \<open>
  The ack path needs three things of the two acknowledgement operations: they keep an entry well
  formed, they remove exactly the positions the ack covers, and the flag they return says whether
  anything is left.
\<close>

locale position_acks =
  fixes inv :: "'e \<Rightarrow> bool" and left :: "'e \<Rightarrow> nat set"
    and ack :: "int \<Rightarrow> 'e \<Rightarrow> 'e \<times> bool" and covers :: "int \<Rightarrow> nat \<Rightarrow> bool"
  assumes ack_inv: "inv e \<Longrightarrow> inv (fst (ack i e))"
    and ack_left: "inv e \<Longrightarrow> left (fst (ack i e)) = {p \<in> left e. \<not> covers i p}"
    and ack_flag: "inv e \<Longrightarrow> snd (ack i e) \<longleftrightarrow> left (fst (ack i e)) = {}"
begin

lemma acks_left:
  assumes "inv e"
  shows "inv (fold (\<lambda>i e. fst (ack i e)) js e) \<and>
    left (fold (\<lambda>i e. fst (ack i e)) js e) = {p \<in> left e. \<forall>i\<in>set js. \<not> covers i p}"
  using assms by (induction js arbitrary: e) (auto simp: ack_inv ack_left)

lemma flag_after_acks:
  assumes "inv e"
  shows "snd (ack i (fold (\<lambda>i e. fst (ack i e)) js e)) \<longleftrightarrow> (\<forall>p\<in>left e. \<exists>j\<in>insert i (set js). covers j p)"
  using acks_left [OF assms, of js] by (auto simp: ack_flag ack_left)

end

interpretation individual: position_acks ba_wf unacked ba_ack_position "\<lambda>i p. int p = i"
  by unfold_locales (simp_all add: ack_position_spec)

interpretation cumulative: position_acks ba_wf unacked ba_ack_cumulative "\<lambda>i p. int p \<le> i"
  by unfold_locales (simp_all add: ack_cumulative_spec not_le)

section \<open>Sessions\<close>

lemma ball_prod_mono: "\<forall>(a, b)\<in>S. P a b \<Longrightarrow> (\<And>a b. P a b \<Longrightarrow> Q a b) \<Longrightarrow> \<forall>(a, b)\<in>S. Q a b"
  by blast

text \<open>The positions an ack of the application covers.\<close>

fun covered_by :: "ack_type \<Rightarrow> message_id \<Rightarrow> (batch_key \<times> nat) set" where
  "covered_by Individual m = {(k, p). k = key_of m \<and> (batch_index m < 0 \<or> int p = batch_index m)}"
| "covered_by Cumulative m =
     {(k, p). k < key_of m \<or> k = key_of m \<and> (batch_index m < 0 \<or> int p \<le> batch_index m)}"

text \<open>
  The positions of an entry of \<open>n\<close> messages that a message id of a \<open>CommandAck\<close> reports as
  acknowledged: all of them without an ack set, else those whose bit is clear.
\<close>

definition reported :: "int \<Rightarrow> message_id_data \<Rightarrow> nat set" where
  "reported n pb = {p. int p < n \<and> (pb_ack_set pb = [] \<or> p \<notin> unacked (ba_from_delivered_ack_set n (pb_ack_set pb)))}"

text \<open>An id that comes from a delivered message carries the size of its batch and an index inside it.\<close>

definition id_ok :: "(batch_key \<Rightarrow> int) \<Rightarrow> message_id \<Rightarrow> bool" where
  "id_ok sz m \<longleftrightarrow> (0 \<le> batch_index m \<longrightarrow> batch_size m = sz (key_of m) \<and> batch_index m < batch_size m)"

text \<open>
  The life of a table: deliveries (with the ack set of a redelivery), acks and resets. The second
  component collects what the application acknowledged and what the broker itself reported.
\<close>

inductive ack_session :: "(batch_key \<Rightarrow> int) \<Rightarrow> batch_table \<Rightarrow> (batch_key \<times> nat) set \<Rightarrow> bool" for sz where
  start: "ack_session sz [] {}"
| delivered: "ack_session sz t D \<Longrightarrow>
    ack_session sz (deliver_ack_set k (sz k) xs t)
      (D \<union> {(k', p). k' = k \<and> int p < sz k \<and> p \<notin> unacked (ba_from_delivered_ack_set (sz k) xs)})"
| acked: "ack_session sz t D \<Longrightarrow> \<forall>m\<in>set (ar_message_ids r). id_ok sz m \<Longrightarrow>
    ack_session sz (snd (apply_batch_ack_state r None t)) (D \<union> (\<Union>m\<in>set (ar_message_ids r). covered_by (ar_ack_type r) m))"
| reset: "ack_session sz t D \<Longrightarrow> ack_session sz [] D"

definition entry_ok :: "(batch_key \<Rightarrow> int) \<Rightarrow> (batch_key \<times> nat) set \<Rightarrow> batch_key \<Rightarrow> batch_ack_entry \<Rightarrow> bool" where
  "entry_ok sz D k e \<longleftrightarrow> ba_wf e \<and> ba_batch_size e = sz k \<and> (\<forall>p. int p < sz k \<and> p \<notin> unacked e \<longrightarrow> (k, p) \<in> D)"

definition table_ok :: "(batch_key \<Rightarrow> int) \<Rightarrow> (batch_key \<times> nat) set \<Rightarrow> batch_table \<Rightarrow> bool" where
  "table_ok sz D t \<longleftrightarrow> hm_wf t \<and> (\<forall>k e. hm_get t k = Some e \<longrightarrow> entry_ok sz D k e)"

lemma table_ok_mono: "table_ok sz D t \<Longrightarrow> D \<subseteq> D' \<Longrightarrow> table_ok sz D' t"
  unfolding table_ok_def entry_ok_def by blast

lemma table_ok_insert: "table_ok sz D t \<Longrightarrow> entry_ok sz D k e \<Longrightarrow> table_ok sz D (hm_insert k e t)"
  by (simp add: table_ok_def)

lemma table_ok_remove: "table_ok sz D t \<Longrightarrow> table_ok sz D (hm_remove k t)"
  by (simp add: table_ok_def)

lemma table_ok_filter: "table_ok sz D t \<Longrightarrow> table_ok sz D (filter P t)"
  by (auto simp: table_ok_def hm_get_filter split: option.splits if_splits)

lemmas table_ok_rules [inv_rules] = table_ok_insert table_ok_remove table_ok_filter

lemma prune_ok [inv_rules]: "table_ok sz D t \<Longrightarrow> table_ok sz D (prune_below ms t)"
  by (simp add: prune_below_def Let_def table_ok_rules split: list.split)

lemma ack_entry_ok:
  assumes "entry_ok sz D k e" and "k = key_of m" and "0 \<le> batch_index m" and "covered_by ty m \<subseteq> D"
    and "(case ty of Individual \<Rightarrow> ba_ack_position (batch_index m) e
                   | Cumulative \<Rightarrow> ba_ack_cumulative (batch_index m) e) = (e', fully)"
  shows "entry_ok sz D k e' \<and> (fully \<longleftrightarrow> unacked e' = {})"
proof -
  have wf: "ba_wf e" using assms(1) by (simp add: entry_ok_def)
  show ?thesis
  proof (cases ty)
    case Individual
    then show ?thesis using assms ack_position_spec [OF wf, of "batch_index m"] by (auto simp: entry_ok_def)
  next
    case Cumulative
    have "(k, p) \<in> D" if "\<not> batch_index m < int p" for p
      using that assms(2,4) Cumulative by (auto simp: not_less)
    then show ?thesis using Cumulative assms ack_cumulative_spec [OF wf, of "batch_index m"] by (auto simp: entry_ok_def)
  qed
qed

lemma plain_ids_None: "plain_ack_message_ids r None = map mid_to_pb (ar_message_ids r)"
  unfolding plain_ack_message_ids_def by (rule nth_equalityI) (simp_all add: nth_enumerate_eq)

lemma ack_set_nonempty:
  assumes "ba_wf e" and "0 < ba_batch_size e"
  shows "ba_ack_set_i64 e \<noteq> []"
proof -
  have "0 div 64 < div_ceil (nat (ba_batch_size e)) 64" by (rule div_ceil_less) (use assms in simp_all)
  then have "ba_unacked e \<noteq> []" using assms by (auto simp: ba_wf_def ba_words_def)
  then show ?thesis by (simp add: ba_ack_set_i64_def)
qed

lemma ack_one_ok:
  assumes "table_ok sz D t" and "covered_by ty m \<subseteq> D" and "id_ok sz m" and "sz (key_of m) \<le> I32_MAX"
    and "ack_one ty m (mid_to_pb m) t = (pb, t')"
  shows "table_ok sz D t' \<and> {key_of m} \<times> reported (sz (key_of m)) pb \<subseteq> D"
proof (cases "batch_index m < 0")
  case True
  then have "pb = mid_to_pb m" "t' = t" using assms(5) by (simp_all add: ack_one_def)
  moreover have "{key_of m} \<times> UNIV \<subseteq> covered_by ty m" using True by (cases ty) auto
  ultimately show ?thesis using assms(1,2) by auto
next
  case False
  let ?k = "key_of m"
  define t1 where "t1 = seed_batch ?k (mid_to_pb m) t"
  have sz: "batch_size m = sz ?k" "0 < sz ?k" using assms(3) False by (auto simp: id_ok_def)
  have "entry_ok sz D ?k (ba_from_ack_set (batch_size m) [])"
    using from_ack_set_spec [OF assms(4), of "[]"] sz by (simp add: entry_ok_def)
  then have t1: "table_ok sz D t1" using assms(1) sz by (simp add: t1_def seed_batch_def mid_to_pb_def table_ok_rules)
  obtain e where e: "hm_get t1 ?k = Some e"
    using sz by (cases "hm_get t ?k") (auto simp: t1_def seed_batch_def mid_to_pb_def hm_contains_def)
  then have "entry_ok sz D ?k e" using t1 by (simp add: table_ok_def)
  obtain e' fully where ack: "(case ty of Individual \<Rightarrow> ba_ack_position (batch_index m) e
      | Cumulative \<Rightarrow> ba_ack_cumulative (batch_index m) e) = (e', fully)" by fastforce
  note ok = ack_entry_ok [OF \<open>entry_ok sz D ?k e\<close> refl _ assms(2) this]
  have ok': "entry_ok sz D ?k e'" "fully \<longleftrightarrow> unacked e' = {}" using ok False by auto
  have "ack_one ty m (mid_to_pb m) t =
    (if fully then (set_ack_set [] (mid_to_pb m), hm_remove ?k t1)
     else (set_ack_set (ba_ack_set_i64 e') (set_ack_set [] (mid_to_pb m)), hm_insert ?k e' t1))"
    using False e ack by (simp add: ack_one_def Let_def t1_def [symmetric])
  then have res: "pb = (if fully then set_ack_set [] (mid_to_pb m)
      else set_ack_set (ba_ack_set_i64 e') (set_ack_set [] (mid_to_pb m)))"
    "t' = (if fully then hm_remove ?k t1 else hm_insert ?k e' t1)" using assms(5) by (simp_all split: if_splits)
  have "p \<notin> unacked e'" if "p \<in> reported (sz ?k) pb" for p
    using that ok' sz ack_set_roundtrip [of e'] ack_set_nonempty [of e']
    by (auto simp: res reported_def entry_ok_def split: if_splits)
  then have "{?k} \<times> reported (sz ?k) pb \<subseteq> D" using ok'(1) by (auto simp: entry_ok_def reported_def)
  moreover have "table_ok sz D t'" using t1 ok'(1) by (simp add: res table_ok_rules)
  ultimately show ?thesis by simp
qed

lemma ack_ids_ok:
  assumes "table_ok sz D t" and "\<forall>m\<in>set ms. covered_by ty m \<subseteq> D \<and> id_ok sz m \<and> sz (key_of m) \<le> I32_MAX"
    and "ack_ids ty ms (map mid_to_pb ms) t = (pbs, t')"
  shows "table_ok sz D t' \<and> (\<forall>(m, pb)\<in>set (zip ms pbs). {key_of m} \<times> reported (sz (key_of m)) pb \<subseteq> D)"
  using assms
proof (induction ms arbitrary: t pbs t')
  case Nil
  then show ?case by simp
next
  case (Cons m ms)
  obtain pb t1 where one: "ack_one ty m (mid_to_pb m) t = (pb, t1)" by fastforce
  obtain pbs1 t2 where rest: "ack_ids ty ms (map mid_to_pb ms) t1 = (pbs1, t2)" by fastforce
  have eq: "pbs = pb # pbs1" "t' = t2" using Cons.prems(3) one rest by simp_all
  have "table_ok sz D t1 \<and> {key_of m} \<times> reported (sz (key_of m)) pb \<subseteq> D"
    using Cons.prems by (intro ack_one_ok [OF _ _ _ _ one]) simp_all
  moreover from this have "table_ok sz D t2 \<and>
      (\<forall>(m, pb)\<in>set (zip ms pbs1). {key_of m} \<times> reported (sz (key_of m)) pb \<subseteq> D)"
    using Cons.prems by (intro Cons.IH [OF _ _ rest]) simp_all
  ultimately show ?case by (simp add: eq)
qed

lemma apply_ok:
  assumes "table_ok sz D t" and "\<forall>k. sz k \<le> I32_MAX" and "\<forall>m\<in>set (ar_message_ids r). id_ok sz m"
    and "(\<Union>m\<in>set (ar_message_ids r). covered_by (ar_ack_type r) m) \<subseteq> D"
  shows "table_ok sz D (snd (apply_batch_ack_state r None t)) \<and>
    (\<forall>(m, pb)\<in>set (zip (ar_message_ids r) (fst (apply_batch_ack_state r None t))).
       {key_of m} \<times> reported (sz (key_of m)) pb \<subseteq> D)"
proof -
  obtain pbs t' where ids: "ack_ids (ar_ack_type r) (ar_message_ids r) (map mid_to_pb (ar_message_ids r)) t = (pbs, t')"
    by fastforce
  have "\<forall>m\<in>set (ar_message_ids r). covered_by (ar_ack_type r) m \<subseteq> D \<and> id_ok sz m \<and> sz (key_of m) \<le> I32_MAX"
    using assms(2-4) by blast
  from ack_ids_ok [OF assms(1) this ids] show ?thesis
    by (simp add: apply_batch_ack_state_def plain_ids_None ids prune_ok split: ack_type.split)
qed

lemma session_ok:
  assumes "ack_session sz t D" and sz: "\<forall>k. sz k \<le> I32_MAX"
  shows "table_ok sz D t"
  using assms(1)
proof induction
  case start
  then show ?case by (simp add: table_ok_def)
next
  case (delivered t D k xs)
  let ?D = "D \<union> {(k', p). k' = k \<and> int p < sz k \<and> p \<notin> unacked (ba_from_delivered_ack_set (sz k) xs)}"
  note spec = from_delivered_spec [OF sz [rule_format, of k], of xs]
  have ok: "table_ok sz ?D t" by (rule table_ok_mono [OF delivered.IH]) simp
  have fresh: "entry_ok sz ?D k (ba_from_delivered_ack_set (sz k) xs)" using spec(1,3) by (simp add: entry_ok_def)
  show ?case
  proof (cases "hm_get t k")
    case None
    then show ?thesis using table_ok_insert [OF ok fresh] by (simp add: deliver_ack_set_def)
  next
    case (Some e)
    then have e: "entry_ok sz D k e" using delivered.IH unfolding table_ok_def by blast
    then have "entry_ok sz ?D k (ba_intersect_delivered (ba_from_delivered_ack_set (sz k) xs) e)"
      using intersect_spec [of e "ba_from_delivered_ack_set (sz k) xs"] spec(1,3) by (auto simp: entry_ok_def)
    then show ?thesis using table_ok_insert [OF ok] Some by (simp add: deliver_ack_set_def)
  qed
next
  case (acked t D r)
  then show ?case
    using apply_ok [OF table_ok_mono [OF acked.IH] sz acked.hyps(2)] by simp
next
  case (reset t D)
  then show ?case by (simp add: table_ok_def)
qed

section \<open>Acknowledging a batch position by position\<close>

abbreviation member_id :: "batch_key \<Rightarrow> int \<Rightarrow> int \<Rightarrow> nat \<Rightarrow> message_id" where
  "member_id k q n p \<equiv> MessageId (fst k) (snd k) q (int p) n"

lemma ack_one_member:
  assumes "hm_get t k = Some x" and "ba_wf x"
  obtains y where "ba_wf y" "ba_batch_size y = ba_batch_size x" "unacked y = unacked x - {p}"
    "ack_one Individual (member_id k q n p) pb t =
      (if unacked y = {} then (set_ack_set [] pb, hm_remove k t)
       else (set_ack_set (ba_ack_set_i64 y) (set_ack_set [] pb), hm_insert k y t))"
proof -
  obtain y f where a: "ba_ack_position (int p) x = (y, f)" by fastforce
  note spec = ack_position_spec [OF assms(2), of "int p", unfolded a fst_conv snd_conv]
  have "unacked y = unacked x - {p}" using spec(2) by auto
  moreover have "ack_one Individual (member_id k q n p) pb t =
      (if unacked y = {} then (set_ack_set [] pb, hm_remove k t)
       else (set_ack_set (ba_ack_set_i64 y) (set_ack_set [] pb), hm_insert k y t))"
    using assms(1) spec(4) by (simp add: ack_one_def seed_batch_def hm_contains_def a Let_def)
  ultimately show thesis using that spec(1,3) by blast
qed

lemma ack_members:
  assumes "hm_get t k = Some x" "ba_wf x" "set ps \<subseteq> unacked x" "distinct ps" "ps \<noteq> []"
    and "ack_ids Individual (map (member_id k q n) ps) pbs t = (pbs', t')" and "length pbs = length ps"
  shows "if set ps = unacked x then hm_get t' k = None \<and> pb_ack_set (last pbs') = []
    else \<exists>y. hm_get t' k = Some y \<and> ba_wf y \<and> unacked y = unacked x - set ps \<and>
           ba_batch_size y = ba_batch_size x \<and> pb_ack_set (last pbs') = ba_ack_set_i64 y"
  using assms
proof (induction ps arbitrary: t x pbs pbs')
  case (Cons p ps)
  obtain pb pbs1 where pbs: "pbs = pb # pbs1" using Cons.prems(7) by (cases pbs) auto
  obtain y where y: "ba_wf y" "ba_batch_size y = ba_batch_size x" "unacked y = unacked x - {p}"
    "ack_one Individual (member_id k q n p) pb t =
      (if unacked y = {} then (set_ack_set [] pb, hm_remove k t)
       else (set_ack_set (ba_ack_set_i64 y) (set_ack_set [] pb), hm_insert k y t))"
    by (rule ack_one_member [OF Cons.prems(1,2)])
  show ?case
  proof (cases ps)
    case Nil
    then have eq: "ack_one Individual (member_id k q n p) pb t = (hd pbs', t')" "pbs' = [hd pbs']"
      using Cons.prems(6,7) pbs by (auto split: prod.splits)
    then have l: "last pbs' = hd pbs'" by (metis last.simps)
    have iff: "unacked y = {} \<longleftrightarrow> unacked x = {p}" using y(3) Cons.prems(3) by auto
    show ?thesis
    proof (cases "unacked x = {p}")
      case True
      then have "hd pbs' = set_ack_set [] pb" "t' = hm_remove k t" using eq(1) y(4) iff by simp_all
      then show ?thesis using True Nil by (simp add: l)
    next
      case False
      then have "hd pbs' = set_ack_set (ba_ack_set_i64 y) (set_ack_set [] pb)" "t' = hm_insert k y t"
        using eq(1) y(4) iff by simp_all
      then show ?thesis using False y(1-3) Nil by (auto simp: l)
    qed
  next
    case (Cons p' ps')
    have ne: "unacked y \<noteq> {}" using Cons Cons.prems(3,4) y(3) by auto
    obtain pbs2 where rest: "ack_ids Individual (map (member_id k q n) ps) pbs1 (hm_insert k y t) = (pbs2, t')"
      and pbs': "pbs' = set_ack_set (ba_ack_set_i64 y) (set_ack_set [] pb) # pbs2"
      using Cons.prems(6) ne y(4) pbs by (auto split: prod.splits)
    have "pbs2 \<noteq> []" using rest Cons Cons.prems(7) pbs by (cases pbs1) (auto split: prod.splits)
    have "if set ps = unacked y then hm_get t' k = None \<and> pb_ack_set (last pbs2) = []
      else \<exists>z. hm_get t' k = Some z \<and> ba_wf z \<and> unacked z = unacked y - set ps \<and>
           ba_batch_size z = ba_batch_size y \<and> pb_ack_set (last pbs2) = ba_ack_set_i64 z"
      using Cons.prems(3,4,7) y(3) Cons pbs
      by (intro Cons.IH [OF _ y(1) _ _ _ rest]) auto
    moreover have e1: "set ps = unacked y \<longleftrightarrow> set (p # ps) = unacked x" using y(3) Cons.prems(3,4) by auto
    moreover have e2: "unacked y - set ps = unacked x - set (p # ps)" using y(3) by auto
    moreover have e3: "last pbs' = last pbs2" using \<open>pbs2 \<noteq> []\<close> by (simp add: pbs')
    ultimately show ?thesis by (simp only: e1 e2 e3 y(2))
  qed
qed simp

section \<open>Properties\<close>

text \<open>
  C18. The packed words are the set of unacknowledged positions: on well-formed entries each
  operation of the bitset is the operation on the set, the answers (full, count, membership) are
  those of the set, the ack set on the wire reads back as the entry, and an absent ack set as the
  fresh entry.
\<close>

theorem bitset_refines_positions:
  assumes "ba_wf e" and "ba_wf d" and "ba_batch_size d = ba_batch_size e" and "b \<le> I32_MAX"
  shows "unacked (ba_fresh b) = {p. int p < b} \<and>
    unacked (fst (ba_ack_position i e)) = {p \<in> unacked e. int p \<noteq> i} \<and>
    unacked (fst (ba_ack_cumulative i e)) = {p \<in> unacked e. i < int p} \<and>
    unacked (ba_intersect_delivered d e) = unacked e \<inter> unacked d \<and>
    (ba_is_unacked e i \<longleftrightarrow> 0 \<le> i \<and> nat i \<in> unacked e) \<and>
    (ba_is_fully_acked e \<longleftrightarrow> unacked e = {}) \<and> ba_unacked_count e = card (unacked e) \<and>
    ba_from_delivered_ack_set (ba_batch_size e) (ba_ack_set_i64 e) = e \<and>
    ba_from_delivered_ack_set b [] = ba_fresh b \<and>
    ba_wf (ba_fresh b) \<and> ba_wf (fst (ba_ack_position i e)) \<and> ba_wf (fst (ba_ack_cumulative i e)) \<and>
    ba_wf (ba_intersect_delivered d e)"
  using assms fresh_spec [of b] ack_position_spec [of e i] ack_cumulative_spec [of e i] intersect_spec [of e d]
    is_unacked_iff [of e i] fully_acked_iff [of e] unacked_count_spec [of e] ack_set_roundtrip [of e]
    from_delivered_empty [of b]
  by simp

text \<open>
  C16. No ack goes too far: over every sequence of deliveries, acks and resets, each message id of a
  \<open>CommandAck\<close> reports to the broker only positions that the application acknowledged (with this
  request or before) or that the broker had itself reported as acknowledged. In particular an entry
  is acknowledged as a whole only when every position of the batch has been.
\<close>

theorem acks_report_only_acked:
  assumes "ack_session sz t D" and "\<forall>k. sz k \<le> I32_MAX" and "\<forall>m\<in>set (ar_message_ids r). id_ok sz m"
  shows "\<forall>(m, pb)\<in>set (zip (ar_message_ids r) (fst (apply_batch_ack_state r None t))).
    \<forall>p\<in>reported (sz (key_of m)) pb.
      (key_of m, p) \<in> D \<union> (\<Union>m\<in>set (ar_message_ids r). covered_by (ar_ack_type r) m)"
proof -
  let ?D = "D \<union> (\<Union>m\<in>set (ar_message_ids r). covered_by (ar_ack_type r) m)"
  have "table_ok sz ?D t" by (rule table_ok_mono [OF session_ok [OF assms(1,2)]]) simp
  note apply_ok [OF this assms(2,3) Un_upper2, THEN conjunct2]
  moreover have "{k} \<times> A \<subseteq> ?D \<Longrightarrow> \<forall>p\<in>A. (k, p) \<in> ?D" for k A by blast
  ultimately show ?thesis by (rule ball_prod_mono)
qed

text \<open>
  C17. A batch can be finished: when a batch of \<open>n\<close> messages is delivered and its positions are
  acknowledged one by one, in any order, the last ack covers the whole entry (and the table forgets
  it) exactly when every position was acknowledged; until then the ack set that is sent names
  exactly the positions still missing.
\<close>

theorem batch_acks_complete:
  assumes "0 < n" and "n \<le> I32_MAX" and "hm_get t k = None" and "distinct ps" and "ps \<noteq> []"
    and "set ps \<subseteq> {p. int p < n}"
    and "r = \<lparr>ar_message_ids = map (member_id k q n) ps, ar_ack_type = Individual, ar_properties = [], ar_txn_id = None\<rparr>"
    and "apply_batch_ack_state r None (deliver_ack_set k n [] t) = (pbs, t')"
  shows "if set ps = {p. int p < n} then hm_get t' k = None \<and> pb_ack_set (last pbs) = []
    else \<exists>y. hm_get t' k = Some y \<and> unacked y = {p. int p < n} - set ps \<and>
           pb_ack_set (last pbs) = ba_ack_set_i64 y \<and> pb_ack_set (last pbs) \<noteq> []"
proof -
  let ?t = "deliver_ack_set k n [] t" and ?x = "ba_fresh n"
  note fresh = fresh_spec [OF assms(2)]
  have x: "hm_get ?t k = Some ?x" using assms(3) by (simp add: deliver_ack_set_def from_delivered_empty)
  have "ack_ids Individual (map (member_id k q n) ps) (map mid_to_pb (map (member_id k q n) ps)) ?t = (pbs, t')"
    using assms(7,8) by (simp add: apply_batch_ack_state_def plain_ids_None split: prod.splits)
  then have "if set ps = unacked ?x then hm_get t' k = None \<and> pb_ack_set (last pbs) = []
    else \<exists>y. hm_get t' k = Some y \<and> ba_wf y \<and> unacked y = unacked ?x - set ps \<and>
           ba_batch_size y = ba_batch_size ?x \<and> pb_ack_set (last pbs) = ba_ack_set_i64 y"
    using fresh assms(4-6) by (intro ack_members [OF x]) auto
  then show ?thesis
    using fresh ack_set_nonempty assms(1) by (auto simp: fresh_words(3) split: if_splits)
qed

section \<open>Examples\<close>

lemma three_positions: "{p. int p < 3} = {0, 1, 2}"
  by auto

theorem bitset_refines_positions_witness:
  "unacked (fst (ba_ack_position 1 (ba_fresh 3))) = {0, 2} \<and>
   ba_unacked_count (ba_from_delivered_ack_set 3 [5]) = 2 \<and>
   ba_from_delivered_ack_set 3 (ba_ack_set_i64 (ba_fresh 3)) = ba_fresh 3"
proof -
  let ?d = "ba_from_delivered_ack_set 3 [5]" and ?e = "ba_fresh 3"
  have le: "(3 :: int) \<le> I32_MAX" by simp
  note d = from_delivered_spec [OF le, of "[5]"] and e = fresh_spec [OF le]
  have "wbit (map word_of_int [5]) 0" "\<not> wbit (map word_of_int [5]) 1" "wbit (map word_of_int [5]) 2"
    by (simp_all add: wbit_def bit_numeral_rec)
  then have "p \<in> unacked ?d \<longleftrightarrow> p \<in> {0, 2}" for p
    unfolding d(2) mem_Collect_eq by (cases "p = 0"; cases "p = 1"; cases "p = 2") simp_all
  then have "unacked ?d = {0, 2}" by blast
  moreover have "{p \<in> {p. int p < 3}. int p \<noteq> 1} = {0, 2}" by auto
  moreover note bitset_refines_positions [OF d(1) d(1) refl le, of 1]
    bitset_refines_positions [OF e [THEN conjunct1] d(1) _ le, of 1]
  ultimately show ?thesis unfolding e [THEN conjunct2] d(3) fresh_words(3) by simp
qed

theorem acks_report_only_acked_witness:
  "let t = deliver_ack_set (7, 4) 3 [] [];
       r = \<lparr>ar_message_ids = [MessageId 7 4 0 1 3], ar_ack_type = Individual, ar_properties = [], ar_txn_id = None\<rparr>
   in \<forall>p\<in>reported 3 (hd (fst (apply_batch_ack_state r None t))). p = 1"
proof -
  let ?t = "deliver_ack_set (7, 4) 3 [] []"
  let ?r = "\<lparr>ar_message_ids = [MessageId 7 4 0 1 3], ar_ack_type = Individual, ar_properties = [], ar_txn_id = None\<rparr>"
  have "ack_session (\<lambda>_. 3) ?t ({} \<union> {(k', p). k' = (7, 4) \<and> int p < 3 \<and> p \<notin> unacked (ba_from_delivered_ack_set 3 [])})"
    by (rule ack_session.delivered [OF ack_session.start])
  then have "ack_session (\<lambda>_. 3) ?t {}" using fresh_spec [of 3] by (simp add: from_delivered_empty)
  note acks_report_only_acked [OF this, of ?r]
  moreover have "length (fst (apply_batch_ack_state ?r None ?t)) = 1"
    by (simp add: apply_batch_ack_state_def plain_ids_None split: prod.splits)
  then obtain pb where "fst (apply_batch_ack_state ?r None ?t) = [pb]" by (auto simp: length_Suc_conv)
  ultimately show ?thesis by (auto simp: id_ok_def)
qed

theorem batch_acks_complete_witness:
  "let r = (\<lambda>ps. \<lparr>ar_message_ids = map (member_id (7, 4) 0 2) ps, ar_ack_type = Individual, ar_properties = [],
              ar_txn_id = None\<rparr>);
       (pbs, t) = apply_batch_ack_state (r [1, 0]) None (deliver_ack_set (7, 4) 2 [] [])
   in hm_get t (7, 4) = None \<and> pb_ack_set (last pbs) = []"
proof -
  let ?r = "\<lparr>ar_message_ids = map (member_id (7, 4) 0 2) [1, 0], ar_ack_type = Individual, ar_properties = [],
              ar_txn_id = None\<rparr>"
  obtain pbs t where run: "apply_batch_ack_state ?r None (deliver_ack_set (7, 4) 2 [] []) = (pbs, t)" by fastforce
  have two: "{p. int p < 2} = set [1, 0]" by auto
  note batch_acks_complete [OF _ _ _ _ _ _ refl run, unfolded two if_P [OF refl]]
  then have "hm_get t (7, 4) = None \<and> pb_ack_set (last pbs) = []" by simp
  then show ?thesis by (simp only: Let_def run prod.case)
qed

end
