(* ===== verification/Ack_Tracker.thy ===== *)
theory Ack_Tracker
  imports Clock Msg_Types
begin

text \<open>
  The acknowledgement grouping tracker, \<open>crates/magnetar-proto/src/trackers/ack.rs\<close>: acks are
  collected during a grouping window and flushed as one cumulative and one individual ack
  command. The set of pending individual acks is a B-tree set in the source and a strictly sorted
  list here, so a flush drains it in order.
\<close>

datatype ack_action =
    SendIndividualAck consumer_handle "message_id list"
  | SendCumulativeAck consumer_handle message_id

record ack_tracker =
  at_handle :: consumer_handle
  at_group_time :: duration
  at_individuals :: "message_id list"
  at_cumulative :: "message_id option"
  at_last_flush :: "instant option"

definition at_new :: "consumer_handle \<Rightarrow> duration \<Rightarrow> ack_tracker" where
  "at_new h d = \<lparr>at_handle = h, at_group_time = d, at_individuals = [], at_cumulative = None,
     at_last_flush = None\<rparr>"

definition get_or_insert :: "'a option \<Rightarrow> 'a \<Rightarrow> 'a option" where
  "get_or_insert x v = (case x of None \<Rightarrow> Some v | Some u \<Rightarrow> Some u)"

definition at_add_individual ::
    "ack_tracker \<Rightarrow> message_id \<Rightarrow> instant \<Rightarrow> ack_tracker \<times> ack_action list" where
  "at_add_individual t m now =
     (if at_group_time t = 0 then (t, [SendIndividualAck (at_handle t) [m]])
      else (t\<lparr>at_individuals := bt_insert m (at_individuals t),
              at_last_flush := get_or_insert (at_last_flush t) now\<rparr>, []))"

definition cumulative_gt :: "message_id \<Rightarrow> message_id \<Rightarrow> bool" where
  "cumulative_gt l r =
     (if ledger_id l < ledger_id r then False
      else if ledger_id r < ledger_id l then True
      else if entry_id l < entry_id r then False
      else if entry_id r < entry_id l then True
      else batch_index r < batch_index l)"

definition at_add_cumulative ::
    "ack_tracker \<Rightarrow> message_id \<Rightarrow> instant \<Rightarrow> ack_tracker \<times> ack_action list" where
  "at_add_cumulative t m now =
     (if at_group_time t = 0 then (t, [SendCumulativeAck (at_handle t) m])
      else (t\<lparr>at_cumulative := (case at_cumulative t of
                 Some existing \<Rightarrow> if cumulative_gt m existing then Some m else Some existing
               | None \<Rightarrow> Some m),
              at_last_flush := get_or_insert (at_last_flush t) now\<rparr>, []))"

definition at_flush :: "ack_tracker \<Rightarrow> ack_tracker \<times> ack_action list" where
  "at_flush t =
     (t\<lparr>at_cumulative := None, at_individuals := [], at_last_flush := None\<rparr>,
      (case at_cumulative t of None \<Rightarrow> [] | Some m \<Rightarrow> [SendCumulativeAck (at_handle t) m]) @
      (if at_individuals t = [] then [] else [SendIndividualAck (at_handle t) (at_individuals t)]))"

definition at_poll :: "ack_tracker \<Rightarrow> instant \<Rightarrow> ack_tracker \<times> ack_action list" where
  "at_poll t now =
     (case at_last_flush t of
        None \<Rightarrow> (t, [])
      | Some first \<Rightarrow>
          if saturating_duration_since now first < at_group_time t then (t, []) else at_flush t)"

definition at_next_deadline :: "ack_tracker \<Rightarrow> instant option" where
  "at_next_deadline t = map_option (\<lambda>first. deadline_with_clamp first (at_group_time t)) (at_last_flush t)"

lemmas at_defs [op_defs] = at_new_def at_add_individual_def at_add_cumulative_def at_flush_def
  at_poll_def at_next_deadline_def

section \<open>The cumulative order\<close>

definition cum_key :: "message_id \<Rightarrow> nat \<times> nat \<times> int" where
  "cum_key m = (ledger_id m, entry_id m, batch_index m)"

lemma cumulative_gt_key: "cumulative_gt l r \<longleftrightarrow> cum_key r < cum_key l"
  by (auto simp: cumulative_gt_def cum_key_def less_prod_simp)

section \<open>Invariant\<close>

definition at_pending :: "ack_tracker \<Rightarrow> bool" where
  "at_pending t \<longleftrightarrow> at_individuals t \<noteq> [] \<or> at_cumulative t \<noteq> None"

text \<open>
  The window is open exactly while something is pending; with grouping disabled nothing is ever
  pending; the deadline of an open window is representable.
\<close>

definition at_inv :: "ack_tracker \<Rightarrow> bool" where
  "at_inv t \<longleftrightarrow> bt_wf (at_individuals t) \<and>
     (at_last_flush t = None \<longleftrightarrow> \<not> at_pending t) \<and>
     (at_group_time t = 0 \<longrightarrow> \<not> at_pending t)"

definition at_timed_inv :: "ack_tracker \<Rightarrow> bool" where
  "at_timed_inv t \<longleftrightarrow> at_inv t \<and>
     (\<forall>first. at_last_flush t = Some first \<longrightarrow> first + at_group_time t \<le> INSTANT_MAX)"

lemma bt_insert_not_Nil [simp]: "bt_insert x xs \<noteq> []"
  using set_bt_insert [of x xs] by (metis empty_set insert_not_empty)

lemma at_inv_new [inv_rules]: "at_inv (at_new h d)"
  by (simp add: at_inv_def at_new_def at_pending_def)

lemma at_inv_add_individual [inv_rules]: "at_inv t \<Longrightarrow> at_inv (fst (at_add_individual t m now))"
  by (auto simp: at_inv_def at_add_individual_def at_pending_def get_or_insert_def
      split: option.splits)

lemma at_inv_add_cumulative [inv_rules]: "at_inv t \<Longrightarrow> at_inv (fst (at_add_cumulative t m now))"
  by (auto simp: at_inv_def at_add_cumulative_def at_pending_def get_or_insert_def
      split: option.splits)

lemma at_inv_flush [inv_rules]: "at_inv t \<Longrightarrow> at_inv (fst (at_flush t))"
  by (simp add: at_inv_def at_flush_def at_pending_def)

lemma at_inv_poll [inv_rules]: "at_inv t \<Longrightarrow> at_inv (fst (at_poll t now))"
  by (simp add: at_poll_def at_inv_flush split: option.splits)

interpretation ack_timer: timer_source at_timed_inv at_poll at_next_deadline
proof unfold_locales
  fix t now
  assume "at_timed_inv t"
  then show "at_timed_inv (fst (at_poll t now))"
    by (auto simp: at_timed_inv_def at_inv_poll)
      (auto simp: at_poll_def at_flush_def split: option.splits if_splits)
next
  fix t now
  assume "at_timed_inv t" and "case at_next_deadline t of None \<Rightarrow> True | Some d \<Rightarrow> now < d"
  then show "at_poll t now = (t, [])"
    by (auto simp: at_timed_inv_def at_inv_def at_pending_def at_poll_def at_next_deadline_def
        deadline_exact saturating_duration_since_def split: option.splits)
next
  fix t now d
  assume "at_timed_inv t" and "at_next_deadline (fst (at_poll t now)) = Some d"
  then show "now < d"
    by (auto simp: at_timed_inv_def at_poll_def at_flush_def at_next_deadline_def deadline_exact
        saturating_duration_since_def split: option.splits if_splits)
qed

section \<open>Abstract view: what is still to be acknowledged\<close>

datatype ack_op = AddInd message_id | AddCum message_id | Tick | Flush

definition at_step :: "ack_tracker \<Rightarrow> ack_op \<times> instant \<Rightarrow> ack_tracker \<times> ack_action list" where
  "at_step t e = (case fst e of
       AddInd m \<Rightarrow> at_add_individual t m (snd e)
     | AddCum m \<Rightarrow> at_add_cumulative t m (snd e)
     | Tick \<Rightarrow> at_poll t (snd e)
     | Flush \<Rightarrow> at_flush t)"

fun at_run :: "ack_tracker \<Rightarrow> (ack_op \<times> instant) list \<Rightarrow> ack_tracker \<times> ack_action list" where
  "at_run t [] = (t, [])"
| "at_run t (e # es) =
     (let (t', out) = at_step t e; (t'', outs) = at_run t' es in (t'', out @ outs))"

fun acked_ids :: "ack_action \<Rightarrow> message_id set" where
  "acked_ids (SendIndividualAck h ms) = set ms"
| "acked_ids (SendCumulativeAck h m) = {}"

definition emitted_ids :: "ack_action list \<Rightarrow> message_id set" where
  "emitted_ids out = (\<Union>a\<in>set out. acked_ids a)"

definition requested_ids :: "(ack_op \<times> instant) list \<Rightarrow> message_id set" where
  "requested_ids es = {m. \<exists>now. (AddInd m, now) \<in> set es}"

lemma emitted_ids_simps [simp]:
  "emitted_ids [] = {}"
  "emitted_ids (a # as) = acked_ids a \<union> emitted_ids as"
  "emitted_ids (as @ bs) = emitted_ids as \<union> emitted_ids bs"
  by (auto simp: emitted_ids_def)

lemma requested_ids_simps [simp]:
  "requested_ids [] = {}"
  "requested_ids (e # es) = (case fst e of AddInd m \<Rightarrow> {m} | _ \<Rightarrow> {}) \<union> requested_ids es"
  by (cases e; auto simp: requested_ids_def split: ack_op.splits)+

lemma at_step_ids:
  "emitted_ids (snd (at_step t e)) \<union> set (at_individuals (fst (at_step t e))) =
     (case fst e of AddInd m \<Rightarrow> {m} | _ \<Rightarrow> {}) \<union> set (at_individuals t)"
  by (auto simp: at_step_def at_add_individual_def at_add_cumulative_def at_poll_def at_flush_def
      split: ack_op.splits option.splits if_splits)


text \<open>The largest cumulative position seen since the last flush, on the "covers more" order.\<close>

definition cum_max :: "message_id option \<Rightarrow> message_id \<Rightarrow> message_id option" where
  "cum_max acc m = (case acc of None \<Rightarrow> Some m | Some x \<Rightarrow> Some (if cum_key x < cum_key m then m else x))"

lemma at_add_cumulative_max:
  "at_group_time t \<noteq> 0 \<Longrightarrow> at_cumulative (fst (at_add_cumulative t m now)) = cum_max (at_cumulative t) m"
  by (simp add: at_add_cumulative_def cum_max_def cumulative_gt_key split: option.splits)

definition add_cums :: "ack_tracker \<Rightarrow> (message_id \<times> instant) list \<Rightarrow> ack_tracker" where
  "add_cums t ms = fold (\<lambda>(m, now) t. fst (at_add_cumulative t m now)) ms t"

lemma at_group_time_add_cumulative [simp]:
  "at_group_time (fst (at_add_cumulative t m now)) = at_group_time t"
  by (simp add: at_add_cumulative_def)

lemma add_cums_upper:
  assumes "at_group_time t \<noteq> 0" and "m \<in> fst ` set ms \<or> at_cumulative t = Some m"
  shows "\<exists>x. at_cumulative (add_cums t ms) = Some x \<and> cum_key m \<le> cum_key x"
  using assms
proof (induction ms arbitrary: t m)
  case Nil
  then show ?case by (auto simp: add_cums_def)
next
  case (Cons p ms)
  obtain m' now where p: "p = (m', now)" by (cases p)
  let ?t = "fst (at_add_cumulative t m' now)"
  have step: "add_cums t (p # ms) = add_cums ?t ms" by (simp add: add_cums_def p)
  have gt: "at_group_time ?t \<noteq> 0" using Cons.prems(1) by simp
  have c: "at_cumulative ?t = cum_max (at_cumulative t) m'"
    using Cons.prems(1) by (rule at_add_cumulative_max)
  consider "m \<in> fst ` set ms" | "m = m'" | "at_cumulative t = Some m"
    using Cons.prems(2) by (auto simp: p)
  then show ?case
  proof cases
    case 1
    then show ?thesis using Cons.IH [OF gt] step by auto
  next
    case 2
    obtain x where "at_cumulative ?t = Some x" and "cum_key m \<le> cum_key x"
      using c 2 by (auto simp: cum_max_def not_less split: option.splits)
    then show ?thesis using Cons.IH [OF gt, of x] step by (metis order_trans)
  next
    case 3
    obtain x where "at_cumulative ?t = Some x" and "cum_key m \<le> cum_key x"
      using c 3 by (simp add: cum_max_def split: if_splits)
    then show ?thesis using Cons.IH [OF gt, of x] step by (metis order_trans)
  qed
qed

lemma add_cums_source:
  "at_group_time t \<noteq> 0 \<Longrightarrow> at_cumulative (add_cums t ms) = Some x \<Longrightarrow>
     x \<in> fst ` set ms \<or> at_cumulative t = Some x"
proof (induction ms arbitrary: t)
  case Nil
  then show ?case by (simp add: add_cums_def)
next
  case (Cons p ms)
  obtain m' now where p: "p = (m', now)" by (cases p)
  let ?t = "fst (at_add_cumulative t m' now)"
  have gt: "at_group_time ?t \<noteq> 0" using Cons.prems(1) by simp
  have step: "add_cums t (p # ms) = add_cums ?t ms" by (simp add: add_cums_def p)
  from Cons.prems(2) have "x \<in> fst ` set ms \<or> at_cumulative ?t = Some x"
    using Cons.IH [OF gt] step by simp
  then show ?case
    using at_add_cumulative_max [OF Cons.prems(1), of m' now]
    by (auto simp: p cum_max_def split: option.splits if_splits)
qed

text \<open>
  The cumulative acknowledgement that a grouping window sends is one of the positions the
  consumer acknowledged in that window, and it covers all of them.
\<close>

theorem ack_cumulative_is_greatest:
  assumes "at_group_time t \<noteq> 0" and "at_cumulative t = None" and "ms \<noteq> []"
  shows "\<exists>x \<in> fst ` set ms. (\<forall>m \<in> fst ` set ms. cum_key m \<le> cum_key x) \<and>
           SendCumulativeAck (at_handle (add_cums t ms)) x \<in> set (snd (at_flush (add_cums t ms)))"
proof -
  obtain p where "p \<in> set ms" using assms(3) by (cases ms) auto
  then obtain x where x: "at_cumulative (add_cums t ms) = Some x"
    using add_cums_upper [OF assms(1), of "fst p" ms] by auto
  have "x \<in> fst ` set ms"
    using add_cums_source [OF assms(1) x] assms(2) by simp
  moreover have "\<forall>m \<in> fst ` set ms. cum_key m \<le> cum_key x"
    using add_cums_upper [OF assms(1), of _ ms] x by auto
  ultimately show ?thesis using x by (auto simp: at_flush_def)
qed

text \<open>
  C24. The grouping timer neither loses work nor spins: while the deadline is representable, a poll
  before the deadline changes nothing, a poll at or after it flushes everything, and whatever
  deadline remains after a poll lies in the future, so polling again at once has no effect.
\<close>

theorem ack_timer_sound:
  assumes "at_timed_inv t" and "at_next_deadline t = Some d"
  shows "(now < d \<longrightarrow> at_poll t now = (t, [])) \<and>
         (d \<le> now \<longrightarrow> at_poll t now = at_flush t) \<and>
         (case at_next_deadline (fst (at_poll t now)) of None \<Rightarrow> True | Some d' \<Rightarrow> now < d') \<and>
         at_poll (fst (at_poll t now)) now = (fst (at_poll t now), [])"
proof (intro conjI)
  show "now < d \<longrightarrow> at_poll t now = (t, [])"
    using ack_timer.quiet [OF assms(1)] assms(2) by simp
  show "d \<le> now \<longrightarrow> at_poll t now = at_flush t"
    using assms by (auto simp: at_timed_inv_def at_next_deadline_def at_poll_def deadline_exact
        saturating_duration_since_def)
  show "case at_next_deadline (fst (at_poll t now)) of None \<Rightarrow> True | Some d' \<Rightarrow> now < d'"
    using ack_timer.progress [OF assms(1)] by (simp split: option.splits)
  show "at_poll (fst (at_poll t now)) now = (fst (at_poll t now), [])"
    using assms(1) by (rule ack_timer.poll_idempotent)
qed

theorem ack_timer_sound_witness:
  "let t = fst (at_add_individual (at_new 7 100) (MessageId 1 5 0 (-1) 0) 10) in
     at_next_deadline t = Some 110 \<and> at_poll t 110 = at_flush t"
proof -
  let ?t = "fst (at_add_individual (at_new 7 100) (MessageId 1 5 0 (-1) 0) 10)"
  have d: "at_next_deadline ?t = Some 110"
    by (simp add: op_defs get_or_insert_def deadline_with_clamp_def instant_checked_add_def
        checked_add_def INSTANT_MAX_def)
  have i: "at_timed_inv ?t"
    unfolding at_timed_inv_def
    by (intro conjI at_inv_add_individual at_inv_new)
      (simp add: op_defs get_or_insert_def INSTANT_MAX_def)
  show ?thesis using ack_timer_sound [OF i d, of 110] d by (simp add: Let_def)
qed

text \<open>
  C25. With a grouping time so long that the deadline is not representable, the clamp of
  \<open>next_deadline\<close> to one hour and the unclamped comparison of \<open>poll\<close> disagree: after that hour the
  tracker reports a deadline in the past at every instant, and polling never clears it.
\<close>

theorem ack_timer_spins_on_overflow:
  assumes "at_last_flush t = Some first" and "INSTANT_MAX < first + at_group_time t"
    and "first + OVERFLOW_FALLBACK \<le> now" and "now \<le> INSTANT_MAX"
  shows "at_next_deadline t = Some (first + OVERFLOW_FALLBACK) \<and>
         first + OVERFLOW_FALLBACK \<le> now \<and> at_poll t now = (t, [])"
  using assms by (auto simp: at_next_deadline_def deadline_with_clamp_def instant_checked_add_def
      checked_add_def at_poll_def saturating_duration_since_def)

theorem ack_timer_spins_on_overflow_witness:
  "let t = fst (at_add_individual (at_new 7 DURATION_MAX) (MessageId 1 5 0 (-1) 0) 10);
       now = 10 + OVERFLOW_FALLBACK in
     at_next_deadline t = Some (10 + OVERFLOW_FALLBACK) \<and> 10 + OVERFLOW_FALLBACK \<le> now \<and>
     at_poll t now = (t, [])"
  unfolding Let_def
  by (rule ack_timer_spins_on_overflow)
    (simp_all add: op_defs get_or_insert_def INSTANT_MAX_def DURATION_MAX_def
      OVERFLOW_FALLBACK_def from_secs_def)

end
