(* ===== verification/Nack_Tracker.thy ===== *)
theory Nack_Tracker
  imports Clock Msg_Types
begin

text \<open>
  The negative acknowledgement tracker, \<open>crates/magnetar-proto/src/trackers/nack.rs\<close>: a map from
  message ids to redelivery deadlines, and the redelivery backoff. The f64 computation inside
  \<open>delay_for\<close> (the power, the product and its cast to u64 milliseconds) is a field of the backoff
  record; its saturation branches, the short-circuit and the clamp around it are modelled.
\<close>

datatype nack_action = RedeliverUnacked consumer_handle "message_id list"

record nack_tracker =
  nt_handle :: consumer_handle
  nt_delay :: duration
  nt_pending :: "(message_id, instant) hashmap"

definition nt_new :: "consumer_handle \<Rightarrow> duration \<Rightarrow> nack_tracker" where
  "nt_new h d = \<lparr>nt_handle = h, nt_delay = d, nt_pending = []\<rparr>"

definition nt_add :: "nack_tracker \<Rightarrow> message_id \<Rightarrow> instant \<Rightarrow> nack_tracker" where
  "nt_add t m now = t\<lparr>nt_pending := hm_insert m (deadline_with_clamp now (nt_delay t)) (nt_pending t)\<rparr>"

definition nt_add_with_delay :: "nack_tracker \<Rightarrow> message_id \<Rightarrow> duration \<Rightarrow> instant \<Rightarrow> nack_tracker" where
  "nt_add_with_delay t m d now = t\<lparr>nt_pending := hm_insert m (deadline_with_clamp now d) (nt_pending t)\<rparr>"

definition nt_remove :: "nack_tracker \<Rightarrow> message_id \<Rightarrow> nack_tracker" where
  "nt_remove t m = t\<lparr>nt_pending := hm_remove m (nt_pending t)\<rparr>"

text \<open>The ids of a deadline map that are due, in iteration order.\<close>

definition due_ids :: "instant \<Rightarrow> (message_id, instant) hashmap \<Rightarrow> message_id list" where
  "due_ids now m = map fst (filter (\<lambda>(i, d). d \<le> now) m)"

definition nt_poll :: "nack_tracker \<Rightarrow> instant \<Rightarrow> nack_tracker \<times> nack_action list" where
  "nt_poll t now =
     (let due = due_ids now (nt_pending t) in
      if due = [] then (t, [])
      else (t\<lparr>nt_pending := hm_remove_all due (nt_pending t)\<rparr>,
            [RedeliverUnacked (nt_handle t) (sort due)]))"

definition hm_min_value :: "('k, instant) hashmap \<Rightarrow> instant option" where
  "hm_min_value m = (if m = [] then None else Some (min_list (map snd m)))"

definition nt_next_deadline :: "nack_tracker \<Rightarrow> instant option" where
  "nt_next_deadline t = hm_min_value (nt_pending t)"

definition nt_is_empty :: "nack_tracker \<Rightarrow> bool" where
  "nt_is_empty t \<longleftrightarrow> nt_pending t = []"

lemmas nt_defs [op_defs] = nt_new_def nt_add_def nt_add_with_delay_def nt_remove_def nt_poll_def
  nt_next_deadline_def

section \<open>Redelivery backoff\<close>

record redelivery_backoff =
  rb_min_delay :: duration
  rb_max_delay :: duration
  rb_multiplier_gt_one :: bool
  rb_scaled_ms :: "nat \<Rightarrow> nat"

definition delay_for :: "redelivery_backoff \<Rightarrow> nat \<Rightarrow> duration" where
  "delay_for b count =
     (if rb_multiplier_gt_one b \<and> 64 < count then rb_max_delay b
      else let scaled = from_millis (rb_scaled_ms b (min count (nat I32_MAX))) in
        if scaled < rb_min_delay b then rb_min_delay b
        else if rb_max_delay b < scaled then rb_max_delay b
        else scaled)"

lemma delay_for_bounds:
  "rb_min_delay b \<le> rb_max_delay b \<Longrightarrow> rb_min_delay b \<le> delay_for b c \<and> delay_for b c \<le> rb_max_delay b"
  by (simp add: delay_for_def Let_def)

section \<open>Deadline maps\<close>

lemma due_ids_set: "hm_wf m \<Longrightarrow> set (due_ids now m) = {i. \<exists>d. hm_get m i = Some d \<and> d \<le> now}"
  by (force simp: due_ids_def hm_get_iff)

lemma due_ids_distinct: "hm_wf m \<Longrightarrow> distinct (due_ids now m)"
  by (simp add: due_ids_def hm_wf_def hm_keys_def distinct_map_filter)

lemma due_ids_Nil: "due_ids now m = [] \<longleftrightarrow> (\<forall>d\<in>snd ` set m. now < d)"
  by (auto simp: due_ids_def filter_empty_conv not_le)

lemma remove_due: "hm_wf m \<Longrightarrow> hm_remove_all (due_ids now m) m = filter (\<lambda>(i, d). now < d) m"
proof -
  assume wf: "hm_wf m"
  have "(i, d) \<in> set m \<Longrightarrow> (i \<notin> set (due_ids now m)) = (now < d)" for i d
    using hm_get_iff [OF wf, of i d] by (auto simp: due_ids_set [OF wf] not_le)
  then show ?thesis
    unfolding hm_remove_all_filter by (intro filter_cong) auto
qed

lemma hm_min_value_None [simp]: "hm_min_value m = None \<longleftrightarrow> m = []"
  by (simp add: hm_min_value_def)

lemma hm_min_value_Nil [simp]: "hm_min_value [] = None"
  by simp

lemma hm_min_value_Some:
  "hm_min_value m = Some d \<Longrightarrow> d \<in> snd ` set m \<and> (\<forall>d'\<in>snd ` set m. d \<le> d')"
proof -
  assume "hm_min_value m = Some d"
  then have ne: "snd ` set m \<noteq> {}" and d: "d = Min (snd ` set m)"
    by (auto simp: hm_min_value_def min_list_Min split: if_splits)
  show ?thesis unfolding d using ne by (intro conjI ballI Min_in Min_le) auto
qed

lemma quiet_iff_min:
  "due_ids now m = [] \<longleftrightarrow> (case hm_min_value m of None \<Rightarrow> True | Some d \<Rightarrow> now < d)"
proof (cases "hm_min_value m")
  case None
  then show ?thesis by (simp add: due_ids_Nil hm_min_value_def split: if_splits)
next
  case (Some d)
  then show ?thesis using hm_min_value_Some [OF Some] by (force simp: due_ids_Nil)
qed

lemma min_after_due: "hm_min_value (filter (\<lambda>(i, d). now < d) m) = Some d \<Longrightarrow> now < d"
  using hm_min_value_Some [of "filter (\<lambda>(i, d). now < d) m" d] by auto

section \<open>Invariant and timer contract\<close>

definition nt_inv :: "nack_tracker \<Rightarrow> bool" where
  "nt_inv t \<longleftrightarrow> hm_wf (nt_pending t)"

lemma nt_inv_ops [inv_rules]:
  "nt_inv (nt_new h d)"
  "nt_inv t \<Longrightarrow> nt_inv (nt_add t m now)"
  "nt_inv t \<Longrightarrow> nt_inv (nt_add_with_delay t m d now)"
  "nt_inv t \<Longrightarrow> nt_inv (nt_remove t m)"
  "nt_inv t \<Longrightarrow> nt_inv (fst (nt_poll t now))"
  by (simp_all add: nt_inv_def op_defs Let_def remove_due)

lemma nt_poll_pending:
  "nt_inv t \<Longrightarrow> nt_pending (fst (nt_poll t now)) = filter (\<lambda>(i, d). now < d) (nt_pending t)"
proof -
  assume inv: "nt_inv t"
  show ?thesis
  proof (cases "due_ids now (nt_pending t) = []")
    case True
    then have "filter (\<lambda>(i, d). now < d) (nt_pending t) = nt_pending t"
      by (auto simp: due_ids_Nil intro!: filter_True)
    with True show ?thesis by (simp add: nt_poll_def)
  next
    case False
    with inv show ?thesis by (simp add: nt_poll_def Let_def remove_due nt_inv_def)
  qed
qed

interpretation nack_timer: timer_source nt_inv nt_poll nt_next_deadline
proof unfold_locales
  fix t now
  assume "nt_inv t"
  then show "nt_inv (fst (nt_poll t now))" by (rule inv_rules)
next
  fix t now
  assume "nt_inv t" and "case nt_next_deadline t of None \<Rightarrow> True | Some d \<Rightarrow> now < d"
  then show "nt_poll t now = (t, [])"
    by (simp add: nt_poll_def nt_next_deadline_def flip: quiet_iff_min)
next
  fix t now d
  assume "nt_inv t" and "nt_next_deadline (fst (nt_poll t now)) = Some d"
  then show "now < d"
    by (auto simp: nt_next_deadline_def nt_poll_pending dest: min_after_due)
qed

section \<open>Functional behaviour of a tick\<close>

fun redelivered :: "nack_action list \<Rightarrow> message_id list" where
  "redelivered [] = []"
| "redelivered (RedeliverUnacked h ms # as) = ms @ redelivered as"

text \<open>
  C23. A tick of the negative-ack tracker asks for the redelivery of exactly the messages whose
  delay has elapsed, each once and in id order; it forgets those and keeps every other message
  with its deadline, and the remaining deadline lies in the future.
\<close>

theorem nack_poll_redelivers_due:
  assumes "nt_inv t"
  shows "set (redelivered (snd (nt_poll t now))) = {i. \<exists>d. hm_get (nt_pending t) i = Some d \<and> d \<le> now} \<and>
         distinct (redelivered (snd (nt_poll t now))) \<and> sorted (redelivered (snd (nt_poll t now))) \<and>
         hm_get (nt_pending (fst (nt_poll t now))) i =
           (case hm_get (nt_pending t) i of Some d \<Rightarrow> if now < d then Some d else None | None \<Rightarrow> None) \<and>
         (case nt_next_deadline (fst (nt_poll t now)) of None \<Rightarrow> True | Some d \<Rightarrow> now < d)"
proof -
  have wf: "hm_wf (nt_pending t)" using assms by (simp add: nt_inv_def)
  have r: "redelivered (snd (nt_poll t now)) = sort (due_ids now (nt_pending t))"
    by (simp add: nt_poll_def Let_def)
  show ?thesis
    using nack_timer.progress [OF assms, of now] wf
    by (auto simp: r hm_get_filter due_ids_set due_ids_distinct nt_poll_pending [OF assms] split: option.splits)
qed

theorem nack_poll_redelivers_due_witness:
  "let a = MessageId 5 3 0 (-1) 0; b = MessageId 5 2 0 (-1) 0;
       t = nt_add_with_delay (nt_add (nt_new 3 10) a 0) b 50 0 in
     set (redelivered (snd (nt_poll t 10))) = {a} \<and> hm_get (nt_pending (fst (nt_poll t 10))) b = Some 50"
proof -
  let ?a = "MessageId 5 3 0 (-1) 0" and ?b = "MessageId 5 2 0 (-1) 0"
  let ?t = "nt_add_with_delay (nt_add (nt_new 3 10) ?a 0) ?b 50 0"
  have i: "nt_inv ?t" by (intro inv_rules)
  have p: "hm_get (nt_pending ?t) = [?a \<mapsto> 10, ?b \<mapsto> 50]"
    by (simp add: op_defs deadline_with_clamp_def instant_checked_add_def checked_add_def
        INSTANT_MAX_def fun_upd_twist)
  have s: "{i. \<exists>d. hm_get (nt_pending ?t) i = Some d \<and> d \<le> 10} = {?a}"
    unfolding p by (auto split: if_splits)
  show ?thesis
    using nack_poll_redelivers_due [OF i, of 10 ?b] unfolding Let_def s by (simp add: p)
qed

end
