(* ===== verification/Unacked_Tracker.thy ===== *)
theory Unacked_Tracker
  imports Nack_Tracker
begin

text \<open>
  The ack-timeout tracker, \<open>crates/magnetar-proto/src/trackers/unacked.rs\<close>: delivered messages sit
  in time buckets (or, with a redelivery backoff, under their own deadline) until they are
  acknowledged or expire. \<open>locator\<close> maps a message to the index of its bucket.
\<close>

datatype unacked_action = RedeliverExpired consumer_handle "message_id list"

record bucket =
  bk_deadline :: instant
  bk_ids :: "message_id list"

record unacked_tracker =
  ut_handle :: consumer_handle
  ut_timeout :: duration
  ut_backoff :: "redelivery_backoff option"
  ut_buckets :: "bucket list"
  ut_locator :: "(message_id, nat) hashmap"
  ut_backoff_pending :: "(message_id, instant) hashmap"

definition ut_new :: "consumer_handle \<Rightarrow> duration \<Rightarrow> unacked_tracker" where
  "ut_new h d = \<lparr>ut_handle = h, ut_timeout = d, ut_backoff = None, ut_buckets = [],
     ut_locator = [], ut_backoff_pending = []\<rparr>"

definition ut_with_backoff :: "unacked_tracker \<Rightarrow> redelivery_backoff \<Rightarrow> unacked_tracker" where
  "ut_with_backoff t b = t\<lparr>ut_backoff := Some b\<rparr>"

definition ut_is_disabled :: "unacked_tracker \<Rightarrow> bool" where
  "ut_is_disabled t \<longleftrightarrow> ut_timeout t = 0"

text \<open>\<open>ensure_current_bucket\<close>: the index of the bucket that takes new messages, pushed if needed.\<close>

definition ut_ensure_bucket :: "unacked_tracker \<Rightarrow> instant \<Rightarrow> unacked_tracker \<times> nat" where
  "ut_ensure_bucket t now =
     (if ut_buckets t \<noteq> [] \<and> now < bk_deadline (last (ut_buckets t))
      then (t, length (ut_buckets t) - 1)
      else (t\<lparr>ut_buckets := ut_buckets t @
               [\<lparr>bk_deadline = deadline_with_clamp now (ut_timeout t), bk_ids = []\<rparr>]\<rparr>,
            length (ut_buckets t)))"

text \<open>A hash set as a duplicate-free list: \<open>HashSet::insert\<close> and \<open>HashSet::remove\<close>.\<close>

definition hs_insert :: "'a \<Rightarrow> 'a list \<Rightarrow> 'a list" where
  "hs_insert x xs = (if x \<in> set xs then xs else xs @ [x])"

definition hs_remove :: "'a \<Rightarrow> 'a list \<Rightarrow> 'a list" where
  "hs_remove x xs = filter (\<lambda>y. y \<noteq> x) xs"

definition ut_tracks :: "unacked_tracker \<Rightarrow> message_id \<Rightarrow> bool" where
  "ut_tracks t m \<longleftrightarrow> hm_contains (ut_locator t) m \<or> hm_contains (ut_backoff_pending t) m"

definition ut_add :: "unacked_tracker \<Rightarrow> message_id \<Rightarrow> instant \<Rightarrow> unacked_tracker" where
  "ut_add t m now =
     (if ut_is_disabled t then t
      else if ut_tracks t m then t
      else let (t', i) = ut_ensure_bucket t now; b = ut_buckets t' ! i in
        t'\<lparr>ut_buckets := (ut_buckets t')[i := b\<lparr>bk_ids := hs_insert m (bk_ids b)\<rparr>],
           ut_locator := hm_insert m i (ut_locator t')\<rparr>)"

definition ut_add_with_count ::
    "unacked_tracker \<Rightarrow> message_id \<Rightarrow> nat \<Rightarrow> instant \<Rightarrow> unacked_tracker" where
  "ut_add_with_count t m count now =
     (if ut_is_disabled t then t
      else case ut_backoff t of
        None \<Rightarrow> ut_add t m now
      | Some b \<Rightarrow>
          if ut_tracks t m then t
          else t\<lparr>ut_backoff_pending :=
                 hm_insert m (deadline_with_clamp now (delay_for b count)) (ut_backoff_pending t)\<rparr>)"

definition ut_remove :: "unacked_tracker \<Rightarrow> message_id \<Rightarrow> unacked_tracker" where
  "ut_remove t m =
     (let bs = (case hm_get (ut_locator t) m of
            Some i \<Rightarrow> if i < length (ut_buckets t)
                      then (ut_buckets t)[i := (ut_buckets t ! i)\<lparr>bk_ids := hs_remove m (bk_ids (ut_buckets t ! i))\<rparr>]
                      else ut_buckets t
          | None \<Rightarrow> ut_buckets t)
      in t\<lparr>ut_buckets := bs, ut_locator := hm_remove m (ut_locator t),
           ut_backoff_pending := hm_remove m (ut_backoff_pending t)\<rparr>)"

text \<open>The eviction loop of \<open>poll\<close>: expired buckets leave from the front; empty ones emit nothing.\<close>

fun ut_reap :: "consumer_handle \<Rightarrow> instant \<Rightarrow> bucket list \<Rightarrow> (message_id, nat) hashmap \<Rightarrow>
    bucket list \<times> (message_id, nat) hashmap \<times> unacked_action list" where
  "ut_reap h now [] loc = ([], loc, [])"
| "ut_reap h now (b # bs) loc =
     (if now < bk_deadline b then (b # bs, loc, [])
      else if bk_ids b = [] then ut_reap h now bs loc
      else let (bs', loc', out) = ut_reap h now bs (hm_remove_all (bk_ids b) loc)
           in (bs', loc', RedeliverExpired h (sort (bk_ids b)) # out))"

definition ut_rebuild :: "bucket list \<Rightarrow> (message_id, nat) hashmap" where
  "ut_rebuild bs = fold (\<lambda>(i, b). fold (\<lambda>m. hm_insert m i) (bk_ids b)) (enumerate 0 bs) []"

definition ut_poll :: "unacked_tracker \<Rightarrow> instant \<Rightarrow> unacked_tracker \<times> unacked_action list" where
  "ut_poll t now =
     (if ut_is_disabled t then (t, [])
      else
        let (bs, loc, out) = ut_reap (ut_handle t) now (ut_buckets t) (ut_locator t);
            loc' = (if out = [] then loc else ut_rebuild bs);
            due = due_ids now (ut_backoff_pending t);
            bp = (if due = [] then ut_backoff_pending t else hm_remove_all due (ut_backoff_pending t));
            out' = (if due = [] then out else out @ [RedeliverExpired (ut_handle t) (sort due)])
        in (t\<lparr>ut_buckets := bs, ut_locator := loc', ut_backoff_pending := bp\<rparr>, out'))"

definition ut_next_deadline :: "unacked_tracker \<Rightarrow> instant option" where
  "ut_next_deadline t =
     (case (map_option bk_deadline (case ut_buckets t of [] \<Rightarrow> None | b # bs \<Rightarrow> Some b),
            hm_min_value (ut_backoff_pending t)) of
        (Some a, Some b) \<Rightarrow> Some (min a b)
      | (Some a, None) \<Rightarrow> Some a
      | (None, Some b) \<Rightarrow> Some b
      | (None, None) \<Rightarrow> None)"

lemmas ut_defs [op_defs] = ut_new_def ut_with_backoff_def ut_is_disabled_def ut_ensure_bucket_def
  ut_tracks_def ut_add_def ut_add_with_count_def ut_remove_def ut_poll_def ut_next_deadline_def

section \<open>Invariant\<close>

text \<open>
  The invariant every operation keeps: bucket deadlines strictly increase, each bucket is a set,
  the maps are maps, and a disabled tracker holds nothing. The stronger \<open>ut_located\<close>, that the
  locator names exactly the bucket of every id, is what \<open>remove\<close> relies on.
\<close>

definition ut_inv :: "unacked_tracker \<Rightarrow> bool" where
  "ut_inv t \<longleftrightarrow> sorted_wrt (<) (map bk_deadline (ut_buckets t)) \<and>
     (\<forall>b\<in>set (ut_buckets t). distinct (bk_ids b)) \<and>
     hm_wf (ut_locator t) \<and> hm_wf (ut_backoff_pending t) \<and>
     (ut_is_disabled t \<longrightarrow> ut_buckets t = [] \<and> ut_backoff_pending t = [])"

definition ut_located :: "unacked_tracker \<Rightarrow> bool" where
  "ut_located t \<longleftrightarrow> (\<forall>m i. hm_get (ut_locator t) m = Some i \<longleftrightarrow>
      i < length (ut_buckets t) \<and> m \<in> set (bk_ids (ut_buckets t ! i)))"

lemma hs_simps [simp]:
  "set (hs_insert x xs) = insert x (set xs)" "distinct xs \<Longrightarrow> distinct (hs_insert x xs)"
  "set (hs_remove x xs) = set xs - {x}" "distinct xs \<Longrightarrow> distinct (hs_remove x xs)"
  by (auto simp: hs_insert_def hs_remove_def)

abbreviation expired :: "instant \<Rightarrow> bucket \<Rightarrow> bool" where
  "expired now b \<equiv> bk_deadline b \<le> now"

lemma ut_reap_eq:
  "ut_reap h now bs loc =
     (dropWhile (expired now) bs,
      hm_remove_all (concat (map bk_ids (takeWhile (expired now) bs))) loc,
      map (\<lambda>b. RedeliverExpired h (sort (bk_ids b)))
        (filter (\<lambda>b. bk_ids b \<noteq> []) (takeWhile (expired now) bs)))"
  by (induction bs arbitrary: loc) (auto simp: hm_remove_all_def)

lemma hm_wf_remove_all [simp]: "hm_wf m \<Longrightarrow> hm_wf (hm_remove_all ks m)"
  by (simp add: hm_remove_all_filter)

lemma ut_rebuild_wf_aux:
  "hm_wf acc \<Longrightarrow> hm_wf (fold (\<lambda>m. hm_insert m i) ids acc)"
  by (induction ids arbitrary: acc) auto

lemma ut_rebuild_wf: "hm_wf (ut_rebuild bs)"
proof -
  have "hm_wf acc \<Longrightarrow> hm_wf (fold (\<lambda>(i, b). fold (\<lambda>m. hm_insert m i) (bk_ids b)) ps acc)" for ps acc
    by (induction ps arbitrary: acc) (auto simp: ut_rebuild_wf_aux)
  from this [of "[]"] show ?thesis by (simp add: ut_rebuild_def)
qed

lemma sorted_wrt_dropWhile: "sorted_wrt P xs \<Longrightarrow> sorted_wrt P (dropWhile Q xs)"
  by (metis sorted_wrt_append takeWhile_dropWhile_id)

lemma sorted_wrt_last: "sorted_wrt P xs \<Longrightarrow> x \<in> set xs \<Longrightarrow> x = last xs \<or> P x (last xs)"
  by (induction xs) auto

lemma ut_inv_new [inv_rules]: "ut_inv (ut_new h d)"
  by (simp add: ut_inv_def ut_new_def)

lemma ut_inv_ensure: "ut_inv t \<Longrightarrow> \<not> ut_is_disabled t \<Longrightarrow> ut_inv (fst (ut_ensure_bucket t now))"
proof -
  assume inv: "ut_inv t" and en: "\<not> ut_is_disabled t"
  have "x \<in> set (ut_buckets t) \<Longrightarrow> bk_deadline x \<le> bk_deadline (last (ut_buckets t))" for x
    using inv sorted_wrt_last [of "\<lambda>a b. bk_deadline a < bk_deadline b" "ut_buckets t" x]
    by (auto simp: ut_inv_def sorted_wrt_map)
  then have "bk_deadline x < deadline_with_clamp now (ut_timeout t)"
    if "x \<in> set (ut_buckets t)" and "\<not> now < bk_deadline (last (ut_buckets t))" for x
    using that deadline_gt_base [of "ut_timeout t" now] en
    by (force simp: ut_is_disabled_def)
  with inv en show ?thesis
    by (auto simp: ut_inv_def ut_ensure_bucket_def sorted_wrt_append ut_is_disabled_def)
qed

lemma ut_ensure_index:
  "ut_ensure_bucket t now = (t', i) \<Longrightarrow> i < length (ut_buckets t')"
  by (auto simp: ut_ensure_bucket_def split: if_splits)

lemma map_deadline_update [simp]:
  "map bk_deadline (bs[i := (bs ! i)\<lparr>bk_ids := xs\<rparr>]) = map bk_deadline bs"
  by (cases "i < length bs") (simp_all add: map_update list_update_beyond list_update_same_conv)

lemma ut_inv_add [inv_rules]: "ut_inv t \<Longrightarrow> ut_inv (ut_add t m now)"
proof -
  assume inv: "ut_inv t"
  obtain t' i where e: "ut_ensure_bucket t now = (t', i)" by fastforce
  have d: "ut_is_disabled t' = ut_is_disabled t" 
    using e by (auto simp: ut_ensure_bucket_def ut_is_disabled_def split: if_splits)
  have "ut_inv t'" if "\<not> ut_is_disabled t" using ut_inv_ensure [OF inv that, of now] e by simp
  then show ?thesis
    using inv ut_ensure_index [OF e] d
    by (auto simp: ut_add_def e Let_def ut_inv_def ut_is_disabled_def dest!: set_update_subset_insert [THEN subsetD])
qed

lemma ut_inv_add_with_count [inv_rules]: "ut_inv t \<Longrightarrow> ut_inv (ut_add_with_count t m c now)"
  using ut_inv_add [of t m now]
  by (auto simp: ut_add_with_count_def ut_inv_def ut_is_disabled_def split: option.splits)

lemma ut_inv_remove [inv_rules]: "ut_inv t \<Longrightarrow> ut_inv (ut_remove t m)"
  by (auto simp: ut_remove_def ut_inv_def ut_is_disabled_def Let_def split: option.splits
      dest!: set_update_subset_insert [THEN subsetD])

lemma ut_inv_poll [inv_rules]: "ut_inv t \<Longrightarrow> ut_inv (fst (ut_poll t now))"
  by (auto simp: ut_poll_def ut_inv_def ut_is_disabled_def Let_def ut_reap_eq ut_rebuild_wf
      sorted_wrt_map sorted_wrt_dropWhile remove_due dest: set_dropWhileD)

section \<open>What a tick redelivers\<close>

text \<open>The messages a tracker holds, with their deadlines.\<close>

definition tracked :: "unacked_tracker \<Rightarrow> (message_id \<times> instant) set" where
  "tracked t = {(m, d). \<exists>b\<in>set (ut_buckets t). m \<in> set (bk_ids b) \<and> d = bk_deadline b} \<union>
               {(m, d). hm_get (ut_backoff_pending t) m = Some d}"

fun expired_ids :: "unacked_action list \<Rightarrow> message_id list" where
  "expired_ids [] = []"
| "expired_ids (RedeliverExpired h ms # as) = ms @ expired_ids as"

lemma expired_ids_append [simp]: "expired_ids (as @ bs) = expired_ids as @ expired_ids bs"
  by (induction as rule: expired_ids.induct) auto

lemma expired_ids_map [simp]:
  "set (expired_ids (map (\<lambda>b. RedeliverExpired h (sort (bk_ids b))) bs)) = (\<Union>b\<in>set bs. set (bk_ids b))"
  by (induction bs) auto

lemma sorted_takeWhile_set:
  "sorted_wrt (\<lambda>a b. f a < (f b :: 'b :: linorder)) xs \<Longrightarrow>
     set (takeWhile (\<lambda>x. f x \<le> c) xs) = {x \<in> set xs. f x \<le> c}"
  by (induction xs) force+

lemma sorted_dropWhile_set:
  "sorted_wrt (\<lambda>a b. f a < (f b :: 'b :: linorder)) xs \<Longrightarrow>
     set (dropWhile (\<lambda>x. f x \<le> c) xs) = {x \<in> set xs. c < f x}"
  by (induction xs) force+

lemma ut_poll_buckets:
  assumes "ut_inv t"
  shows "set (ut_buckets (fst (ut_poll t now))) = {b \<in> set (ut_buckets t). now < bk_deadline b}"
  using assms sorted_dropWhile_set [of bk_deadline "ut_buckets t" now]
  by (auto simp: ut_poll_def ut_reap_eq Let_def ut_inv_def sorted_wrt_map)

lemma ut_poll_backoff_pending:
  assumes "ut_inv t"
  shows "hm_get (ut_backoff_pending (fst (ut_poll t now))) m =
     (case hm_get (ut_backoff_pending t) m of
        None \<Rightarrow> None | Some d \<Rightarrow> if now < d then Some d else None)"
proof -
  have wf: "hm_wf (ut_backoff_pending t)" using assms by (simp add: ut_inv_def)
  have "ut_backoff_pending (fst (ut_poll t now)) = filter (\<lambda>(i, d). now < d) (ut_backoff_pending t)"
  proof (cases "due_ids now (ut_backoff_pending t) = []")
    case True
    then have "filter (\<lambda>(i, d). now < d) (ut_backoff_pending t) = ut_backoff_pending t"
      by (auto simp: due_ids_Nil intro!: filter_True)
    with True show ?thesis by (simp add: ut_poll_def ut_reap_eq Let_def)
  next
    case False
    then show ?thesis
      using assms by (auto simp: ut_poll_def ut_reap_eq Let_def remove_due wf ut_inv_def)
  qed
  then show ?thesis by (simp add: hm_get_filter [OF wf] split: option.splits)
qed

lemma ut_poll_expired:
  assumes "ut_inv t"
  shows "set (expired_ids (snd (ut_poll t now))) =
     (\<Union>b\<in>{b \<in> set (ut_buckets t). bk_deadline b \<le> now}. set (bk_ids b)) \<union>
     {m. \<exists>d. hm_get (ut_backoff_pending t) m = Some d \<and> d \<le> now}"
proof -
  have tw: "set (takeWhile (expired now) (ut_buckets t)) = {b \<in> set (ut_buckets t). bk_deadline b \<le> now}"
    using assms by (intro sorted_takeWhile_set) (simp add: ut_inv_def sorted_wrt_map)
  have ne: "(\<Union>b\<in>{b \<in> B. bk_ids b \<noteq> []}. set (bk_ids b)) = (\<Union>b\<in>B. set (bk_ids b))" for B
    by auto
  have "due_ids now (ut_backoff_pending t) = [] \<Longrightarrow>
      {m. \<exists>d. hm_get (ut_backoff_pending t) m = Some d \<and> d \<le> now} = {}"
    using due_ids_set [of "ut_backoff_pending t" now] assms by (simp add: ut_inv_def)
  then show ?thesis
    using assms
    by (auto simp: ut_poll_def ut_reap_eq Let_def tw ne due_ids_set ut_inv_def
        simp del: Collect_empty_eq)
qed

text \<open>
  C20. A tick of the ack-timeout tracker redelivers exactly the messages whose deadline has passed,
  whether they sit in a bucket or under a backoff deadline, forgets them, and keeps exactly the
  others with their deadlines.
\<close>

theorem unacked_poll_redelivers_expired:
  assumes "ut_inv t"
  shows "set (expired_ids (snd (ut_poll t now))) = {m. \<exists>d\<le>now. (m, d) \<in> tracked t} \<and>
         tracked (fst (ut_poll t now)) = {(m, d) \<in> tracked t. now < d}"
proof
  show "set (expired_ids (snd (ut_poll t now))) = {m. \<exists>d\<le>now. (m, d) \<in> tracked t}"
    unfolding ut_poll_expired [OF assms] tracked_def by fastforce
  show "tracked (fst (ut_poll t now)) = {(m, d) \<in> tracked t. now < d}"
    unfolding tracked_def ut_poll_buckets [OF assms] ut_poll_backoff_pending [OF assms]
    by (auto split: option.splits if_splits)
qed

theorem unacked_poll_redelivers_expired_witness:
  "let t = ut_add (ut_add (ut_new 3 10) (MessageId 5 2 0 (-1) 0) 0) (MessageId 5 3 0 (-1) 0) 10 in
     set (expired_ids (snd (ut_poll t 12))) = {m. \<exists>d\<le>12. (m, d) \<in> tracked t} \<and>
     tracked (fst (ut_poll t 12)) = {(m, d) \<in> tracked t. 12 < d}"
  unfolding Let_def
  by (rule unacked_poll_redelivers_expired) (intro inv_rules)

section \<open>The timer contract\<close>

lemma ut_quiet:
  assumes "ut_inv t" and "case ut_next_deadline t of None \<Rightarrow> True | Some d \<Rightarrow> now < d"
  shows "ut_poll t now = (t, [])"
proof -
  have "due_ids now (ut_backoff_pending t) = []"
    using assms(2) by (auto simp: quiet_iff_min ut_next_deadline_def split: option.splits list.splits)
  moreover have "dropWhile (expired now) (ut_buckets t) = ut_buckets t"
      and "takeWhile (expired now) (ut_buckets t) = []"
    using assms(2) by (auto simp: ut_next_deadline_def split: option.splits list.splits)
  ultimately show ?thesis
    by (simp add: ut_poll_def ut_reap_eq hm_remove_all_def)
qed

lemma ut_progress:
  assumes "ut_inv t" and "ut_next_deadline (fst (ut_poll t now)) = Some d"
  shows "now < d"
proof -
  let ?t = "fst (ut_poll t now)"
  have b: "\<And>b. b \<in> set (ut_buckets ?t) \<Longrightarrow> now < bk_deadline b"
    by (simp add: ut_poll_buckets [OF assms(1)])
  have wf: "hm_wf (ut_backoff_pending ?t)"
    using ut_inv_poll [OF assms(1)] by (simp add: ut_inv_def)
  have p: "now < e" if e: "hm_min_value (ut_backoff_pending ?t) = Some e" for e
  proof -
    obtain m where "(m, e) \<in> set (ut_backoff_pending ?t)" using hm_min_value_Some [OF e] by auto
    then have "hm_get (ut_backoff_pending ?t) m = Some e" using hm_get_iff [OF wf] by simp
    then show ?thesis
      by (auto simp: ut_poll_backoff_pending [OF assms(1)] split: option.splits if_splits)
  qed
  show ?thesis using assms(2) b p
    by (auto simp: ut_next_deadline_def split: option.splits list.splits)
qed

interpretation unacked_timer: timer_source ut_inv ut_poll ut_next_deadline
  by unfold_locales (auto intro: ut_inv_poll ut_quiet ut_progress)

section \<open>The locator\<close>

lemma ut_located_new: "ut_located (ut_new h d)"
  by (simp add: ut_located_def ut_new_def)

lemma ut_located_ensure:
  "ut_located t \<Longrightarrow> ut_located (fst (ut_ensure_bucket t now))"
  by (auto simp: ut_located_def ut_ensure_bucket_def nth_append less_Suc_eq)

lemma ut_ensure_locator:
  "ut_ensure_bucket t now = (t', i) \<Longrightarrow> ut_locator t' = ut_locator t"
  by (auto simp: ut_ensure_bucket_def split: if_splits)

lemma ut_located_add: "ut_located t \<Longrightarrow> ut_located (ut_add t m now)"
proof -
  assume loc: "ut_located t"
  obtain t' i where e: "ut_ensure_bucket t now = (t', i)" by fastforce
  have loc': "ut_located t'" using ut_located_ensure [OF loc, of now] e by simp
  show ?thesis
  proof (cases "ut_is_disabled t \<or> ut_tracks t m")
    case True
    then show ?thesis using loc by (auto simp: ut_add_def)
  next
    case False
    have none: "hm_get (ut_locator t') m = None"
      using False ut_ensure_locator [OF e] by (simp add: ut_tracks_def hm_contains_def)
    have "\<not> (j < length (ut_buckets t') \<and> m \<in> set (bk_ids (ut_buckets t' ! j)))" for j
      using loc' none unfolding ut_located_def by (metis option.distinct(1))
    with loc' False ut_ensure_index [OF e] show ?thesis
      by (auto simp: ut_add_def e Let_def ut_located_def nth_list_update)
  qed
qed

lemma ut_located_remove: "ut_located t \<Longrightarrow> ut_located (ut_remove t m)"
proof (cases "hm_get (ut_locator t) m")
  case None
  assume loc: "ut_located t"
  then have "\<not> (i < length (ut_buckets t) \<and> m \<in> set (bk_ids (ut_buckets t ! i)))" for i
    using None unfolding ut_located_def by (metis option.distinct(1))
  with loc None show ?thesis by (auto simp: ut_located_def ut_remove_def)
next
  case (Some j)
  assume loc: "ut_located t"
  then have j: "i < length (ut_buckets t) \<and> m \<in> set (bk_ids (ut_buckets t ! i)) \<Longrightarrow> i = j" for i
    using Some unfolding ut_located_def by (metis option.inject)
  have len: "j < length (ut_buckets t)" using loc Some by (simp add: ut_located_def)
  then have "ut_remove t m = t\<lparr>
      ut_buckets := (ut_buckets t)[j := (ut_buckets t ! j)\<lparr>bk_ids := hs_remove m (bk_ids (ut_buckets t ! j))\<rparr>],
      ut_locator := hm_remove m (ut_locator t), ut_backoff_pending := hm_remove m (ut_backoff_pending t)\<rparr>"
    using Some by (simp add: ut_remove_def)
  moreover have "i = j" if "i < length (ut_buckets t)" "m \<in> set (bk_ids (ut_buckets t ! i))" for i
    using j that by blast
  ultimately show ?thesis using loc len unfolding ut_located_def
    by (intro allI) (auto simp: nth_list_update)
qed

lemma bex_bucket: "k \<in> (\<Union>b\<in>set bs. set (bk_ids b)) \<longleftrightarrow> (\<exists>i<length bs. k \<in> set (bk_ids (bs ! i)))"
  by (metis UN_iff in_set_conv_nth)

lemma located_ids:
  "ut_located t \<Longrightarrow> k \<in> (\<Union>b\<in>set (ut_buckets t). set (bk_ids b)) \<longleftrightarrow> hm_get (ut_locator t) k \<noteq> None"
  unfolding bex_bucket by (auto simp: ut_located_def)

lemma fold_insert_get:
  "hm_get (fold (\<lambda>m. hm_insert m i) ids acc) k = (if k \<in> set ids then Some i else hm_get acc k)"
  by (induction ids arbitrary: acc) auto

lemma ut_rebuild_snoc:
  "hm_get (ut_rebuild (bs @ [b])) m =
     (if m \<in> set (bk_ids b) then Some (length bs) else hm_get (ut_rebuild bs) m)"
  by (simp add: ut_rebuild_def enumerate_append_eq fold_insert_get)

lemma ut_rebuild_Some:
  "hm_get (ut_rebuild bs) m = Some i \<Longrightarrow> i < length bs \<and> m \<in> set (bk_ids (bs ! i))"
  by (induction bs rule: rev_induct)
    (auto simp: ut_rebuild_snoc nth_append ut_rebuild_def [of "[]"] split: if_splits)

lemma ut_rebuild_get:
  "i < length bs \<Longrightarrow> m \<in> set (bk_ids (bs ! i)) \<Longrightarrow> hm_get (ut_rebuild bs) m \<noteq> None"
  by (induction bs rule: rev_induct) (auto simp: ut_rebuild_snoc nth_append less_Suc_eq)

text \<open>After a rebuild the locator is right, provided no id was in two buckets before.\<close>

lemma ut_located_rebuild:
  assumes "\<And>m i j. i < length (ut_buckets t) \<Longrightarrow> j < length (ut_buckets t) \<Longrightarrow>
      m \<in> set (bk_ids (ut_buckets t ! i)) \<Longrightarrow> m \<in> set (bk_ids (ut_buckets t ! j)) \<Longrightarrow> i = j"
    and "ut_locator t = ut_rebuild (ut_buckets t)"
  shows "ut_located t"
  unfolding ut_located_def assms(2)
  using ut_rebuild_Some ut_rebuild_get assms(1) by (metis option.exhaust)

lemma ut_located_disjoint:
  "ut_located t \<Longrightarrow> i < length (ut_buckets t) \<Longrightarrow> j < length (ut_buckets t) \<Longrightarrow>
     m \<in> set (bk_ids (ut_buckets t ! i)) \<Longrightarrow> m \<in> set (bk_ids (ut_buckets t ! j)) \<Longrightarrow> i = j"
  unfolding ut_located_def by (metis option.inject)

text \<open>
  \<open>poll\<close> keeps the locator right in two cases: it evicts no bucket, or it evicts one that is not
  empty. The remaining case, where all evicted buckets are empty, is the defect stated below.
\<close>

lemma ut_located_poll:
  assumes loc: "ut_located t"
    and ev: "takeWhile (expired now) (ut_buckets t) = [] \<or>
             (\<exists>b\<in>set (takeWhile (expired now) (ut_buckets t)). bk_ids b \<noteq> [])"
  shows "ut_located (fst (ut_poll t now))"
proof (cases "ut_is_disabled t \<or> takeWhile (expired now) (ut_buckets t) = []")
  case True
  moreover have "dropWhile (expired now) (ut_buckets t) = ut_buckets t"
    if "takeWhile (expired now) (ut_buckets t) = []"
    using that by (metis append_Nil takeWhile_dropWhile_id)
  ultimately show ?thesis
    using loc by (auto simp: ut_poll_def ut_reap_eq Let_def ut_located_def hm_remove_all_def)
next
  case False
  let ?n = "length (takeWhile (expired now) (ut_buckets t))"
  have ids: "dropWhile (expired now) (ut_buckets t) = drop ?n (ut_buckets t)"
    by (simp add: dropWhile_eq_drop)
  have ne: "filter (\<lambda>b. bk_ids b \<noteq> []) (takeWhile (expired now) (ut_buckets t)) \<noteq> []"
    using ev False by (auto simp: filter_empty_conv)
  have "ut_buckets (fst (ut_poll t now)) = drop ?n (ut_buckets t)"
    and "ut_locator (fst (ut_poll t now)) = ut_rebuild (drop ?n (ut_buckets t))"
    using False ne by (auto simp: ut_poll_def ut_reap_eq Let_def ids)
  moreover have "i = j" if "i < length (ut_buckets t) - ?n" "j < length (ut_buckets t) - ?n"
      "m \<in> set (bk_ids (ut_buckets t ! (?n + i)))" "m \<in> set (bk_ids (ut_buckets t ! (?n + j)))" for m i j
    using ut_located_disjoint [OF loc, of "?n + i" "?n + j" m] that by simp
  ultimately show ?thesis
    by (intro ut_located_rebuild) auto
qed

text \<open>The ids that a later \<open>poll\<close> can still redeliver.\<close>

definition ut_redeliverable :: "unacked_tracker \<Rightarrow> message_id set" where
  "ut_redeliverable t =
     (\<Union>b\<in>set (ut_buckets t). set (bk_ids b)) \<union> set (hm_keys (ut_backoff_pending t))"

text \<open>
  C21. Acknowledging a message stops its redelivery, as long as the locator names the bucket of
  every tracked id (a new tracker does, and every operation keeps it except a poll that evicts
  only empty buckets): after \<open>remove\<close> the acknowledged id is exactly what is no longer
  redeliverable, every other id stays, and the locator is still right.
\<close>

theorem unacked_remove_stops_redelivery:
  assumes "ut_located t"
  shows "ut_redeliverable (ut_remove t m) = ut_redeliverable t - {m} \<and> ut_located (ut_remove t m)"
proof -
  have "ut_locator (ut_remove t m) = hm_remove m (ut_locator t)"
    by (simp add: ut_remove_def)
  then have b: "(\<Union>b\<in>set (ut_buckets (ut_remove t m)). set (bk_ids b)) =
      (\<Union>b\<in>set (ut_buckets t). set (bk_ids b)) - {m}"
    using located_ids [OF ut_located_remove [OF assms]] located_ids [OF assms]
    by (intro set_eqI) simp
  have "set (hm_keys (ut_backoff_pending (ut_remove t m))) = set (hm_keys (ut_backoff_pending t)) - {m}"
    by (intro set_eqI) (simp add: hm_contains_keys [symmetric] hm_contains_def ut_remove_def)
  with b show ?thesis using ut_located_remove [OF assms] by (auto simp: ut_redeliverable_def)
qed

theorem unacked_remove_stops_redelivery_witness:
  "ut_redeliverable (ut_remove (ut_add (ut_new 3 10) (MessageId 7 2 (-1) (-1) 0) 0) (MessageId 7 2 (-1) (-1) 0)) = {}"
proof -
  have "ut_located (ut_add (ut_new 3 10) (MessageId 7 2 (-1) (-1) 0) 0)"
    by (rule ut_located_add [OF ut_located_new])
  from unacked_remove_stops_redelivery [OF this, of "MessageId 7 2 (-1) (-1) 0"] show ?thesis
    by (simp add: ut_redeliverable_def ut_defs hm_contains_def hs_insert_def hm_keys_def)
qed


end
