(* ===== verification/Receiver_Queue.thy ===== *)
theory Receiver_Queue
  imports Magnetar_Prelude
begin

text \<open>
  The receiver-queue policies of \<open>crates/magnetar-proto/src/receiver_queue.rs\<close>: the constant one and
  the auto-scaled one, which grows on starvation and is capped by a byte budget. A policy call that
  panics (\<open>Ord::clamp\<close> with crossed bounds) is the value \<open>None\<close>. The receive rate of \<open>FlowStats\<close>, a
  float that no policy reads, is left out.
\<close>

definition DEFAULT_RECEIVER_QUEUE_SIZE :: nat where "DEFAULT_RECEIVER_QUEUE_SIZE = 1000"

record flow_stats =
  fs_current_queue_size :: nat
  fs_queued_messages :: nat
  fs_available_permits :: nat
  fs_avg_message_bytes :: nat
  fs_in_flight_bytes :: nat
  fs_partitions :: nat

text \<open>The two built-in implementations of the trait.\<close>

datatype queue_policy = Fixed nat | Auto (auto_min: nat) (auto_max_bytes: nat)

definition ABSOLUTE_MAX :: nat where "ABSOLUTE_MAX = 1000000"

definition auto_new :: "nat \<Rightarrow> nat \<Rightarrow> queue_policy" where
  "auto_new mn max_bytes = Auto (max mn 1) max_bytes"

definition per_partition_budget :: "nat \<Rightarrow> flow_stats \<Rightarrow> nat" where
  "per_partition_budget max_bytes flow = max (max_bytes div max (fs_partitions flow) 1) 1"

definition byte_budget_cap :: "nat \<Rightarrow> nat \<Rightarrow> flow_stats \<Rightarrow> nat option" where
  "byte_budget_cap mn max_bytes flow =
     (let per_partition = per_partition_budget max_bytes flow in
      if fs_avg_message_bytes flow = 0 then Some ABSOLUTE_MAX
      else rust_clamp (per_partition div fs_avg_message_bytes flow) mn ABSOLUTE_MAX)"

definition auto_adjust :: "nat \<Rightarrow> nat \<Rightarrow> flow_stats \<Rightarrow> nat option" where
  "auto_adjust mn max_bytes flow =
     (let current = max (max (fs_current_queue_size flow) mn) 1 in
      case byte_budget_cap mn max_bytes flow of
        None \<Rightarrow> None
      | Some cap \<Rightarrow>
          if fs_in_flight_bytes flow \<ge> per_partition_budget max_bytes flow
          then let shrunk = max (current div 2) mn in Some (max (min shrunk cap) mn)
          else if fs_available_permits flow = 0
          then rust_clamp (sat_mul USIZE_MAX current 2) mn cap
          else rust_clamp current mn cap)"

fun policy_initial :: "queue_policy \<Rightarrow> nat" where
  "policy_initial (Fixed n) = n"
| "policy_initial (Auto mn max_bytes) = max mn 1"

fun policy_adjust :: "queue_policy \<Rightarrow> flow_stats \<Rightarrow> nat option" where
  "policy_adjust (Fixed n) flow = Some n"
| "policy_adjust (Auto mn max_bytes) flow = auto_adjust mn max_bytes flow"

definition default_policy :: queue_policy where
  "default_policy = Fixed DEFAULT_RECEIVER_QUEUE_SIZE"

section \<open>The contract of a policy\<close>

text \<open>
  A policy that never panics and keeps its target between two bounds; the connection feeds every
  target back as the current size of the next tick.
\<close>

locale bounded_policy =
  fixes adjust :: "flow_stats \<Rightarrow> nat option" and initial lo hi :: nat
  assumes initial_bounds: "lo \<le> initial \<and> initial \<le> hi"
    and adjust_bounds: "\<exists>t. adjust flow = Some t \<and> lo \<le> t \<and> t \<le> hi"
begin

fun ticks :: "nat \<Rightarrow> flow_stats list \<Rightarrow> nat option" where
  "ticks target [] = Some target"
| "ticks target (f # fs) =
     (case adjust (f\<lparr>fs_current_queue_size := target\<rparr>) of None \<Rightarrow> None | Some t \<Rightarrow> ticks t fs)"

lemma ticks_bounds: "lo \<le> target \<Longrightarrow> target \<le> hi \<Longrightarrow> \<exists>t. ticks target fs = Some t \<and> lo \<le> t \<and> t \<le> hi"
proof (induction fs arbitrary: target)
  case Nil
  then show ?case by simp
next
  case (Cons f fs)
  obtain t where "adjust (f\<lparr>fs_current_queue_size := target\<rparr>) = Some t" "lo \<le> t" "t \<le> hi"
    using adjust_bounds by blast
  then show ?case using Cons.IH by simp
qed

lemma ticks_from_initial: "\<exists>t. ticks initial fs = Some t \<and> lo \<le> t \<and> t \<le> hi"
  using initial_bounds ticks_bounds by simp

end

interpretation fixed_bounded: bounded_policy "policy_adjust (Fixed n)" "policy_initial (Fixed n)" n n
  for n
  by unfold_locales simp_all

lemma byte_budget_cap_bounds:
  assumes "mn \<le> ABSOLUTE_MAX"
  shows "\<exists>cap. byte_budget_cap mn max_bytes flow = Some cap \<and> mn \<le> cap \<and> cap \<le> ABSOLUTE_MAX \<and>
    (fs_avg_message_bytes flow \<noteq> 0 \<longrightarrow> cap = mn \<or>
       cap * fs_avg_message_bytes flow \<le> per_partition_budget max_bytes flow)"
proof (cases "fs_avg_message_bytes flow = 0")
  case True
  then show ?thesis using assms by (simp add: byte_budget_cap_def)
next
  case False
  let ?q = "per_partition_budget max_bytes flow div fs_avg_message_bytes flow"
  have "byte_budget_cap mn max_bytes flow = Some (max mn (min ?q ABSOLUTE_MAX))"
    using False assms by (simp add: byte_budget_cap_def rust_clamp_def)
  moreover have "min ?q ABSOLUTE_MAX * fs_avg_message_bytes flow \<le> per_partition_budget max_bytes flow"
    by (rule order_trans [OF mult_le_mono1 [OF min.cobounded1]]) (rule div_times_less_eq_dividend)
  ultimately show ?thesis using assms by (auto simp: max_def)
qed

lemma auto_adjust_cap:
  assumes "mn \<le> ABSOLUTE_MAX" and "byte_budget_cap mn max_bytes flow = Some cap" "mn \<le> cap"
  shows "\<exists>t. auto_adjust mn max_bytes flow = Some t \<and> mn \<le> t \<and> t \<le> cap \<and>
    t \<le> 2 * max (max (fs_current_queue_size flow) mn) 1"
proof -
  define c where "c = max (max (fs_current_queue_size flow) mn) 1"
  have c: "0 < c" "mn \<le> c" by (simp_all add: c_def)
  let ?oom = "fs_in_flight_bytes flow \<ge> per_partition_budget max_bytes flow"
  have e: "auto_adjust mn max_bytes flow =
      (if ?oom then Some (max (min (max (c div 2) mn) cap) mn)
       else if fs_available_permits flow = 0 then rust_clamp (sat_mul USIZE_MAX c 2) mn cap
       else rust_clamp c mn cap)"
    by (simp only: auto_adjust_def Let_def assms(2) option.case c_def [symmetric])
  have clamp: "\<exists>t. rust_clamp x mn cap = Some t \<and> mn \<le> t \<and> t \<le> cap \<and> t \<le> 2 * c" if "x \<le> 2 * c" for x
    using assms(3) c that by (simp add: rust_clamp_def)
  have "max (min (max (c div 2) mn) cap) mn \<le> 2 * c" "max (min (max (c div 2) mn) cap) mn \<le> cap"
    using assms(3) c by linarith+
  then show ?thesis
    unfolding e c_def [symmetric] using clamp [of "sat_mul USIZE_MAX c 2"] clamp [of c] c
    by (simp add: sat_mul_def)
qed

text \<open>
  C39. The auto-scaled queue is bounded in memory and never panics for a floor up to the absolute
  maximum: every adjustment yields a target between the floor and a million that is at most twice
  the previous one, and once message sizes are known the target is the floor or its messages fit,
  at the mean size, into the byte budget of the partition.
\<close>

theorem auto_adjust_bounded:
  assumes "mn \<le> ABSOLUTE_MAX"
  shows "\<exists>t. policy_adjust (Auto mn max_bytes) flow = Some t \<and> mn \<le> t \<and> t \<le> ABSOLUTE_MAX \<and>
    t \<le> 2 * max (max (fs_current_queue_size flow) mn) 1 \<and>
    (fs_avg_message_bytes flow \<noteq> 0 \<longrightarrow> t = mn \<or>
       t * fs_avg_message_bytes flow \<le> per_partition_budget max_bytes flow)"
proof -
  obtain cap where cap: "byte_budget_cap mn max_bytes flow = Some cap" "mn \<le> cap" "cap \<le> ABSOLUTE_MAX"
    and fit: "fs_avg_message_bytes flow \<noteq> 0 \<longrightarrow> cap = mn \<or>
       cap * fs_avg_message_bytes flow \<le> per_partition_budget max_bytes flow"
    using byte_budget_cap_bounds [OF assms] by blast
  obtain t where t: "auto_adjust mn max_bytes flow = Some t" "mn \<le> t" "t \<le> cap"
      "t \<le> 2 * max (max (fs_current_queue_size flow) mn) 1"
    using auto_adjust_cap [OF assms cap(1,2)] by blast
  have "t * fs_avg_message_bytes flow \<le> cap * fs_avg_message_bytes flow"
    using t(3) by (rule mult_le_mono1)
  then have "fs_avg_message_bytes flow \<noteq> 0 \<longrightarrow> t = mn \<or>
      t * fs_avg_message_bytes flow \<le> per_partition_budget max_bytes flow"
    using fit t(2,3) by (metis order_antisym order_trans)
  then show ?thesis using t cap(3) by (intro exI [of _ t]) simp
qed

theorem auto_adjust_bounded_witness:
  "let flow = \<lparr>fs_current_queue_size = 64, fs_queued_messages = 3, fs_available_permits = 0,
       fs_avg_message_bytes = 1000, fs_in_flight_bytes = 5000, fs_partitions = 4\<rparr>
   in \<exists>t. policy_adjust (Auto 10 200000) flow = Some t \<and> 10 \<le> t \<and> t \<le> ABSOLUTE_MAX \<and>
     t \<le> 2 * max (max 64 10) 1 \<and> (t = 10 \<or> t * 1000 \<le> per_partition_budget 200000 flow)"
  using auto_adjust_bounded [of 10 200000 "\<lparr>fs_current_queue_size = 64, fs_queued_messages = 3,
      fs_available_permits = 0, fs_avg_message_bytes = 1000, fs_in_flight_bytes = 5000, fs_partitions = 4\<rparr>"]
  by (simp add: ABSOLUTE_MAX_def)

interpretation auto_bounded:
  bounded_policy "policy_adjust (Auto (max 1 (min mn ABSOLUTE_MAX)) max_bytes)"
    "policy_initial (Auto (max 1 (min mn ABSOLUTE_MAX)) max_bytes)" "max 1 (min mn ABSOLUTE_MAX)" ABSOLUTE_MAX
  for mn max_bytes
proof
  have le: "max 1 (min mn ABSOLUTE_MAX) \<le> ABSOLUTE_MAX" by (simp add: ABSOLUTE_MAX_def)
  then show "max 1 (min mn ABSOLUTE_MAX) \<le> policy_initial (Auto (max 1 (min mn ABSOLUTE_MAX)) max_bytes) \<and>
      policy_initial (Auto (max 1 (min mn ABSOLUTE_MAX)) max_bytes) \<le> ABSOLUTE_MAX" by simp
  fix flow
  obtain cap where "byte_budget_cap (max 1 (min mn ABSOLUTE_MAX)) max_bytes flow = Some cap"
      "max 1 (min mn ABSOLUTE_MAX) \<le> cap" "cap \<le> ABSOLUTE_MAX"
    using byte_budget_cap_bounds [OF le] by blast
  note cap = this
  obtain t where t: "auto_adjust (max 1 (min mn ABSOLUTE_MAX)) max_bytes flow = Some t"
      "max 1 (min mn ABSOLUTE_MAX) \<le> t" "t \<le> cap"
    using auto_adjust_cap [OF le cap(1,2)] by blast
  have "policy_adjust (Auto (max 1 (min mn ABSOLUTE_MAX)) max_bytes) flow = Some t"
    using t(1) by (simp only: policy_adjust.simps)
  with t(2) order_trans [OF t(3) cap(3)]
  show "\<exists>t. policy_adjust (Auto (max 1 (min mn ABSOLUTE_MAX)) max_bytes) flow = Some t \<and>
      max 1 (min mn ABSOLUTE_MAX) \<le> t \<and> t \<le> ABSOLUTE_MAX" by blast
qed

section \<open>Growth under starvation\<close>

text \<open>The target after \<open>n\<close> ticks that all see the same flow, each with the latest target.\<close>

fun adjust_ticks :: "nat \<Rightarrow> queue_policy \<Rightarrow> flow_stats \<Rightarrow> nat \<Rightarrow> nat option" where
  "adjust_ticks 0 p flow target = Some target"
| "adjust_ticks (Suc n) p flow target =
     (case policy_adjust p (flow\<lparr>fs_current_queue_size := target\<rparr>) of
        None \<Rightarrow> None | Some t \<Rightarrow> adjust_ticks n p flow t)"

lemma byte_budget_cap_current:
  "byte_budget_cap mn mb (flow\<lparr>fs_current_queue_size := t\<rparr>) = byte_budget_cap mn mb flow"
  "per_partition_budget mb (flow\<lparr>fs_current_queue_size := t\<rparr>) = per_partition_budget mb flow"
  by (simp_all add: byte_budget_cap_def per_partition_budget_def)

lemma starving_tick:
  assumes "byte_budget_cap mn mb flow = Some cap" "mn \<le> cap" "cap \<le> ABSOLUTE_MAX"
    and "fs_available_permits flow = 0" "fs_in_flight_bytes flow < per_partition_budget mb flow"
    and "0 < t" "mn \<le> t" "t \<le> cap"
  shows "policy_adjust (Auto mn mb) (flow\<lparr>fs_current_queue_size := t\<rparr>) = Some (min cap (2 * t))"
  using assms
  by (auto simp: auto_adjust_def Let_def byte_budget_cap_current rust_clamp_def sat_mul_def
      ABSOLUTE_MAX_def max_def min_def)

text \<open>
  A starving consumer with free byte budget is served fast and without oscillation: tick by
  tick the target doubles until it reaches the cap of the byte budget, and from then on it stays
  there.
\<close>

theorem auto_grows_to_cap:
  assumes "byte_budget_cap mn mb flow = Some cap" "mn \<le> cap" "cap \<le> ABSOLUTE_MAX"
    and "fs_available_permits flow = 0" "fs_in_flight_bytes flow < per_partition_budget mb flow"
    and "0 < t" "mn \<le> t" "t \<le> cap"
  shows "adjust_ticks n (Auto mn mb) flow t = Some (min cap (2 ^ n * t))"
  using assms(6-8)
proof (induction n arbitrary: t)
  case 0
  then show ?case by simp
next
  case (Suc n)
  have "adjust_ticks (Suc n) (Auto mn mb) flow t = adjust_ticks n (Auto mn mb) flow (min cap (2 * t))"
    using starving_tick [OF assms(1-5) Suc.prems] by simp
  also have "\<dots> = Some (min cap (2 ^ n * min cap (2 * t)))"
    by (rule Suc.IH) (use Suc.prems in auto)
  also have "min cap (2 ^ n * min cap (2 * t)) = min cap (2 ^ Suc n * t)"
  proof -
    have a: "cap \<le> 2 ^ n * cap" "2 * t \<le> 2 ^ Suc n * t" by simp_all
    show ?thesis
    proof (cases "cap \<le> 2 * t")
      case True
      then show ?thesis using a order_trans [OF True a(2)] by (simp only: min_absorb1)
    next
      case False
      then have "min cap (2 * t) = 2 * t" by simp
      then show ?thesis by (simp only: power_Suc2 mult.assoc)
    qed
  qed
  finally show ?case .
qed

text \<open>
  C40. A floor above the absolute maximum makes the policy panic: \<open>Auto::new\<close> accepts it, and as soon
  as the mean message size is known every adjustment calls \<open>clamp\<close> with its bounds crossed.
\<close>

theorem auto_panics_above_absolute_max:
  assumes "ABSOLUTE_MAX < mn" and "fs_avg_message_bytes flow \<noteq> 0"
  shows "policy_adjust (auto_new mn max_bytes) flow = None"
proof -
  have "ABSOLUTE_MAX < max mn 1" using assms(1) by simp
  then show ?thesis
    using assms(2) by (simp add: auto_new_def auto_adjust_def byte_budget_cap_def rust_clamp_def Let_def)
qed

theorem auto_panics_above_absolute_max_witness:
  "policy_adjust (auto_new 2000000 1000) \<lparr>fs_current_queue_size = 64, fs_queued_messages = 3,
     fs_available_permits = 5, fs_avg_message_bytes = 1000, fs_in_flight_bytes = 5000, fs_partitions = 4\<rparr> = None"
  by (rule auto_panics_above_absolute_max) (simp_all add: ABSOLUTE_MAX_def)

end
