(* ===== verification/Consumer.thy ===== *)
theory Consumer
  imports Compression Ack_Path Ack_Tracker Unacked_Tracker Receiver_Queue
begin

text \<open>
  The consumer state machine, \<open>crates/magnetar-proto/src/consumer.rs\<close>: delivery of plain, batched and
  chunked messages, dead-lettering, flow-control permits, the stall watchdog, the auto-scaled
  receiver queue, seek and close. The protobuf decoder of the per-message header and the compression
  codecs are parameters. The slots of the waker slabs are chosen by a library and are arguments.
  Receive rates (floats), the subscribe and close handshakes and the fields of the scalable-topics
  feature are left out; the latency histogram is the list of recorded values.
\<close>

section \<open>Data\<close>

record broker_entry =
  be_broker_timestamp :: "nat option"
  be_index :: "nat option"

record incoming_message =
  im_message_id :: message_id
  im_metadata :: message_metadata
  im_single :: "single_metadata option"
  im_payload :: bytes
  im_redelivery_count :: nat
  im_broker_entry :: "broker_entry option"
  im_arrived_at :: instant

record command_message =
  cm_consumer_id :: nat
  cm_message_id :: message_id_data
  cm_redelivery_count :: "nat option"
  cm_ack_set :: "int list"

datatype command_flow = CommandFlow (cf_consumer_id: nat) (cf_message_permits: nat)

record stall_watch =
  sw_mark :: nat
  sw_since :: instant
  sw_reported :: bool

record chunk_buffer =
  cb_expected_chunks :: int
  cb_received_chunks :: int
  cb_received_at :: instant
  cb_payloads :: "(int, bytes) hashmap"
  cb_first_metadata :: message_metadata
  cb_first_chunk_message_id :: "message_id option"
  cb_broker_entry :: "broker_entry option"
  cb_redelivery_count :: nat

datatype deliver_outcome = Delivered nat | Buffered | Dropped

datatype consumer_error = ConsumerClosed | UnknownConsumer nat

definition DEFAULT_MAX_PENDING_CHUNKED_MESSAGE :: nat where "DEFAULT_MAX_PENDING_CHUNKED_MESSAGE = 10"
definition ACTIVE_CHANGES_CAP :: nat where "ACTIVE_CHANGES_CAP = 32"
definition DEFAULT_EXPIRE_CHUNKS :: duration where "DEFAULT_EXPIRE_CHUNKS = from_secs 60"
definition MAX_CHUNK_TOTAL :: int where "MAX_CHUNK_TOTAL = 10000"
definition MAX_BUFFERED_CHUNK_BYTES :: nat where "MAX_BUFFERED_CHUNK_BYTES = 128 * 1024 * 1024"

text \<open>The acks held back by an open transaction: its own table, the batches it was seeded with, the requests.\<close>

record pending_txn_acks =
  pt_batch_ack_tracker :: batch_table
  pt_seeded_batch_keys :: "batch_key list"
  pt_acknowledgements :: "(ack_request \<times> message_id_data list option) list"

text \<open>\<open>cr_woken\<close> lists the wakers called so far; the code keeps no such list.\<close>

record consumer =
  cr_handle :: consumer_handle
  cr_receiver_queue_size :: nat
  cr_policy :: queue_policy
  cr_queued_bytes :: nat
  cr_adjust_interval :: "duration option"
  cr_last_adjust_at :: "instant option"
  cr_granted_permits :: nat
  cr_permit_balance :: nat
  cr_manual_flow_permits :: nat
  cr_dispatch_units_received :: nat
  cr_stall_watch :: "stall_watch option"
  cr_stall_recovery_attempts :: nat
  cr_consumed_since_flow :: nat
  cr_queue :: "incoming_message list"
  cr_chunk_reassembly :: "(string, chunk_buffer) hashmap"
  cr_chunk_reassembly_order :: "string list"
  cr_chunk_buffered_bytes :: nat
  cr_max_pending_chunked_message :: nat
  cr_auto_ack_oldest :: bool
  cr_expire_time :: "duration option"
  cr_chunk_auto_ack_pending :: "message_id list"
  cr_pending_seek :: "request_id option"
  cr_receive_wakers :: "(nat, waker) hashmap"
  cr_closed :: bool
  cr_terminal_failure :: "string option"
  cr_flow_on_subscribe_ack :: bool
  cr_initial_grant_due :: bool
  cr_max_redeliver_count :: nat
  cr_dead_letter_pending :: "incoming_message list"
  cr_paused :: bool
  cr_reached_end_of_topic :: bool
  cr_total_msgs_received :: nat
  cr_total_bytes_received :: nat
  cr_total_acks_sent :: nat
  cr_total_acks_failed :: nat
  cr_total_msgs_dead_lettered :: nat
  cr_total_chunked_msgs_received :: nat
  cr_nack_tracker :: "nack_tracker option"
  cr_unacked_tracker :: "unacked_tracker option"
  cr_batch_ack_tracker :: batch_table
  cr_pending_transactional_acks :: "(txn_id, pending_txn_acks) hashmap"
  cr_ack_tracker :: "ack_tracker option"
  cr_receive_latency_hist :: "nat list option"
  cr_is_active :: "bool option"
  cr_active_changes :: "bool list"
  cr_active_change_wakers :: "(nat, waker) hashmap"
  cr_woken :: "waker list"

record cons_env =
  ce_dec_single :: "bytes \<Rightarrow> single_metadata option"
  ce_codecs :: codecs

definition with_policy :: "consumer_handle \<Rightarrow> queue_policy \<Rightarrow> duration option \<Rightarrow> consumer" where
  "with_policy h policy interval = \<lparr>cr_handle = h, cr_receiver_queue_size = policy_initial policy,
     cr_policy = policy, cr_queued_bytes = 0, cr_adjust_interval = interval, cr_last_adjust_at = None,
     cr_granted_permits = 0, cr_permit_balance = 0, cr_manual_flow_permits = 0,
     cr_dispatch_units_received = 0, cr_stall_watch = None, cr_stall_recovery_attempts = 0,
     cr_consumed_since_flow = 0, cr_queue = [], cr_chunk_reassembly = [], cr_chunk_reassembly_order = [],
     cr_chunk_buffered_bytes = 0, cr_max_pending_chunked_message = DEFAULT_MAX_PENDING_CHUNKED_MESSAGE,
     cr_auto_ack_oldest = False, cr_expire_time = Some DEFAULT_EXPIRE_CHUNKS, cr_chunk_auto_ack_pending = [],
     cr_pending_seek = None, cr_receive_wakers = [], cr_closed = False, cr_terminal_failure = None,
     cr_flow_on_subscribe_ack = False, cr_initial_grant_due = False, cr_max_redeliver_count = 0,
     cr_dead_letter_pending = [], cr_paused = False, cr_reached_end_of_topic = False,
     cr_total_msgs_received = 0, cr_total_bytes_received = 0, cr_total_acks_sent = 0, cr_total_acks_failed = 0,
     cr_total_msgs_dead_lettered = 0, cr_total_chunked_msgs_received = 0, cr_nack_tracker = None,
     cr_unacked_tracker = None, cr_batch_ack_tracker = [], cr_pending_transactional_acks = [], cr_ack_tracker = None,
     cr_receive_latency_hist = Some [], cr_is_active = None, cr_active_changes = [],
     cr_active_change_wakers = [], cr_woken = []\<rparr>"

definition cr_new :: "consumer_handle \<Rightarrow> nat \<Rightarrow> consumer" where
  "cr_new h receiver_queue_size = with_policy h (Fixed receiver_queue_size) None"

section \<open>Permits\<close>

definition flow_threshold :: "consumer \<Rightarrow> nat" where
  "flow_threshold c = as_u32 (max (cr_receiver_queue_size c div 2) 1)"

definition is_flow_starved :: "consumer \<Rightarrow> bool" where
  "is_flow_starved c \<longleftrightarrow> cr_permit_balance c = 0 \<and>
     sat_add USIZE_MAX (cr_consumed_since_flow c) (length (cr_queue c)) < flow_threshold c"

definition clear_stall_watch :: "consumer \<Rightarrow> consumer" where
  "clear_stall_watch c = c\<lparr>cr_stall_watch := None\<rparr>"

definition arm_stall_watch :: "instant \<Rightarrow> consumer \<Rightarrow> consumer" where
  "arm_stall_watch now c =
     c\<lparr>cr_stall_watch := Some \<lparr>sw_mark = cr_dispatch_units_received c, sw_since = now, sw_reported = False\<rparr>\<rparr>"

definition maybe_flow :: "consumer \<Rightarrow> consumer \<times> command_flow option" where
  "maybe_flow c =
     (if cr_closed c \<or> cr_pending_seek c \<noteq> None \<or> cr_paused c \<or> cr_receiver_queue_size c = 0 then (c, None)
      else if cr_consumed_since_flow c < flow_threshold c then (c, None)
      else let permits = cr_consumed_since_flow c in
        (clear_stall_watch
          (c\<lparr>cr_consumed_since_flow := 0, cr_granted_permits := sat_add U32_MAX (cr_granted_permits c) permits,
             cr_permit_balance := sat_add U32_MAX (cr_permit_balance c) permits\<rparr>),
         Some (CommandFlow (cr_handle c) permits)))"

definition record_broker_permit_consumed :: "consumer \<Rightarrow> consumer" where
  "record_broker_permit_consumed c = c\<lparr>cr_consumed_since_flow := sat_add U32_MAX (cr_consumed_since_flow c) 1\<rparr>"

definition record_dispatch_unit :: "consumer \<Rightarrow> consumer" where
  "record_dispatch_unit c =
     c\<lparr>cr_permit_balance := cr_permit_balance c - 1,
       cr_dispatch_units_received := sat_add U64_MAX (cr_dispatch_units_received c) 1,
       cr_stall_recovery_attempts := 0\<rparr>"

definition record_marker_consumed :: "consumer \<Rightarrow> consumer" where
  "record_marker_consumed c = record_dispatch_unit (record_broker_permit_consumed c)"

definition initial_flow :: "consumer \<Rightarrow> consumer \<times> command_flow" where
  "initial_flow c =
     (let permits = (if cr_receiver_queue_size c = 0 then cr_manual_flow_permits c
                     else as_u32 (cr_receiver_queue_size c))
      in (clear_stall_watch (c\<lparr>cr_granted_permits := permits, cr_permit_balance := permits,
            cr_consumed_since_flow := 0, cr_initial_grant_due := False\<rparr>), CommandFlow (cr_handle c) permits))"

section \<open>The stall watchdog\<close>

definition is_stall_candidate :: "consumer \<Rightarrow> bool" where
  "is_stall_candidate c \<longleftrightarrow> cr_permit_balance c > 0 \<and> cr_queue c = [] \<and> \<not> cr_closed c \<and> \<not> cr_paused c \<and>
     \<not> cr_reached_end_of_topic c \<and> cr_pending_seek c = None \<and> cr_terminal_failure c = None \<and>
     \<not> cr_flow_on_subscribe_ack c"

definition next_stall_deadline :: "duration \<Rightarrow> consumer \<Rightarrow> instant option" where
  "next_stall_deadline window c =
     (case cr_stall_watch c of
        None \<Rightarrow> None
      | Some w \<Rightarrow> if sw_reported w then None else Some (deadline_with_clamp (sw_since w) window))"

definition poll_stall :: "duration \<Rightarrow> instant \<Rightarrow> consumer \<Rightarrow> consumer \<times> duration option" where
  "poll_stall window now c =
     (if \<not> is_stall_candidate c then (c\<lparr>cr_stall_watch := None\<rparr>, None)
      else
        let mark = cr_dispatch_units_received c;
            reopen = (c\<lparr>cr_stall_watch := Some \<lparr>sw_mark = mark, sw_since = now, sw_reported = False\<rparr>\<rparr>, None)
        in case cr_stall_watch c of
             Some w \<Rightarrow>
               if sw_mark w = mark
               then if sw_reported w \<or> now < deadline_with_clamp (sw_since w) window then (c, None)
                    else (c\<lparr>cr_stall_watch := Some (w\<lparr>sw_reported := True\<rparr>)\<rparr>,
                          Some (saturating_duration_since now (sw_since w)))
               else reopen
           | None \<Rightarrow> reopen)"

section \<open>The receiver queue policy\<close>

definition cr_flow_stats :: "nat \<Rightarrow> consumer \<Rightarrow> flow_stats" where
  "cr_flow_stats partitions c = \<lparr>fs_current_queue_size = cr_receiver_queue_size c,
     fs_queued_messages = length (cr_queue c), fs_available_permits = cr_permit_balance c,
     fs_avg_message_bytes = cr_total_bytes_received c div cr_total_msgs_received c,
     fs_in_flight_bytes = cr_queued_bytes c, fs_partitions = partitions\<rparr>"

text \<open>\<open>None\<close> is the panic of the policy.\<close>

definition adjust_receiver_queue ::
    "instant \<Rightarrow> nat \<Rightarrow> consumer \<Rightarrow> (consumer \<times> command_flow option) option" where
  "adjust_receiver_queue now partitions c =
     (let c = c\<lparr>cr_last_adjust_at := Some now\<rparr> in
      if cr_closed c \<or> cr_pending_seek c \<noteq> None \<or> cr_paused c \<or> cr_terminal_failure c \<noteq> None then Some (c, None)
      else if cr_granted_permits c = 0 then Some (c, None)
      else case policy_adjust (cr_policy c) (cr_flow_stats partitions c) of
        None \<Rightarrow> None
      | Some target \<Rightarrow>
          let new_target = max target 1; current = cr_receiver_queue_size c;
              c = c\<lparr>cr_receiver_queue_size := new_target\<rparr>
          in if new_target \<le> current then Some (c, None)
             else let delta = as_u32 new_target - cr_granted_permits c in
               if delta = 0 then Some (c, None)
               else Some (clear_stall_watch
                      (c\<lparr>cr_granted_permits := sat_add U32_MAX (cr_granted_permits c) delta,
                         cr_permit_balance := sat_add U32_MAX (cr_permit_balance c) delta\<rparr>),
                    Some (CommandFlow (cr_handle c) delta)))"

definition next_adjust_deadline :: "consumer \<Rightarrow> instant option" where
  "next_adjust_deadline c =
     (case cr_adjust_interval c of
        None \<Rightarrow> None
      | Some interval \<Rightarrow>
          if cr_closed c \<or> cr_terminal_failure c \<noteq> None then None
          else map_option (\<lambda>l. deadline_with_clamp l interval) (cr_last_adjust_at c))"

definition arm_adjust_clock :: "instant \<Rightarrow> consumer \<Rightarrow> consumer" where
  "arm_adjust_clock now c =
     (if cr_adjust_interval c \<noteq> None \<and> cr_last_adjust_at c = None then c\<lparr>cr_last_adjust_at := Some now\<rparr> else c)"

definition cr_pop_message :: "instant \<Rightarrow> consumer \<Rightarrow> consumer \<times> incoming_message option" where
  "cr_pop_message now c =
     (case cr_queue c of
        [] \<Rightarrow> (c, None)
      | msg # rest \<Rightarrow>
          let c = c\<lparr>cr_queue := rest\<rparr>;
              c = (if cr_receiver_queue_size c = 0
                   then c\<lparr>cr_manual_flow_permits := cr_manual_flow_permits c - 1\<rparr> else c);
              c = c\<lparr>cr_queued_bytes := cr_queued_bytes c - length (im_payload msg)\<rparr>;
              c = record_broker_permit_consumed c;
              latency_ms = min (as_millis (saturating_duration_since now (im_arrived_at msg))) U64_MAX
          in (c\<lparr>cr_receive_latency_hist := map_option (\<lambda>h. h @ [latency_ms]) (cr_receive_latency_hist c)\<rparr>,
              Some msg))"

section \<open>Wakers, seek and close\<close>

definition wake_receivers :: "consumer \<Rightarrow> consumer" where
  "wake_receivers c = c\<lparr>cr_woken := cr_woken c @ map snd (cr_receive_wakers c), cr_receive_wakers := []\<rparr>"

definition register_receive_waker :: "nat \<Rightarrow> waker \<Rightarrow> consumer \<Rightarrow> consumer" where
  "register_receive_waker slab_key w c = c\<lparr>cr_receive_wakers := hm_insert slab_key w (cr_receive_wakers c)\<rparr>"

definition cancel_receive_waker :: "nat \<Rightarrow> consumer \<Rightarrow> consumer" where
  "cancel_receive_waker slab_key c = c\<lparr>cr_receive_wakers := hm_remove slab_key (cr_receive_wakers c)\<rparr>"

definition begin_seek :: "request_id \<Rightarrow> consumer \<Rightarrow> consumer" where
  "begin_seek r c = c\<lparr>cr_pending_seek := Some r, cr_queue := [], cr_queued_bytes := 0, cr_manual_flow_permits := 0,
     cr_granted_permits := 0, cr_permit_balance := 0, cr_consumed_since_flow := 0\<rparr>"

definition seek_acked :: "consumer \<Rightarrow> consumer \<times> request_id option" where
  "seek_acked c = (c\<lparr>cr_pending_seek := None\<rparr>, cr_pending_seek c)"

definition wake_active_change_waiters :: "consumer \<Rightarrow> consumer" where
  "wake_active_change_waiters c =
     c\<lparr>cr_woken := cr_woken c @ map snd (cr_active_change_wakers c), cr_active_change_wakers := []\<rparr>"

definition cr_close :: "consumer \<Rightarrow> consumer" where
  "cr_close c = wake_active_change_waiters (wake_receivers (c\<lparr>cr_closed := True\<rparr>))"

definition record_active_change :: "bool \<Rightarrow> consumer \<Rightarrow> consumer" where
  "record_active_change active c =
     (let changes = (if length (cr_active_changes c) \<ge> ACTIVE_CHANGES_CAP then tl (cr_active_changes c)
                     else cr_active_changes c)
      in wake_active_change_waiters (c\<lparr>cr_is_active := Some active, cr_active_changes := changes @ [active]\<rparr>))"

definition pop_active_change :: "consumer \<Rightarrow> consumer \<times> bool option" where
  "pop_active_change c =
     (case cr_active_changes c of [] \<Rightarrow> (c, None) | a # as \<Rightarrow> (c\<lparr>cr_active_changes := as\<rparr>, Some a))"

definition register_active_change_waker :: "nat \<Rightarrow> waker \<Rightarrow> consumer \<Rightarrow> consumer" where
  "register_active_change_waker slab_key w c =
     c\<lparr>cr_active_change_wakers := hm_insert slab_key w (cr_active_change_wakers c)\<rparr>"

definition cancel_active_change_waker :: "nat \<Rightarrow> consumer \<Rightarrow> consumer" where
  "cancel_active_change_waker slab_key c =
     c\<lparr>cr_active_change_wakers := hm_remove slab_key (cr_active_change_wakers c)\<rparr>"

section \<open>Queueing one message\<close>

definition classify_and_queue ::
    "incoming_message \<Rightarrow> nat \<Rightarrow> instant \<Rightarrow> consumer \<Rightarrow> consumer \<times> deliver_outcome" where
  "classify_and_queue msg redelivery now c =
     (let n = length (im_payload msg); c = record_dispatch_unit c in
      if cr_max_redeliver_count c > 0 \<and> redelivery > cr_max_redeliver_count c
      then let c = record_broker_permit_consumed c
           in (c\<lparr>cr_total_msgs_dead_lettered := sat_add U64_MAX (cr_total_msgs_dead_lettered c) 1,
                 cr_dead_letter_pending := cr_dead_letter_pending c @ [msg]\<rparr>, Buffered)
      else (c\<lparr>cr_total_msgs_received := sat_add U64_MAX (cr_total_msgs_received c) 1,
              cr_total_bytes_received := sat_add U64_MAX (cr_total_bytes_received c) n,
              cr_unacked_tracker := map_option
                (\<lambda>t. ut_add_with_count t (im_message_id msg) (im_redelivery_count msg) now) (cr_unacked_tracker c),
              cr_queued_bytes := sat_add U64_MAX (cr_queued_bytes c) n,
              cr_queue := cr_queue c @ [msg]\<rparr>, Delivered 1))"

section \<open>Chunked messages\<close>

definition buffered_bytes :: "chunk_buffer \<Rightarrow> nat" where
  "buffered_bytes b = foldl (\<lambda>n x. sat_add USIZE_MAX n (length x)) 0 (map snd (cb_payloads b))"

definition forget_chunk_order :: "string \<Rightarrow> consumer \<Rightarrow> consumer" where
  "forget_chunk_order uuid c =
     (case list_position (\<lambda>u. u = uuid) (cr_chunk_reassembly_order c) of
        Some i \<Rightarrow> c\<lparr>cr_chunk_reassembly_order := remove_at i (cr_chunk_reassembly_order c)\<rparr>
      | None \<Rightarrow> c)"

text \<open>The buffer leaves the table: its bytes are released and its first chunk may be acknowledged.\<close>

definition discard_buffer :: "string \<Rightarrow> chunk_buffer \<Rightarrow> consumer \<Rightarrow> consumer" where
  "discard_buffer uuid b c =
     c\<lparr>cr_chunk_reassembly := hm_remove uuid (cr_chunk_reassembly c),
       cr_chunk_buffered_bytes := cr_chunk_buffered_bytes c - buffered_bytes b,
       cr_chunk_auto_ack_pending := (if cr_auto_ack_oldest c
         then cr_chunk_auto_ack_pending c @ (case cb_first_chunk_message_id b of Some m \<Rightarrow> [m] | None \<Rightarrow> [])
         else cr_chunk_auto_ack_pending c)\<rparr>"

text \<open>The loop of \<open>remove_oldest_pending_chunked_message\<close>, over the queue of uuids.\<close>

fun remove_oldest :: "string list \<Rightarrow> consumer \<Rightarrow> consumer" where
  "remove_oldest [] c = c\<lparr>cr_chunk_reassembly_order := []\<rparr>"
| "remove_oldest (uuid # rest) c =
     (case hm_get (cr_chunk_reassembly c) uuid of
        None \<Rightarrow> remove_oldest rest c
      | Some b \<Rightarrow> discard_buffer uuid b (c\<lparr>cr_chunk_reassembly_order := rest\<rparr>))"

definition remove_oldest_pending_chunked_message :: "consumer \<Rightarrow> consumer" where
  "remove_oldest_pending_chunked_message c = remove_oldest (cr_chunk_reassembly_order c) c"

definition next_chunk_expiry_deadline :: "consumer \<Rightarrow> instant option" where
  "next_chunk_expiry_deadline c =
     (case (cr_expire_time c, cr_chunk_reassembly_order c) of
        (Some expire, u # us) \<Rightarrow>
          map_option (\<lambda>b. deadline_with_clamp (cb_received_at b) expire) (hm_get (cr_chunk_reassembly c) u)
      | _ \<Rightarrow> None)"

fun sweep_chunks :: "duration \<Rightarrow> instant \<Rightarrow> string list \<Rightarrow> consumer \<Rightarrow> consumer" where
  "sweep_chunks expire now [] c = c\<lparr>cr_chunk_reassembly_order := []\<rparr>"
| "sweep_chunks expire now (uuid # rest) c =
     (case hm_get (cr_chunk_reassembly c) uuid of
        None \<Rightarrow> sweep_chunks expire now rest c
      | Some b \<Rightarrow>
          if now < deadline_with_clamp (cb_received_at b) expire
          then c\<lparr>cr_chunk_reassembly_order := uuid # rest\<rparr>
          else sweep_chunks expire now rest (discard_buffer uuid b c))"

definition sweep_expired_chunks :: "instant \<Rightarrow> consumer \<Rightarrow> consumer" where
  "sweep_expired_chunks now c =
     (case cr_expire_time c of
        None \<Rightarrow> c
      | Some expire \<Rightarrow> sweep_chunks expire now (cr_chunk_reassembly_order c) c)"

definition put_chunk :: "string \<Rightarrow> int \<Rightarrow> bytes \<Rightarrow> chunk_buffer \<Rightarrow> consumer \<Rightarrow> consumer" where
  "put_chunk uuid chunk_id bdy b c =
     c\<lparr>cr_chunk_reassembly := hm_insert uuid
         (b\<lparr>cb_payloads := hm_insert chunk_id bdy (cb_payloads b), cb_received_chunks := cb_received_chunks b + 1\<rparr>)
         (cr_chunk_reassembly c),
       cr_chunk_buffered_bytes := sat_add USIZE_MAX (cr_chunk_buffered_bytes c) (length bdy)\<rparr>"

text \<open>\<open>HashMap::insert\<close> on a present chunk id replaces its payload and nothing else.\<close>

definition replace_chunk :: "string \<Rightarrow> int \<Rightarrow> bytes \<Rightarrow> chunk_buffer \<Rightarrow> consumer \<Rightarrow> consumer" where
  "replace_chunk uuid chunk_id bdy b c =
     c\<lparr>cr_chunk_reassembly := hm_insert uuid
         (b\<lparr>cb_payloads := hm_insert chunk_id bdy (cb_payloads b)\<rparr>) (cr_chunk_reassembly c)\<rparr>"

text \<open>Storing a chunk that passed the guards; \<open>False\<close> when it is dropped after all.\<close>

definition store_chunk ::
    "chunk_buffer \<Rightarrow> string \<Rightarrow> int \<Rightarrow> bytes \<Rightarrow> consumer \<Rightarrow> consumer \<times> bool" where
  "store_chunk fresh uuid chunk_id bdy c =
     (if \<not> hm_contains (cr_chunk_reassembly c) uuid
      then
        let c = c\<lparr>cr_chunk_reassembly := hm_insert uuid fresh (cr_chunk_reassembly c),
                  cr_chunk_reassembly_order := cr_chunk_reassembly_order c @ [uuid]\<rparr>;
            c = (if cr_max_pending_chunked_message c > 0 \<and>
                    length (cr_chunk_reassembly c) > cr_max_pending_chunked_message c
                 then remove_oldest_pending_chunked_message c else c)
        in case hm_get (cr_chunk_reassembly c) uuid of
             None \<Rightarrow> (c, False)
           | Some b \<Rightarrow>
               (if hm_get (cb_payloads b) chunk_id = None then put_chunk uuid chunk_id bdy b c
                else replace_chunk uuid chunk_id bdy b c, True)
      else case hm_get (cr_chunk_reassembly c) uuid of
        None \<Rightarrow> (c, False)
      | Some b \<Rightarrow>
          if sat_add USIZE_MAX (cr_chunk_buffered_bytes c) (length bdy) > MAX_BUFFERED_CHUNK_BYTES then (c, False)
          else if hm_get (cb_payloads b) chunk_id \<noteq> None then (replace_chunk uuid chunk_id bdy b c, False)
          else (put_chunk uuid chunk_id bdy b c, True))"

definition assemble :: "chunk_buffer \<Rightarrow> bytes" where
  "assemble b = concat (map (\<lambda>i. case hm_get (cb_payloads b) (int i) of Some x \<Rightarrow> x | None \<Rightarrow> [])
                  [0..<nat (cb_expected_chunks b)])"

text \<open>All chunks are there: the buffer leaves the table and one message is queued, with the last chunk's id.\<close>

definition complete_chunked ::
    "string \<Rightarrow> chunk_buffer \<Rightarrow> message_id \<Rightarrow> instant \<Rightarrow> consumer \<Rightarrow> consumer \<times> deliver_outcome" where
  "complete_chunked uuid b mid now c =
     (let c = forget_chunk_order uuid (c\<lparr>cr_chunk_reassembly := hm_remove uuid (cr_chunk_reassembly c)\<rparr>);
          c = c\<lparr>cr_chunk_buffered_bytes := cr_chunk_buffered_bytes c - buffered_bytes b\<rparr>;
          m = (cb_first_metadata b)\<lparr>mm_num_chunks_from_msg := None, mm_chunk_id := None, mm_total_chunk_msg_size := None\<rparr>;
          im = \<lparr>im_message_id = mid, im_metadata = m, im_single = None, im_payload = assemble b,
                im_redelivery_count = cb_redelivery_count b, im_broker_entry = cb_broker_entry b, im_arrived_at = now\<rparr>;
          c = c\<lparr>cr_total_chunked_msgs_received := sat_add U64_MAX (cr_total_chunked_msgs_received c) 1\<rparr>;
          (c, outcome) = classify_and_queue im (cb_redelivery_count b) now c
      in (wake_receivers c, outcome))"

definition deliver_chunk ::
    "message_id \<Rightarrow> nat \<Rightarrow> message_metadata \<Rightarrow> broker_entry option \<Rightarrow> int \<Rightarrow> int \<Rightarrow> bytes \<Rightarrow> instant \<Rightarrow> consumer \<Rightarrow>
     consumer \<times> deliver_outcome" where
  "deliver_chunk mid redelivery m be n_chunks chunk_id bdy now c =
     (if chunk_id < 0 \<or> n_chunks \<le> chunk_id then (c, Dropped)
      else if n_chunks > MAX_CHUNK_TOTAL then (c, Dropped)
      else
        let uuid = unwrap_or [] (mm_uuid m) in
        if chunk_id \<noteq> 0 \<and> \<not> hm_contains (cr_chunk_reassembly c) uuid then (c, Dropped)
        else
          let fresh = \<lparr>cb_expected_chunks = n_chunks, cb_received_chunks = 0, cb_received_at = now, cb_payloads = [],
                cb_first_metadata = m, cb_first_chunk_message_id = Some mid, cb_broker_entry = be,
                cb_redelivery_count = redelivery\<rparr>
          in case store_chunk fresh uuid chunk_id bdy c of
               (c, False) \<Rightarrow> (c, Dropped)
             | (c, True) \<Rightarrow>
                 (case hm_get (cr_chunk_reassembly c) uuid of
                    None \<Rightarrow> (c, Dropped)
                  | Some b \<Rightarrow>
                      if cb_received_chunks b < cb_expected_chunks b
                      then (record_dispatch_unit (record_broker_permit_consumed c), Buffered)
                      else complete_chunked uuid b mid now c))"

section \<open>Batched messages\<close>

type_synonym batch_member = "single_metadata \<times> bytes"

definition next_batch_member :: "cons_env \<Rightarrow> bytes \<Rightarrow> (batch_member \<times> bytes) option" where
  "next_batch_member env bs =
     (if length bs < 4 then None
      else let single_size = be_value (take 4 bs); bs = drop 4 bs in
        if length bs < single_size then None
        else case ce_dec_single env (take single_size bs) of
            None \<Rightarrow> None
          | Some single \<Rightarrow>
              let bs = drop single_size bs in
              if sm_payload_size single < 0 then None
              else let n = nat (sm_payload_size single) in
                if length bs < n then None else Some ((single, take n bs), drop n bs))"

fun split_members :: "cons_env \<Rightarrow> nat \<Rightarrow> bytes \<Rightarrow> batch_member list" where
  "split_members env 0 bs = []"
| "split_members env (Suc n) bs =
     (case next_batch_member env bs of
        None \<Rightarrow> []
      | Some (m, rest) \<Rightarrow> m # split_members env n rest)"

definition split_batch_body :: "cons_env \<Rightarrow> bytes \<Rightarrow> int \<Rightarrow> batch_member list \<times> bool" where
  "split_batch_body env bs num_in_batch =
     (let wanted = nat num_in_batch; members = split_members env wanted bs
      in (members, length members = wanted))"

fun decode_members :: "codecs \<Rightarrow> compression_kind \<Rightarrow> nat \<Rightarrow> batch_member list \<Rightarrow> batch_member list option" where
  "decode_members cd codec budget [] = Some []"
| "decode_members cd codec budget ((single, p) # ms) =
     (case decompress_within cd codec p budget of
        Inl _ \<Rightarrow> None
      | Inr plain \<Rightarrow> map_option (Cons (single, plain)) (decode_members cd codec (budget - length plain) ms))"

definition legacy_batch_members :: "cons_env \<Rightarrow> compression_kind \<Rightarrow> bytes \<Rightarrow> int \<Rightarrow> batch_member list option" where
  "legacy_batch_members env codec bs num_in_batch =
     (case split_batch_body env bs num_in_batch of
        (members, complete) \<Rightarrow>
          if complete then decode_members (ce_codecs env) codec MAX_FRAME_SIZE members else None)"

definition unpack_batch_members ::
    "cons_env \<Rightarrow> message_metadata \<Rightarrow> bytes \<Rightarrow> int \<Rightarrow> message_metadata \<times> batch_member list" where
  "unpack_batch_members env m bs num_in_batch =
     (case map_option ck_try_from (mm_compression m) of
        None \<Rightarrow> (m, fst (split_batch_body env bs num_in_batch))
      | Some (Some CkNone) \<Rightarrow> (m, fst (split_batch_body env bs num_in_batch))
      | Some None \<Rightarrow> (m, [])
      | Some (Some codec) \<Rightarrow>
          let java = (case mm_uncompressed_size m of
                None \<Rightarrow> None
              | Some n \<Rightarrow> (case decompress (ce_codecs env) codec bs n of
                    Inl _ \<Rightarrow> None | Inr whole \<Rightarrow> Some (split_batch_body env whole num_in_batch)));
              members = (case java of
                Some (members, True) \<Rightarrow> members
              | _ \<Rightarrow> (case legacy_batch_members env codec bs num_in_batch of
                    Some members \<Rightarrow> members
                  | None \<Rightarrow> (case java of Some (prefix, _) \<Rightarrow> prefix | None \<Rightarrow> [])))
          in (if members \<noteq> [] then m\<lparr>mm_compression := None\<rparr> else m, members))"

definition member_message ::
    "message_id \<Rightarrow> int \<Rightarrow> message_metadata \<Rightarrow> broker_entry option \<Rightarrow> nat \<Rightarrow> instant \<Rightarrow> nat \<Rightarrow> batch_member \<Rightarrow>
     incoming_message" where
  "member_message mid num_in_batch m be redelivery now i mem =
     \<lparr>im_message_id = MessageId (ledger_id mid) (entry_id mid) (partition mid) (int i) num_in_batch,
      im_metadata = m, im_single = Some (fst mem), im_payload = snd mem, im_redelivery_count = redelivery,
      im_broker_entry = be, im_arrived_at = now\<rparr>"

text \<open>One turn of the loop over the members: an acknowledged position is skipped.\<close>

definition deliver_member ::
    "batch_ack_entry \<Rightarrow> message_id \<Rightarrow> int \<Rightarrow> message_metadata \<Rightarrow> broker_entry option \<Rightarrow> nat \<Rightarrow> instant \<Rightarrow>
     nat \<times> batch_member \<Rightarrow> consumer \<times> nat \<Rightarrow> consumer \<times> nat" where
  "deliver_member d mid num_in_batch m be redelivery now = (\<lambda>(i, mem) (c, delivered).
     if \<not> ba_is_unacked d (int i) then (c, delivered)
     else (fst (classify_and_queue (member_message mid num_in_batch m be redelivery now i mem) redelivery now c),
           delivered + 1))"

definition deliver_batch ::
    "cons_env \<Rightarrow> message_id \<Rightarrow> int list \<Rightarrow> nat \<Rightarrow> message_metadata \<Rightarrow> broker_entry option \<Rightarrow> int \<Rightarrow> bytes \<Rightarrow> instant \<Rightarrow>
     consumer \<Rightarrow> consumer \<times> deliver_outcome" where
  "deliver_batch env mid ack_set redelivery m be num_in_batch bdy now c =
     (let d = ba_from_delivered_ack_set num_in_batch ack_set;
          c = c\<lparr>cr_batch_ack_tracker :=
                deliver_ack_set (ledger_id mid, entry_id mid) num_in_batch ack_set (cr_batch_ack_tracker c)\<rparr>;
          (m, members) = unpack_batch_members env m bdy num_in_batch;
          (c, delivered) =
            fold (deliver_member d mid num_in_batch m be redelivery now) (enumerate 0 members) (c, 0);
          undecoded = length (filter (\<lambda>i. ba_is_unacked d (int i)) [length members..<nat num_in_batch]);
          c = ((\<lambda>c. record_broker_permit_consumed (record_dispatch_unit c)) ^^ undecoded) c
      in (wake_receivers c, Delivered delivered))"

section \<open>Delivery\<close>

definition deliver_single ::
    "message_id \<Rightarrow> nat \<Rightarrow> message_metadata \<Rightarrow> broker_entry option \<Rightarrow> bytes \<Rightarrow> instant \<Rightarrow> consumer \<Rightarrow>
     consumer \<times> deliver_outcome" where
  "deliver_single mid redelivery m be bdy now c =
     (let im = \<lparr>im_message_id = MessageId (ledger_id mid) (entry_id mid) (partition mid) (-1) 0, im_metadata = m,
            im_single = None, im_payload = bdy, im_redelivery_count = redelivery, im_broker_entry = be,
            im_arrived_at = now\<rparr>;
          (c, outcome) = classify_and_queue im redelivery now c
      in (wake_receivers c, outcome))"

definition deliver ::
    "cons_env \<Rightarrow> command_message \<Rightarrow> message_metadata \<Rightarrow> broker_entry option \<Rightarrow> bytes \<Rightarrow> instant \<Rightarrow> consumer \<Rightarrow>
     consumer \<times> (consumer_error + deliver_outcome)" where
  "deliver env cmd m be bdy now c =
     (if cr_closed c then (c, Inl ConsumerClosed)
      else if cr_pending_seek c \<noteq> None then (c, Inr Dropped)
      else
        let redelivery = unwrap_or 0 (cm_redelivery_count cmd);
            mid = mid_from_pb (cm_message_id cmd);
            rest = (\<lambda>c. case mm_num_messages_in_batch m of
                 Some num_in_batch \<Rightarrow> deliver_batch env mid (cm_ack_set cmd) redelivery m be num_in_batch bdy now c
               | None \<Rightarrow> deliver_single mid redelivery m be bdy now c);
            (c, outcome) =
              (case (mm_num_chunks_from_msg m, mm_chunk_id m) of
                 (Some n_chunks, Some chunk_id) \<Rightarrow>
                   if n_chunks > 1 then deliver_chunk mid redelivery m be n_chunks chunk_id bdy now c else rest c
               | _ \<Rightarrow> rest c)
        in (c, Inr outcome))"

lemmas cr_defs [op_defs] = with_policy_def cr_new_def maybe_flow_def record_broker_permit_consumed_def
  record_dispatch_unit_def initial_flow_def poll_stall_def adjust_receiver_queue_def cr_pop_message_def
  wake_receivers_def begin_seek_def cr_close_def classify_and_queue_def store_chunk_def complete_chunked_def
  deliver_chunk_def deliver_batch_def deliver_single_def deliver_def

end
