(* ===== verification/Recv_Conn.thy ===== *)
theory Recv_Conn
  imports Consumer
begin

text \<open>
  The receive side of one connection, \<open>crates/magnetar-proto/src/conn.rs\<close>, for one consumer: incoming
  messages and markers, popping, flow commands, acks with their grouping and their transactions,
  negative acks, and the consumer part of the timer sweep. \<open>rc_wire\<close> is the list of commands handed to the
  socket. Observational events and logging are left out.
\<close>

section \<open>State\<close>

datatype recv_command =
    CmdFlow command_flow
  | CmdAck consumer_handle ack_type "message_id_data list" "(string \<times> nat) list" "txn_id option" request_id
  | CmdRedeliver consumer_handle "message_id_data list"

record recv_conn =
  rc_handle :: consumer_handle
  rc_slot :: "consumer option"
  rc_next_request_id :: nat
  rc_pending_acks :: "(request_id, instant) hashmap"
  rc_error_outcomes :: "(request_id, int \<times> string) hashmap"
  rc_wire :: "recv_command list"

definition rc_init :: "consumer \<Rightarrow> recv_conn" where
  "rc_init c = \<lparr>rc_handle = cr_handle c, rc_slot = Some c, rc_next_request_id = 0, rc_pending_acks = [],
     rc_error_outcomes = [], rc_wire = []\<rparr>"

definition rc_emit :: "recv_command \<Rightarrow> recv_conn \<Rightarrow> recv_conn" where
  "rc_emit cmd r = r\<lparr>rc_wire := rc_wire r @ [cmd]\<rparr>"

text \<open>The connection's table of consumers holds this one consumer, until it is removed.\<close>

definition slot_of :: "consumer_handle \<Rightarrow> recv_conn \<Rightarrow> consumer option" where
  "slot_of h r = (if h = rc_handle r then rc_slot r else None)"

definition update_slot :: "consumer_handle \<Rightarrow> (consumer \<Rightarrow> consumer) \<Rightarrow> recv_conn \<Rightarrow> recv_conn" where
  "update_slot h f r = (if h = rc_handle r then r\<lparr>rc_slot := map_option f (rc_slot r)\<rparr> else r)"

definition stage_flow :: "command_flow option \<Rightarrow> recv_conn \<Rightarrow> recv_conn" where
  "stage_flow f r = (case f of Some f \<Rightarrow> rc_emit (CmdFlow f) r | None \<Rightarrow> r)"

definition alloc_request_id :: "recv_conn \<Rightarrow> recv_conn \<times> request_id" where
  "alloc_request_id r = (r\<lparr>rc_next_request_id := wrap_add64 (rc_next_request_id r) 1\<rparr>, rc_next_request_id r)"

section \<open>Messages and permits\<close>

definition is_replicated_marker :: "int \<Rightarrow> bool" where
  "is_replicated_marker ty \<longleftrightarrow> ty = 10 \<or> ty = 11 \<or> ty = 12 \<or> ty = 13"

text \<open>
  The \<open>Message\<close> command. A replicated-subscription marker only moves the permit counters, whether or
  not its payload decodes.
\<close>

definition on_message ::
    "cons_env \<Rightarrow> command_message \<Rightarrow> message_metadata \<Rightarrow> broker_entry option \<Rightarrow> bytes \<Rightarrow> instant \<Rightarrow> recv_conn \<Rightarrow> recv_conn" where
  "on_message env cmd m be bdy now r =
     (case slot_of (cm_consumer_id cmd) r of
        None \<Rightarrow> r
      | Some c \<Rightarrow>
          if (case mm_marker_type m of Some ty \<Rightarrow> is_replicated_marker ty | None \<Rightarrow> False)
          then r\<lparr>rc_slot := Some (record_marker_consumed c)\<rparr>
          else let c = fst (deliver env cmd m be bdy now c); (c, flow) = maybe_flow c
               in stage_flow flow (r\<lparr>rc_slot := Some c\<rparr>))"

definition pop_message :: "consumer_handle \<Rightarrow> instant \<Rightarrow> recv_conn \<Rightarrow> recv_conn \<times> incoming_message option" where
  "pop_message h now r =
     (case slot_of h r of
        None \<Rightarrow> (r, None)
      | Some c \<Rightarrow>
          let (c, msg) = cr_pop_message now c; (c, flow) = maybe_flow c
          in (stage_flow flow (r\<lparr>rc_slot := Some c\<rparr>), msg))"

definition conn_initial_flow :: "consumer_handle \<Rightarrow> instant \<Rightarrow> recv_conn \<Rightarrow> recv_conn" where
  "conn_initial_flow h now r =
     (case slot_of h r of
        None \<Rightarrow> r
      | Some c \<Rightarrow>
          if cr_initial_grant_due c \<or> cr_granted_permits c = 0 \<or> is_flow_starved c
          then let (c, flow) = initial_flow c;
                   c = arm_stall_watch now (arm_adjust_clock now c)
               in stage_flow (Some flow) (r\<lparr>rc_slot := Some c\<rparr>)
          else r)"

definition conn_flow :: "consumer_handle \<Rightarrow> nat \<Rightarrow> recv_conn \<Rightarrow> recv_conn" where
  "conn_flow h permits r =
     stage_flow (Some (CommandFlow h permits))
       (update_slot h (\<lambda>c.
          let c = (if cr_receiver_queue_size c = 0
                   then c\<lparr>cr_manual_flow_permits := sat_add U32_MAX (cr_manual_flow_permits c) permits\<rparr> else c)
          in c\<lparr>cr_granted_permits := sat_add U32_MAX (cr_granted_permits c) permits,
               cr_permit_balance := sat_add U32_MAX (cr_permit_balance c) permits\<rparr>) r)"

definition set_paused :: "consumer_handle \<Rightarrow> bool \<Rightarrow> recv_conn \<Rightarrow> recv_conn" where
  "set_paused h p r = update_slot h (\<lambda>c. c\<lparr>cr_paused := p\<rparr>) r"

definition on_active_consumer_change :: "consumer_handle \<Rightarrow> bool \<Rightarrow> instant \<Rightarrow> recv_conn \<Rightarrow> recv_conn" where
  "on_active_consumer_change h active now r =
     (case slot_of h r of
        None \<Rightarrow> r
      | Some c \<Rightarrow>
          let c = record_active_change active c;
              r = r\<lparr>rc_slot := Some c\<rparr>;
              needs_reflow = (active \<and> (cr_granted_permits c = 0 \<or> is_flow_starved c) \<and> \<not> cr_closed c \<and>
                \<not> cr_paused c \<and> cr_pending_seek c = None \<and> \<not> cr_reached_end_of_topic c \<and> \<not> cr_flow_on_subscribe_ack c)
          in if needs_reflow then conn_initial_flow h now r else r)"

section \<open>Acks\<close>

definition apply_local_ack_state ::
    "ack_request \<Rightarrow> message_id_data list option \<Rightarrow> consumer \<Rightarrow> message_id_data list \<times> consumer" where
  "apply_local_ack_state ack datas c =
     (let c = c\<lparr>cr_unacked_tracker := map_option (\<lambda>t. fold (\<lambda>m t. ut_remove t m) (ar_message_ids ack) t) (cr_unacked_tracker c),
               cr_nack_tracker := map_option (\<lambda>t. fold (\<lambda>m t. nt_remove t m) (ar_message_ids ack) t) (cr_nack_tracker c)\<rparr>;
          (ids, t) = apply_batch_ack_state ack datas (cr_batch_ack_tracker c)
      in (ids, c\<lparr>cr_batch_ack_tracker := t\<rparr>))"

text \<open>The batches of a request seed the transaction's table the first time it sees them.\<close>

definition seed_txn :: "batch_key \<times> batch_ack_entry option \<Rightarrow> pending_txn_acks \<Rightarrow> pending_txn_acks" where
  "seed_txn = (\<lambda>(key, initial) p.
     if key \<in> set (pt_seeded_batch_keys p) then p
     else let p = p\<lparr>pt_seeded_batch_keys := key # pt_seeded_batch_keys p\<rparr>
          in case initial of
               Some e \<Rightarrow> p\<lparr>pt_batch_ack_tracker := hm_insert key e (pt_batch_ack_tracker p)\<rparr>
             | None \<Rightarrow> p)"

definition apply_txn_ack ::
    "txn_id \<Rightarrow> ack_request \<Rightarrow> message_id_data list option \<Rightarrow> consumer \<Rightarrow> message_id_data list \<times> consumer" where
  "apply_txn_ack txn ack datas c =
     (let initial = map (\<lambda>m. (key_of m, hm_get (cr_batch_ack_tracker c) (key_of m)))
            (filter (\<lambda>m. 0 \<le> batch_index m) (ar_message_ids ack));
          p = (case hm_get (cr_pending_transactional_acks c) txn of
                 Some p \<Rightarrow> p
               | None \<Rightarrow> \<lparr>pt_batch_ack_tracker = [], pt_seeded_batch_keys = [], pt_acknowledgements = []\<rparr>);
          p = fold seed_txn initial p;
          (ids, t) = apply_batch_ack_state ack datas (pt_batch_ack_tracker p);
          p = p\<lparr>pt_batch_ack_tracker := t, pt_acknowledgements := pt_acknowledgements p @ [(ack, datas)]\<rparr>
      in (ids, c\<lparr>cr_pending_transactional_acks := hm_insert txn p (cr_pending_transactional_acks c)\<rparr>))"

definition INVALID_BATCH_ACK_CODE :: int where "INVALID_BATCH_ACK_CODE = -1"
definition INVALID_BATCH_ACK_MESSAGE :: string where "INVALID_BATCH_ACK_MESSAGE = ''invalid batched message id''"

definition ack_inner ::
    "consumer_handle \<Rightarrow> ack_request \<Rightarrow> message_id_data list option \<Rightarrow> instant \<Rightarrow> recv_conn \<Rightarrow>
     recv_conn \<times> request_id" where
  "ack_inner h ack datas now r =
     (let (r, request_id) = alloc_request_id r in
      if invalid_batch_ack ack
      then (update_slot h (\<lambda>c. c\<lparr>cr_total_acks_failed := sat_add U64_MAX (cr_total_acks_failed c) 1\<rparr>)
              (r\<lparr>rc_error_outcomes := hm_insert request_id (INVALID_BATCH_ACK_CODE, INVALID_BATCH_ACK_MESSAGE)
                 (rc_error_outcomes r)\<rparr>), request_id)
      else
        let (pb_ids, r) =
              (case slot_of h r of
                 None \<Rightarrow> (plain_ack_message_ids ack datas, r)
               | Some c \<Rightarrow>
                   (case (case ar_txn_id ack of
                            Some txn \<Rightarrow> apply_txn_ack txn ack datas c
                          | None \<Rightarrow> apply_local_ack_state ack datas c) of
                      (ids, c) \<Rightarrow> (ids, r\<lparr>rc_slot := Some c\<rparr>)));
            r = rc_emit (CmdAck h (ar_ack_type ack) pb_ids (map (\<lambda>(k, v). (k, i64_as_u64 v)) (ar_properties ack))
                  (ar_txn_id ack) request_id) r;
            r = r\<lparr>rc_pending_acks := hm_insert request_id now (rc_pending_acks r)\<rparr>
        in (update_slot h (\<lambda>c. c\<lparr>cr_total_acks_sent :=
              sat_add U64_MAX (cr_total_acks_sent c) (length (ar_message_ids ack))\<rparr>) r, request_id))"

definition settle_transactional_acks :: "consumer_handle \<Rightarrow> txn_id \<Rightarrow> bool \<Rightarrow> recv_conn \<Rightarrow> recv_conn" where
  "settle_transactional_acks h txn committed r =
     (case slot_of h r of
        None \<Rightarrow> r
      | Some c \<Rightarrow>
          (case hm_get (cr_pending_transactional_acks c) txn of
             None \<Rightarrow> r
           | Some p \<Rightarrow>
               let c = c\<lparr>cr_pending_transactional_acks := hm_remove txn (cr_pending_transactional_acks c)\<rparr>;
                   c = (if committed
                        then fold (\<lambda>(ack, datas) c. snd (apply_local_ack_state ack datas c)) (pt_acknowledgements p) c
                        else c)
               in r\<lparr>rc_slot := Some c\<rparr>))"

definition plain_ack :: "ack_type \<Rightarrow> message_id list \<Rightarrow> ack_request" where
  "plain_ack ty ms = \<lparr>ar_message_ids = ms, ar_ack_type = ty, ar_properties = [], ar_txn_id = None\<rparr>"

definition dispatch_ack_action :: "instant \<Rightarrow> ack_action \<Rightarrow> recv_conn \<Rightarrow> recv_conn" where
  "dispatch_ack_action now a r =
     (case a of
        SendIndividualAck h ms \<Rightarrow> fst (ack_inner h (plain_ack Individual ms) None now r)
      | SendCumulativeAck h m \<Rightarrow> fst (ack_inner h (plain_ack Cumulative [m]) None now r))"

definition dispatch_ack_actions :: "ack_action list \<Rightarrow> instant \<Rightarrow> recv_conn \<Rightarrow> recv_conn" where
  "dispatch_ack_actions acts now r = fold (dispatch_ack_action now) acts r"

definition ack_grouped ::
    "(ack_tracker \<Rightarrow> ack_tracker \<times> ack_action list) \<Rightarrow> consumer_handle \<Rightarrow> ack_request \<Rightarrow> instant \<Rightarrow> recv_conn \<Rightarrow> recv_conn" where
  "ack_grouped add h ack now r =
     (case slot_of h r of
        None \<Rightarrow> fst (ack_inner h ack None now r)
      | Some c \<Rightarrow>
          (case cr_ack_tracker c of
             None \<Rightarrow> fst (ack_inner h ack None now r)
           | Some t \<Rightarrow> (case add t of (t, acts) \<Rightarrow>
               dispatch_ack_actions acts now (r\<lparr>rc_slot := Some (c\<lparr>cr_ack_tracker := Some t\<rparr>)\<rparr>))))"

definition ack_grouped_individual :: "consumer_handle \<Rightarrow> message_id \<Rightarrow> instant \<Rightarrow> recv_conn \<Rightarrow> recv_conn" where
  "ack_grouped_individual h m now r =
     ack_grouped (\<lambda>t. at_add_individual t m now) h (plain_ack Individual [m]) now r"

definition ack_grouped_cumulative :: "consumer_handle \<Rightarrow> message_id \<Rightarrow> instant \<Rightarrow> recv_conn \<Rightarrow> recv_conn" where
  "ack_grouped_cumulative h m now r =
     ack_grouped (\<lambda>t. at_add_cumulative t m now) h (plain_ack Cumulative [m]) now r"

section \<open>Negative acks\<close>

definition emit_redeliver_unacked :: "consumer_handle \<Rightarrow> message_id list \<Rightarrow> recv_conn \<Rightarrow> recv_conn" where
  "emit_redeliver_unacked h ms r = rc_emit (CmdRedeliver h (map mid_to_pb ms)) r"

definition negative_ack :: "consumer_handle \<Rightarrow> message_id list \<Rightarrow> instant \<Rightarrow> recv_conn \<Rightarrow> recv_conn" where
  "negative_ack h ms now r =
     (case (if ms = [] then None else slot_of h r) of
        None \<Rightarrow> emit_redeliver_unacked h ms r
      | Some c \<Rightarrow>
          let c = c\<lparr>cr_unacked_tracker := map_option (\<lambda>t. fold (\<lambda>m t. ut_remove t m) ms t) (cr_unacked_tracker c)\<rparr> in
          case cr_nack_tracker c of
            Some t \<Rightarrow> r\<lparr>rc_slot := Some (c\<lparr>cr_nack_tracker := Some (fold (\<lambda>m t. nt_add t m now) ms t)\<rparr>)\<rparr>
          | None \<Rightarrow> emit_redeliver_unacked h ms (r\<lparr>rc_slot := Some c\<rparr>))"

definition negative_ack_with_delay :: "consumer_handle \<Rightarrow> message_id \<Rightarrow> duration \<Rightarrow> instant \<Rightarrow> recv_conn \<Rightarrow> recv_conn" where
  "negative_ack_with_delay h m delay now r =
     (case slot_of h r of
        None \<Rightarrow> emit_redeliver_unacked h [m] r
      | Some c \<Rightarrow>
          let c = c\<lparr>cr_unacked_tracker := map_option (\<lambda>t. ut_remove t m) (cr_unacked_tracker c)\<rparr> in
          case cr_nack_tracker c of
            Some t \<Rightarrow> r\<lparr>rc_slot := Some (c\<lparr>cr_nack_tracker := Some (nt_add_with_delay t m delay now)\<rparr>)\<rparr>
          | None \<Rightarrow> emit_redeliver_unacked h [m] (r\<lparr>rc_slot := Some c\<rparr>))"

definition redeliver_unacked_all :: "consumer_handle \<Rightarrow> recv_conn \<Rightarrow> recv_conn" where
  "redeliver_unacked_all h r = emit_redeliver_unacked h [] r"

section \<open>Timers\<close>

text \<open>What one turn of the sweep stages for the emission after the loop.\<close>

record timer_output =
  to_redeliveries :: "message_id list list"
  to_ack_actions :: "ack_action list"
  to_chunk_acks :: "message_id list"
  to_adjust_flow :: "command_flow option"
  to_stalled :: "duration option"

definition poll_tracker :: "('t \<Rightarrow> 't \<times> 'a list) \<Rightarrow> 't option \<Rightarrow> 't option \<times> 'a list" where
  "poll_tracker poll t = (case t of None \<Rightarrow> (None, []) | Some t \<Rightarrow> (case poll t of (t, acts) \<Rightarrow> (Some t, acts)))"

text \<open>The adjust tick of the sweep; \<open>None\<close> is the panic of the policy.\<close>

definition adjust_tick :: "instant \<Rightarrow> consumer \<Rightarrow> (consumer \<times> command_flow option) option" where
  "adjust_tick now c =
     (case next_adjust_deadline c of
        Some d \<Rightarrow> if d \<le> now then adjust_receiver_queue now 1 c else Some (c, None)
      | None \<Rightarrow> Some (arm_adjust_clock now c, None))"

definition sweep_consumer :: "duration option \<Rightarrow> instant \<Rightarrow> consumer \<Rightarrow> (consumer \<times> timer_output) option" where
  "sweep_consumer stall_timeout now c =
     (let (nt, nacts) = poll_tracker (\<lambda>t. nt_poll t now) (cr_nack_tracker c);
          (ut, uacts) = poll_tracker (\<lambda>t. ut_poll t now) (cr_unacked_tracker c);
          (at, aacts) = poll_tracker (\<lambda>t. at_poll t now) (cr_ack_tracker c);
          c = c\<lparr>cr_nack_tracker := nt, cr_unacked_tracker := ut, cr_ack_tracker := at\<rparr>;
          c = sweep_expired_chunks now c;
          chunk_ids = cr_chunk_auto_ack_pending c;
          c = c\<lparr>cr_chunk_auto_ack_pending := []\<rparr>
      in case adjust_tick now c of
           None \<Rightarrow> None
         | Some (c, flow) \<Rightarrow>
             let (c, stalled) = (case stall_timeout of None \<Rightarrow> (c, None) | Some window \<Rightarrow> poll_stall window now c)
             in Some (c, \<lparr>to_redeliveries = map (\<lambda>a. case a of RedeliverUnacked _ ms \<Rightarrow> ms) nacts @
                                             map (\<lambda>a. case a of RedeliverExpired _ ms \<Rightarrow> ms) uacts,
                          to_ack_actions = aacts, to_chunk_acks = chunk_ids, to_adjust_flow = flow,
                          to_stalled = stalled\<rparr>))"

text \<open>
  The consumer part of \<open>handle_timeout\<close>. The stall report is an event; the automatic re-subscription on a
  stall is off by default and left out.
\<close>

definition handle_timeout :: "duration option \<Rightarrow> instant \<Rightarrow> recv_conn \<Rightarrow> recv_conn option" where
  "handle_timeout stall_timeout now r =
     (case rc_slot r of
        None \<Rightarrow> Some r
      | Some c \<Rightarrow>
          (case sweep_consumer stall_timeout now c of
             None \<Rightarrow> None
           | Some (c, out) \<Rightarrow>
               let h = rc_handle r;
                   r = r\<lparr>rc_slot := Some c\<rparr>;
                   r = fold (emit_redeliver_unacked h) (to_redeliveries out) r;
                   r = stage_flow (to_adjust_flow out) r;
                   r = (if to_chunk_acks out = [] then r
                        else fst (ack_inner h (plain_ack Individual (to_chunk_acks out)) None now r))
               in Some (dispatch_ack_actions (to_ack_actions out) now r)))"

end
