(* ===== verification/Consumer_Flow.thy ===== *)
theory Consumer_Flow
  imports Recv_Conn
begin

text \<open>
  The permit ledger between a consumer and its broker. The broker may dispatch only against permits it
  was granted by the flow commands on the wire, and charges one permit for every message, chunk and
  unacknowledged batch position it dispatches; the client grants permits back as it consumes.
\<close>

section \<open>The ledger\<close>

fun flow_permits :: "recv_command \<Rightarrow> nat" where
  "flow_permits (CmdFlow f) = cf_message_permits f"
| "flow_permits _ = 0"

definition wire_permits :: "recv_command list \<Rightarrow> nat" where
  "wire_permits cmds = sum_list (map flow_permits cmds)"

definition is_marker :: "message_metadata \<Rightarrow> bool" where
  "is_marker m = (case mm_marker_type m of Some ty \<Rightarrow> is_replicated_marker ty | None \<Rightarrow> False)"

text \<open>What the broker charges for one dispatched entry: a batch by its unacknowledged positions.\<close>

definition entry_units :: "command_message \<Rightarrow> message_metadata \<Rightarrow> nat" where
  "entry_units cmd m =
     (case mm_num_messages_in_batch m of
        Some k \<Rightarrow> length (filter (\<lambda>i. ba_is_unacked (ba_from_delivered_ack_set k (cm_ack_set cmd)) (int i)) [0..<nat k])
      | None \<Rightarrow> 1)"

definition charge :: "command_message \<Rightarrow> message_metadata \<Rightarrow> nat" where
  "charge cmd m =
     (case (mm_num_chunks_from_msg m, mm_chunk_id m) of
        (Some n_chunks, Some _) \<Rightarrow> if n_chunks > 1 then 1 else entry_units cmd m
      | _ \<Rightarrow> entry_units cmd m)"

lemma wire_permits_simps [simp]:
  "wire_permits [] = 0" "wire_permits (xs @ ys) = wire_permits xs + wire_permits ys"
  "wire_permits (x # xs) = flow_permits x + wire_permits xs"
  by (simp_all add: wire_permits_def)

section \<open>Units\<close>

text \<open>The fields the ledger rests on.\<close>

definition cfg_of where
  "cfg_of c = (cr_handle c, cr_receiver_queue_size c, cr_policy c, cr_closed c, cr_paused c, cr_pending_seek c, cr_granted_permits c,
     cr_initial_grant_due c)"

definition permits_of where
  "permits_of c = (cfg_of c, cr_consumed_since_flow c, length (cr_queue c), cr_permit_balance c)"

text \<open>
  From \<open>c\<close> to \<open>c'\<close> exactly \<open>k\<close> dispatch units arrived: each is queued or refunded, and debited from the
  balance.
\<close>

definition units :: "nat \<Rightarrow> consumer \<Rightarrow> consumer \<Rightarrow> bool" where
  "units k c c' \<longleftrightarrow> (cr_consumed_since_flow c + k \<le> U32_MAX \<longrightarrow>
     cfg_of c' = cfg_of c \<and> cr_consumed_since_flow c' \<le> cr_consumed_since_flow c + k \<and>
     cr_consumed_since_flow c' + length (cr_queue c') = cr_consumed_since_flow c + length (cr_queue c) + k \<and>
     cr_permit_balance c' = cr_permit_balance c - k)"

lemma units_trans: "units a c c' \<Longrightarrow> units b c' c'' \<Longrightarrow> units (a + b) c c''"
  by (auto simp: units_def)

lemma units_0: "permits_of c' = permits_of c \<Longrightarrow> units 0 c c'"
  by (simp add: units_def permits_of_def)

lemma units_permits:
  assumes "permits_of c1 = permits_of c" "units k c1 c2" "permits_of c3 = permits_of c2" shows "units k c c3"
  using units_trans [OF units_trans [OF units_0 [OF assms(1)] assms(2)] units_0 [OF assms(3)]] by simp

lemmas perm_defs = permits_of_def cfg_of_def

lemma units_classify: "units 1 c (fst (classify_and_queue msg red now c))"
  by (auto simp: units_def classify_and_queue_def Let_def record_dispatch_unit_def record_broker_permit_consumed_def cfg_of_def)

lemma units_refund: "units 1 c (record_broker_permit_consumed (record_dispatch_unit c))"
  "units 1 c (record_dispatch_unit (record_broker_permit_consumed c))"
  by (auto simp: units_def record_dispatch_unit_def record_broker_permit_consumed_def cfg_of_def)

lemma units_refunds: "units n c (((\<lambda>c. record_broker_permit_consumed (record_dispatch_unit c)) ^^ n) c)"
proof (induction n)
  case 0 then show ?case by (simp add: units_0)
next
  case (Suc n) then show ?case using units_trans [OF Suc units_refund(1)] by simp
qed

lemma permits_wake [simp]: "permits_of (wake_receivers c) = permits_of c"
  by (simp add: perm_defs wake_receivers_def)

lemma permits_discard [simp]: "permits_of (discard_buffer u b c) = permits_of c"
  by (simp add: perm_defs discard_buffer_def)

lemma permits_update [simp]:
  "permits_of (c\<lparr>cr_chunk_reassembly_order := us\<rparr>) = permits_of c"
  "permits_of (c\<lparr>cr_chunk_reassembly := t\<rparr>) = permits_of c"
  "permits_of (c\<lparr>cr_chunk_buffered_bytes := n\<rparr>) = permits_of c"
  "permits_of (c\<lparr>cr_total_chunked_msgs_received := n\<rparr>) = permits_of c"
  "permits_of (c\<lparr>cr_batch_ack_tracker := bt\<rparr>) = permits_of c"
  "permits_of (c\<lparr>cr_nack_tracker := nt\<rparr>) = permits_of c"
  "permits_of (c\<lparr>cr_unacked_tracker := ut\<rparr>) = permits_of c"
  "permits_of (c\<lparr>cr_ack_tracker := at\<rparr>) = permits_of c"
  "permits_of (c\<lparr>cr_pending_transactional_acks := pt\<rparr>) = permits_of c"
  "permits_of (c\<lparr>cr_total_acks_sent := n\<rparr>) = permits_of c"
  "permits_of (c\<lparr>cr_total_acks_failed := n\<rparr>) = permits_of c"
  "permits_of (c\<lparr>cr_chunk_auto_ack_pending := ms\<rparr>) = permits_of c"
  "permits_of (c\<lparr>cr_last_adjust_at := i\<rparr>) = permits_of c"
  "permits_of (c\<lparr>cr_stall_watch := w\<rparr>) = permits_of c"
  "permits_of (c\<lparr>cr_receive_wakers := ws\<rparr>) = permits_of c"
  by (simp_all add: perm_defs)

lemma permits_remove_oldest [simp]: "permits_of (remove_oldest us c) = permits_of c"
  by (induction us c rule: remove_oldest.induct) (simp_all split: option.split)

lemma permits_sweep [simp]: "permits_of (sweep_chunks e now us c) = permits_of c"
  by (induction e now us c rule: sweep_chunks.induct) (simp_all split: option.split)

lemma permits_sweep_expired [simp]: "permits_of (sweep_expired_chunks now c) = permits_of c"
  by (simp add: sweep_expired_chunks_def split: option.split)

lemma permits_forget [simp]: "permits_of (forget_chunk_order u c) = permits_of c"
  by (simp add: forget_chunk_order_def split: option.split)

lemma permits_put [simp]: "permits_of (put_chunk u i b bf c) = permits_of c" "permits_of (replace_chunk u i b bf c) = permits_of c"
  by (simp_all add: perm_defs put_chunk_def replace_chunk_def)

lemma permits_store [simp]: "permits_of (fst (store_chunk fresh u i b c)) = permits_of c"
  by (simp add: store_chunk_def Let_def remove_oldest_pending_chunked_message_def split: option.split)

lemma units_complete: "units 1 c (fst (complete_chunked u b mid now c))"
  unfolding complete_chunked_def Let_def split_beta fst_conv
  by (rule units_permits [OF _ units_classify permits_wake]) simp

lemma units_deliver_chunk:
  assumes "snd (deliver_chunk mid red m be n i bdy now c) \<noteq> Dropped"
  shows "units 1 c (fst (deliver_chunk mid red m be n i bdy now c))"
proof -
  define fresh where "fresh = \<lparr>cb_expected_chunks = n, cb_received_chunks = 0, cb_received_at = now, cb_payloads = [],
                cb_first_metadata = m, cb_first_chunk_message_id = Some mid, cb_broker_entry = be,
                cb_redelivery_count = red\<rparr>"
  define u where "u = unwrap_or [] (mm_uuid m)"
  obtain c1 ok where st: "store_chunk fresh u i bdy c = (c1, ok)" by fastforce
  have p: "permits_of c1 = permits_of c" using permits_store [of fresh u i bdy c] st by simp
  have r: "units 1 c (record_dispatch_unit (record_broker_permit_consumed c1))"
    using units_permits [OF p units_refund(2) refl] .
  have k: "units 1 c (fst (complete_chunked u b mid now c1))" for b
    using units_permits [OF p units_complete refl] .
  show ?thesis using assms r k st
    unfolding deliver_chunk_def Let_def fresh_def [symmetric] u_def [symmetric]
    by (auto split: if_splits bool.splits option.splits)
qed

lemma units_member:
  "units (if ba_is_unacked d (int i) then 1 else 0) c (fst (deliver_member d mid k m be red now (i, mem) (c, n)))"
  using units_classify [of c] by (auto simp: deliver_member_def units_0)

lemma units_members:
  "units (length (filter (\<lambda>i. ba_is_unacked d (int i)) [a..<a + length ms])) c
     (fst (fold (deliver_member d mid k m be red now) (enumerate a ms) (c, n)))"
proof (induction ms arbitrary: a c n)
  case Nil then show ?case by (simp add: units_0)
next
  case (Cons mem ms)
  obtain c1 n1 where d: "deliver_member d mid k m be red now (a, mem) (c, n) = (c1, n1)" by fastforce
  have "units (if ba_is_unacked d (int a) then 1 else 0) c c1" using units_member [of d a c mid k m be red now mem n] d by simp
  from units_trans [OF this Cons.IH [of "Suc a" c1 n1]]
  have "units ((if ba_is_unacked d (int a) then 1 else 0) + length (filter (\<lambda>i. ba_is_unacked d (int i)) [Suc a..<Suc a + length ms])) c
     (fst (fold (deliver_member d mid k m be red now) (enumerate (Suc a) ms) (c1, n1)))" .
  moreover have "[a..<a + length (mem # ms)] = a # [Suc a..<Suc a + length ms]" by (simp add: upt_conv_Cons del: upt_Suc)
  ultimately show ?case using d by (simp del: upt_Suc add: upt_conv_Cons split: if_splits)
qed

lemma split_members_length: "length (split_members env n bs) \<le> n"
  by (induction env n bs rule: split_members.induct) (simp_all split: option.split prod.split)

lemma decode_members_length: "decode_members cd k b ms = Some ms' \<Longrightarrow> length ms' = length ms"
  by (induction cd k b ms arbitrary: ms' rule: decode_members.induct) (auto split: sum.splits)

lemma split_body_length: "length (fst (split_batch_body env bs k)) \<le> nat k"
  by (simp add: split_batch_body_def Let_def split_members_length)

lemma legacy_length: "legacy_batch_members env codec bs k = Some ms \<Longrightarrow> length ms \<le> nat k"
  using split_body_length [of env bs k]
  by (cases "split_batch_body env bs k") (auto simp: legacy_batch_members_def split: if_splits dest: decode_members_length)

lemma unpack_length: "length (snd (unpack_batch_members env m bs k)) \<le> nat k"
proof -
  have c: "length (case java of Some (members, True) \<Rightarrow> members
              | _ \<Rightarrow> (case legacy_batch_members env codec bs k of
                    Some members \<Rightarrow> members
                  | None \<Rightarrow> (case java of Some (prefix, _) \<Rightarrow> prefix | None \<Rightarrow> []))) \<le> nat k"
    if "\<And>p. java = Some p \<Longrightarrow> length (fst p) \<le> nat k" for java codec
  proof -
    have "length (case legacy_batch_members env codec bs k of Some members \<Rightarrow> members
        | None \<Rightarrow> (case java of Some (prefix, _) \<Rightarrow> prefix | None \<Rightarrow> [])) \<le> nat k"
      using that legacy_length [of env codec bs k] by (cases java) (auto split: option.split)
    then show ?thesis using that by (auto split: option.split bool.split)
  qed
  have j: "length (fst p) \<le> nat k"
    if "(case mm_uncompressed_size m of None \<Rightarrow> None
         | Some n \<Rightarrow> (case decompress (ce_codecs env) codec bs n of
             Inl _ \<Rightarrow> None | Inr whole \<Rightarrow> Some (split_batch_body env whole k))) = Some p" for codec p
    using that by (auto split: option.splits sum.splits simp: split_body_length)
  show ?thesis
  proof (cases "mm_compression m")
    case None
    then show ?thesis by (simp add: unpack_batch_members_def split_body_length)
  next
    case (Some v)
    show ?thesis
    proof (cases "ck_try_from v")
      case None
      then show ?thesis using Some by (simp add: unpack_batch_members_def)
    next
      case (Some codec)
      show ?thesis
        by (cases codec; simp add: unpack_batch_members_def Let_def \<open>mm_compression m = Some v\<close> Some split_body_length;
            (rule c [OF j])?; assumption?)
    qed
  qed
qed

lemma units_batch:
  "units (length (filter (\<lambda>i. ba_is_unacked (ba_from_delivered_ack_set k acks) (int i)) [0..<nat k])) c
     (fst (deliver_batch env mid acks red m be k bdy now c))"
proof -
  define d where "d = ba_from_delivered_ack_set k acks"
  define c0 where "c0 = c\<lparr>cr_batch_ack_tracker := deliver_ack_set (ledger_id mid, entry_id mid) k acks (cr_batch_ack_tracker c)\<rparr>"
  obtain m' ms where u: "unpack_batch_members env m bdy k = (m', ms)" by fastforce
  have le: "length ms \<le> nat k" using unpack_length [of env m bdy k] u by simp
  obtain c1 n where f: "fold (deliver_member d mid k m' be red now) (enumerate 0 ms) (c0, 0) = (c1, n)" by fastforce
  have "units (length (filter (\<lambda>i. ba_is_unacked d (int i)) [0..<length ms])) c0 c1"
    using units_members [of d 0 ms c0 mid k m' be red now 0] f by simp
  from units_trans [OF this units_refunds]
  have "units (length (filter (\<lambda>i. ba_is_unacked d (int i)) [0..<length ms]) + length (filter (\<lambda>i. ba_is_unacked d (int i)) [length ms..<nat k])) c0
    (((\<lambda>c. record_broker_permit_consumed (record_dispatch_unit c)) ^^ length (filter (\<lambda>i. ba_is_unacked d (int i)) [length ms..<nat k])) c1)" .
  moreover have "[0..<nat k] = [0..<length ms] @ [length ms..<nat k]" using le by (metis le_add_diff_inverse upt_add_eq_append zero_le)
  ultimately have "units (length (filter (\<lambda>i. ba_is_unacked d (int i)) [0..<nat k])) c0
    (((\<lambda>c. record_broker_permit_consumed (record_dispatch_unit c)) ^^ length (filter (\<lambda>i. ba_is_unacked d (int i)) [length ms..<nat k])) c1)" by simp
  from units_permits [OF _ this permits_wake, of c] show ?thesis
    using u f by (simp add: deliver_batch_def Let_def d_def c0_def)
qed

lemma units_single: "units 1 c (fst (deliver_single mid red m be bdy now c))"
  unfolding deliver_single_def Let_def split_beta fst_conv
  by (rule units_permits [OF refl units_classify permits_wake])

definition deliver_entry where
  "deliver_entry env cmd m be bdy now c =
     (case mm_num_messages_in_batch m of
        Some k \<Rightarrow> deliver_batch env (mid_from_pb (cm_message_id cmd)) (cm_ack_set cmd) (unwrap_or 0 (cm_redelivery_count cmd)) m be k bdy now c
      | None \<Rightarrow> deliver_single (mid_from_pb (cm_message_id cmd)) (unwrap_or 0 (cm_redelivery_count cmd)) m be bdy now c)"

lemma units_entry: "units (entry_units cmd m) c (fst (deliver_entry env cmd m be bdy now c))"
  unfolding entry_units_def deliver_entry_def
  by (cases "mm_num_messages_in_batch m") (simp_all add: units_single [unfolded One_nat_def] units_batch)

lemma deliver_cases:
  assumes "\<not> cr_closed c" "cr_pending_seek c = None"
  obtains n i where "mm_num_chunks_from_msg m = Some n" "mm_chunk_id m = Some i" "1 < n" "charge cmd m = 1"
      "deliver env cmd m be bdy now c = map_prod id Inr
         (deliver_chunk (mid_from_pb (cm_message_id cmd)) (unwrap_or 0 (cm_redelivery_count cmd)) m be n i bdy now c)"
  | "charge cmd m = entry_units cmd m" "deliver env cmd m be bdy now c = map_prod id Inr (deliver_entry env cmd m be bdy now c)"
proof (cases "\<exists>n i. mm_num_chunks_from_msg m = Some n \<and> mm_chunk_id m = Some i \<and> 1 < n")
  case True
  then obtain n i where "mm_num_chunks_from_msg m = Some n" "mm_chunk_id m = Some i" "1 < n" by blast
  then show ?thesis using assms by (intro that(1)) (simp_all add: charge_def deliver_def map_prod_def split_beta Let_def)
next
  case False
  have "charge cmd m = entry_units cmd m"
    using False by (cases "mm_num_chunks_from_msg m"; cases "mm_chunk_id m") (simp_all add: charge_def)
  moreover have "deliver env cmd m be bdy now c = map_prod id Inr (deliver_entry env cmd m be bdy now c)"
    using assms False by (cases "mm_num_chunks_from_msg m"; cases "mm_chunk_id m")
      (simp_all add: deliver_def deliver_entry_def map_prod_def split_beta Let_def)
  ultimately show ?thesis by (rule that(2))
qed

lemma units_deliver:
  assumes "\<not> cr_closed c" "cr_pending_seek c = None" "snd (deliver env cmd m be bdy now c) \<noteq> Inr Dropped"
  shows "units (charge cmd m) c (fst (deliver env cmd m be bdy now c))"
proof (rule deliver_cases [OF assms(1,2), of m cmd env be bdy now])
  fix n i
  assume a: "charge cmd m = 1" "deliver env cmd m be bdy now c = map_prod id Inr
         (deliver_chunk (mid_from_pb (cm_message_id cmd)) (unwrap_or 0 (cm_redelivery_count cmd)) m be n i bdy now c)"
  show ?thesis using assms(3) unfolding a fst_map_prod snd_map_prod id_apply by (intro units_deliver_chunk) auto
next
  assume a: "charge cmd m = entry_units cmd m" "deliver env cmd m be bdy now c = map_prod id Inr (deliver_entry env cmd m be bdy now c)"
  show ?thesis unfolding a fst_map_prod id_apply by (rule units_entry)
qed

section \<open>Runs\<close>

text \<open>
  The calls on a subscribed consumer that is neither closed, paused nor seeking. Acks may be plain,
  grouped or part of a transaction.
\<close>

datatype recv_event =
    EvMessage command_message message_metadata "broker_entry option" bytes instant
  | EvPop instant
  | EvInitialFlow instant
  | EvActive bool instant
  | EvTimeout "duration option" instant
  | EvAck ack_request "message_id_data list option" instant
  | EvAckGrouped message_id instant
  | EvAckGroupedCumulative message_id instant
  | EvSettle txn_id bool
  | EvNack "message_id list" instant
  | EvNackDelay message_id duration instant
  | EvPark nat waker
  | EvCancel nat

fun recv_step :: "cons_env \<Rightarrow> consumer_handle \<Rightarrow> recv_event \<Rightarrow> recv_conn \<Rightarrow> recv_conn option" where
  "recv_step env h (EvMessage cmd m be bdy now) r = Some (on_message env cmd m be bdy now r)"
| "recv_step env h (EvPop now) r = Some (fst (pop_message h now r))"
| "recv_step env h (EvInitialFlow now) r = Some (conn_initial_flow h now r)"
| "recv_step env h (EvActive a now) r = Some (on_active_consumer_change h a now r)"
| "recv_step env h (EvTimeout st now) r = handle_timeout st now r"
| "recv_step env h (EvAck ack datas now) r = Some (fst (ack_inner h ack datas now r))"
| "recv_step env h (EvAckGrouped m now) r = Some (ack_grouped_individual h m now r)"
| "recv_step env h (EvAckGroupedCumulative m now) r = Some (ack_grouped_cumulative h m now r)"
| "recv_step env h (EvSettle txn b) r = Some (settle_transactional_acks h txn b r)"
| "recv_step env h (EvNack ms now) r = Some (negative_ack h ms now r)"
| "recv_step env h (EvNackDelay m d now) r = Some (negative_ack_with_delay h m d now r)"
| "recv_step env h (EvPark k w) r = Some (update_slot h (register_receive_waker k w) r)"
| "recv_step env h (EvCancel k) r = Some (update_slot h (cancel_receive_waker k) r)"

text \<open>
  The broker dispatches only while it holds a permit; a batch may overdraw it. A marker and a chunk the
  consumer drops are excluded here, and looked at below.
\<close>

fun admissible :: "cons_env \<Rightarrow> recv_event \<Rightarrow> recv_conn \<Rightarrow> nat \<Rightarrow> bool" where
  "admissible env (EvMessage cmd m be bdy now) r charged =
     (charged < wire_permits (rc_wire r) \<and> \<not> is_marker m \<and> cm_consumer_id cmd = rc_handle r \<and> charge cmd m < 2 ^ 31 \<and>
      (case rc_slot r of Some c \<Rightarrow> snd (deliver env cmd m be bdy now c) \<noteq> Inr Dropped | None \<Rightarrow> False))"
| "admissible env ev r charged = True"

fun charge_of :: "recv_event \<Rightarrow> nat" where
  "charge_of (EvMessage cmd m be bdy now) = charge cmd m"
| "charge_of ev = 0"

definition subscribed :: "consumer_handle \<Rightarrow> nat \<Rightarrow> consumer \<Rightarrow> bool" where
  "subscribed h R c \<longleftrightarrow> cr_handle c = h \<and> cr_receiver_queue_size c = R \<and> cr_policy c = Fixed R \<and> \<not> cr_closed c \<and>
     \<not> cr_paused c \<and> cr_pending_seek c = None \<and> cr_granted_permits c = 0 \<and> cr_consumed_since_flow c = 0 \<and> cr_queue c = []"

inductive recv_run :: "cons_env \<Rightarrow> consumer_handle \<Rightarrow> nat \<Rightarrow> recv_conn \<Rightarrow> nat \<Rightarrow> bool" for env h R where
  start: "subscribed h R c \<Longrightarrow> recv_run env h R (conn_initial_flow h now (rc_init c)) 0"
| step: "recv_run env h R r charged \<Longrightarrow> admissible env ev r charged \<Longrightarrow> recv_step env h ev r = Some r' \<Longrightarrow>
    recv_run env h R r' (charged + charge_of ev)"

definition ledger_inv :: "consumer_handle \<Rightarrow> nat \<Rightarrow> nat \<Rightarrow> recv_conn \<Rightarrow> bool" where
  "ledger_inv h R charged r \<longleftrightarrow> rc_handle r = h \<and> (\<exists>c. rc_slot r = Some c \<and> cr_handle c = h \<and>
     cr_receiver_queue_size c = R \<and> cr_policy c = Fixed R \<and> \<not> cr_closed c \<and> \<not> cr_paused c \<and> cr_pending_seek c = None \<and>
     0 < cr_granted_permits c \<and> \<not> cr_initial_grant_due c \<and> cr_consumed_since_flow c < max (R div 2) 1 \<and>
     cr_consumed_since_flow c + length (cr_queue c) + wire_permits (rc_wire r) = R + charged \<and>
     wire_permits (rc_wire r) \<le> cr_permit_balance c + charged)"

text \<open>
  What an observer of the consumer and of the flow commands sees. Acks, negative acks and transactions
  do not change it, whatever part \<open>f\<close> of the consumer is observed, as long as \<open>f\<close> does not read their own
  fields.
\<close>

definition view_of :: "(consumer \<Rightarrow> 'a) \<Rightarrow> recv_conn \<Rightarrow> consumer_handle \<times> 'a option \<times> nat" where
  "view_of f r = (rc_handle r, map_option f (rc_slot r), wire_permits (rc_wire r))"

lemma slot_ofD: "slot_of h r = Some c \<Longrightarrow> rc_slot r = Some c \<and> h = rc_handle r"
  by (simp add: slot_of_def split: if_splits)

lemma view_set: "slot_of h r = Some c \<Longrightarrow> f c' = f c \<Longrightarrow> view_of f (r\<lparr>rc_slot := Some c'\<rparr>) = view_of f r"
  by (auto simp: view_of_def dest: slot_ofD)

lemma view_update [simp]: "(\<And>c. f (g c) = f c) \<Longrightarrow> view_of f (update_slot h g r) = view_of f r"
  by (simp add: view_of_def update_slot_def option.map_comp comp_def)

lemma view_redeliver [simp]: "view_of f (emit_redeliver_unacked h ms r) = view_of f r"
  by (simp add: view_of_def emit_redeliver_unacked_def rc_emit_def)

lemma view_redelivers [simp]: "view_of f (fold (emit_redeliver_unacked h) mss r) = view_of f r"
  by (induction mss arbitrary: r) simp_all

lemma view_wire_ack [simp]: "view_of f (rc_emit (CmdAck h ty ids props txn rid) r) = view_of f r"
  "view_of f (r\<lparr>rc_pending_acks := p\<rparr>) = view_of f r" "view_of f (r\<lparr>rc_error_outcomes := p'\<rparr>) = view_of f r"
  "view_of f (r\<lparr>rc_next_request_id := n\<rparr>) = view_of f r"
  by (simp_all add: view_of_def rc_emit_def)

locale ack_neutral =
  fixes f :: "consumer \<Rightarrow> 'a"
  assumes nack [simp]: "f (c\<lparr>cr_nack_tracker := nt\<rparr>) = f c"
    and unack [simp]: "f (c\<lparr>cr_unacked_tracker := ut\<rparr>) = f c"
    and tracker [simp]: "f (c\<lparr>cr_ack_tracker := at\<rparr>) = f c"
    and batches [simp]: "f (c\<lparr>cr_batch_ack_tracker := bt\<rparr>) = f c"
    and pending [simp]: "f (c\<lparr>cr_pending_transactional_acks := pt\<rparr>) = f c"
    and sent [simp]: "f (c\<lparr>cr_total_acks_sent := n\<rparr>) = f c"
    and failed [simp]: "f (c\<lparr>cr_total_acks_failed := n\<rparr>) = f c"
begin

lemma local_ack [simp]: "f (snd (apply_local_ack_state ack datas c)) = f c"
  by (simp add: apply_local_ack_state_def Let_def split_beta)

lemma local_acks: "f (fold (\<lambda>(ack, datas) c. snd (apply_local_ack_state ack datas c)) acks c) = f c"
  by (induction acks arbitrary: c) (simp_all add: split_beta)

lemma txn_ack [simp]: "f (snd (apply_txn_ack txn ack datas c)) = f c"
  by (simp add: apply_txn_ack_def Let_def split_beta)

lemma ack_view [simp]: "view_of f (fst (ack_inner h ack datas now r)) = view_of f r"
proof -
  define r0 where "r0 = fst (alloc_request_id r)"
  have r0: "view_of f r0 = view_of f r" by (simp add: r0_def alloc_request_id_def)
  have "view_of f (snd (case slot_of h r0 of
                 None \<Rightarrow> (plain_ack_message_ids ack datas, r0)
               | Some c \<Rightarrow>
                   (case (case ar_txn_id ack of
                            Some txn \<Rightarrow> apply_txn_ack txn ack datas c
                          | None \<Rightarrow> apply_local_ack_state ack datas c) of
                      (ids, c) \<Rightarrow> (ids, r0\<lparr>rc_slot := Some c\<rparr>)))) = view_of f r0"
    by (auto simp: split_beta view_set split: option.split)
  then show ?thesis using r0
    unfolding ack_inner_def Let_def split_beta r0_def [symmetric] by (simp add: if_distrib [of fst] if_distrib [of "view_of f"])
qed

lemma dispatch_view [simp]: "view_of f (dispatch_ack_actions acts now r) = view_of f r"
  by (induction acts arbitrary: r) (simp_all add: dispatch_ack_actions_def dispatch_ack_action_def split: ack_action.split)

lemma grouped_view [simp]: "view_of f (ack_grouped add h ack now r) = view_of f r"
  by (auto simp: ack_grouped_def split_beta view_set split: option.split)

lemma settle_view [simp]: "view_of f (settle_transactional_acks h txn b r) = view_of f r"
  by (auto simp: settle_transactional_acks_def Let_def local_acks intro!: view_set split: option.split)

lemma nack_view [simp]:
  "view_of f (negative_ack h ms now r) = view_of f r" "view_of f (negative_ack_with_delay h m d now r) = view_of f r"
  by (auto simp: negative_ack_def negative_ack_with_delay_def Let_def intro!: view_set split: option.split if_splits)

end

interpretation permits: ack_neutral permits_of
  by unfold_locales simp_all

abbreviation view :: "recv_conn \<Rightarrow> _" where "view \<equiv> view_of permits_of"

lemma ledger_view: "view r' = view r \<Longrightarrow> ledger_inv h R ch r \<Longrightarrow> ledger_inv h R ch r'"
  by (auto simp: view_of_def ledger_inv_def perm_defs)

lemma permits_adjust_fixed:
  assumes "cr_policy c = Fixed R" "cr_receiver_queue_size c = R" "0 < R" "adjust_tick now c = Some (c', flow)"
  shows "permits_of c' = permits_of c \<and> flow = None"
proof -
  have "permits_of (c\<lparr>cr_last_adjust_at := x, cr_receiver_queue_size := R\<rparr>) = permits_of c" for x
    using assms(2) by (simp add: perm_defs)
  then show ?thesis using assms
    by (auto simp: adjust_tick_def adjust_receiver_queue_def arm_adjust_clock_def Let_def max_absorb1 split: option.splits if_splits)
qed

lemma permits_poll_stall [simp]: "permits_of (fst (poll_stall w now c)) = permits_of c"
  by (simp add: poll_stall_def Let_def split: option.split)

lemma sweep_permits:
  assumes "cr_policy c = Fixed R" "cr_receiver_queue_size c = R" "0 < R" "sweep_consumer st now c = Some (c', out)"
  shows "permits_of c' = permits_of c \<and> to_adjust_flow out = None"
proof -
  define c1 where "c1 = (sweep_expired_chunks now
      (c\<lparr>cr_nack_tracker := fst (poll_tracker (\<lambda>t. nt_poll t now) (cr_nack_tracker c)),
         cr_unacked_tracker := fst (poll_tracker (\<lambda>t. ut_poll t now) (cr_unacked_tracker c)),
         cr_ack_tracker := fst (poll_tracker (\<lambda>t. at_poll t now) (cr_ack_tracker c))\<rparr>))\<lparr>cr_chunk_auto_ack_pending := []\<rparr>"
  have p: "permits_of c1 = permits_of c" by (simp add: c1_def)
  then have cfg: "cr_policy c1 = Fixed R" "cr_receiver_queue_size c1 = R" using assms(1,2) by (simp_all add: perm_defs)
  obtain c2 flow where a: "adjust_tick now c1 = Some (c2, flow)"
    using assms(4) unfolding sweep_consumer_def Let_def split_beta c1_def [symmetric] by (auto split: option.splits)
  have "permits_of c2 = permits_of c1 \<and> flow = None" by (rule permits_adjust_fixed [OF cfg assms(3) a])
  then show ?thesis using assms(4) a p unfolding sweep_consumer_def Let_def split_beta c1_def [symmetric]
    by (auto split: option.splits)
qed

lemma view_timeout:
  assumes c: "rc_slot r = Some c" "cr_policy c = Fixed R" "cr_receiver_queue_size c = R" and "0 < R"
    and t: "handle_timeout st now r = Some r'"
  shows "view r' = view r"
proof -
  obtain c' out where s: "sweep_consumer st now c = Some (c', out)"
    using t c(1) by (auto simp: handle_timeout_def split: option.splits)
  have p: "permits_of c' = permits_of c" "to_adjust_flow out = None" using sweep_permits [OF c(2,3) assms(4) s] by auto
  have "view (r\<lparr>rc_slot := Some c'\<rparr>) = view r" using p(1) c(1) by (simp add: view_of_def)
  then show ?thesis using t c(1) s p(2) by (auto simp: handle_timeout_def Let_def stage_flow_def split: if_splits)
qed

section \<open>The ledger holds\<close>

text \<open>A consumer whose replenishment is still due.\<close>

definition ledger_due :: "consumer_handle \<Rightarrow> nat \<Rightarrow> nat \<Rightarrow> nat \<Rightarrow> consumer \<Rightarrow> bool" where
  "ledger_due h R charged wire c \<longleftrightarrow> cr_handle c = h \<and> cr_receiver_queue_size c = R \<and> cr_policy c = Fixed R \<and>
     \<not> cr_closed c \<and> \<not> cr_paused c \<and> cr_pending_seek c = None \<and> 0 < cr_granted_permits c \<and> \<not> cr_initial_grant_due c \<and>
     cr_consumed_since_flow c \<le> U32_MAX \<and> cr_consumed_since_flow c + length (cr_queue c) + wire = R + charged \<and>
     wire \<le> cr_permit_balance c + charged"

lemma ledger_inv_alt:
  "ledger_inv h R ch r \<longleftrightarrow> rc_handle r = h \<and> (\<exists>c. rc_slot r = Some c \<and> cr_consumed_since_flow c < max (R div 2) 1 \<and>
     ledger_due h R ch (wire_permits (rc_wire r)) c)" if "R \<le> 2 ^ 31"
  using that by (auto simp: ledger_inv_def ledger_due_def)

lemma threshold_small [simp]: "R \<le> 2 ^ 31 \<Longrightarrow> cr_receiver_queue_size c = R \<Longrightarrow> flow_threshold c = max (R div 2) 1"
  by (auto simp: flow_threshold_def as_u32_def)

lemma ledger_flow:
  assumes due: "ledger_due h R ch (wire_permits (rc_wire r)) c" and R: "0 < R" "R \<le> 2 ^ 31" and "rc_handle r = h"
  shows "ledger_inv h R ch (stage_flow (snd (maybe_flow c)) (r\<lparr>rc_slot := Some (fst (maybe_flow c))\<rparr>))"
proof (cases "cr_consumed_since_flow c < max (R div 2) 1")
  case True
  then have "maybe_flow c = (c, None)" using due R by (simp add: maybe_flow_def ledger_due_def)
  then show ?thesis using assms True by (simp add: stage_flow_def ledger_inv_alt)
next
  case False
  let ?k = "cr_consumed_since_flow c"
  have k: "0 < ?k" using False by simp
  have m: "maybe_flow c = (clear_stall_watch
          (c\<lparr>cr_consumed_since_flow := 0, cr_granted_permits := sat_add U32_MAX (cr_granted_permits c) ?k,
             cr_permit_balance := sat_add U32_MAX (cr_permit_balance c) ?k\<rparr>), Some (CommandFlow h ?k))"
    using due False R by (simp add: maybe_flow_def ledger_due_def Let_def)
  have "wire_permits (rc_wire r) + ?k \<le> sat_add U32_MAX (cr_permit_balance c) ?k + ch"
    using due R by (auto simp: ledger_due_def sat_add_def min_def)
  moreover have "0 < sat_add U32_MAX (cr_granted_permits c) ?k" using k by (simp add: sat_add_def)
  ultimately show ?thesis using due assms(4) k
    by (simp add: m stage_flow_def rc_emit_def ledger_inv_def ledger_due_def clear_stall_watch_def)
qed

lemma not_starved:
  assumes "ledger_inv h R ch r" "0 < R" "R \<le> 2 ^ 31" "rc_slot r = Some c" shows "\<not> is_flow_starved c"
  using assms by (auto simp: ledger_inv_def is_flow_starved_def sat_add_def)

lemma initial_flow_idle:
  assumes "ledger_inv h R ch r" "0 < R" "R \<le> 2 ^ 31" shows "conn_initial_flow h now r = r"
proof -
  obtain c where c: "rc_slot r = Some c" "0 < cr_granted_permits c" "\<not> cr_initial_grant_due c" "rc_handle r = h"
    using assms(1) by (auto simp: ledger_inv_def)
  then show ?thesis using not_starved [OF assms c(1)] by (simp add: conn_initial_flow_def slot_of_def)
qed

lemma permits_active [simp]: "permits_of (record_active_change a c) = permits_of c"
  by (simp add: record_active_change_def wake_active_change_waiters_def perm_defs Let_def)

lemma view_active:
  assumes "ledger_inv h R ch r" "0 < R" "R \<le> 2 ^ 31" shows "view (on_active_consumer_change h a now r) = view r"
proof -
  obtain c where c: "slot_of h r = Some c" using assms(1) by (auto simp: ledger_inv_def slot_of_def)
  let ?r = "r\<lparr>rc_slot := Some (record_active_change a c)\<rparr>"
  have v: "view ?r = view r" using c by (simp add: view_set)
  have "conn_initial_flow h now ?r = ?r" by (rule initial_flow_idle [OF ledger_view [OF v assms(1)] assms(2,3)])
  then show ?thesis using c v by (cases a) (simp_all add: on_active_consumer_change_def Let_def)
qed

lemma ledger_message:
  assumes inv: "ledger_inv h R ch r" and R: "0 < R" "R \<le> 2 ^ 31" and adm: "admissible env (EvMessage cmd m be bdy now) r ch"
  shows "ledger_inv h R (ch + charge cmd m) (on_message env cmd m be bdy now r)"
proof -
  obtain c where c: "rc_slot r = Some c" "rc_handle r = h" and due: "ledger_due h R ch (wire_permits (rc_wire r)) c"
    using inv R(2) by (auto simp: ledger_inv_alt)
  let ?k = "charge cmd m" and ?c = "fst (deliver env cmd m be bdy now c)"
  have u: "units ?k c ?c" using due adm c(1) by (intro units_deliver) (simp_all add: ledger_due_def)
  have "cr_consumed_since_flow c + length (cr_queue c) < R" using due adm by (simp add: ledger_due_def)
  then have "cr_consumed_since_flow c + ?k \<le> U32_MAX" using adm R(2) by simp
  then have "ledger_due h R (ch + ?k) (wire_permits (rc_wire r)) ?c"
    using u due by (auto simp: units_def ledger_due_def cfg_of_def)
  from ledger_flow [OF this R c(2)] show ?thesis
    using c adm by (simp add: on_message_def slot_of_def is_marker_def Let_def split_beta)
qed

lemma ledger_pop:
  assumes inv: "ledger_inv h R ch r" and R: "0 < R" "R \<le> 2 ^ 31"
  shows "ledger_inv h R ch (fst (pop_message h now r))"
proof -
  obtain c where c: "rc_slot r = Some c" "rc_handle r = h" "cr_consumed_since_flow c < max (R div 2) 1"
      and due: "ledger_due h R ch (wire_permits (rc_wire r)) c"
    using inv R(2) by (auto simp: ledger_inv_alt)
  have "cr_consumed_since_flow c + 1 \<le> U32_MAX" using c(3) R(2) by simp
  then have "ledger_due h R ch (wire_permits (rc_wire r)) (fst (cr_pop_message now c))"
    using due R(1) by (cases "cr_queue c") (simp_all add: cr_pop_message_def ledger_due_def Let_def record_broker_permit_consumed_def)
  from ledger_flow [OF this R c(2)] show ?thesis
    using c by (simp add: pop_message_def slot_of_def Let_def split_beta)
qed

lemma ledger_step:
  assumes inv: "ledger_inv h R ch r" and R: "0 < R" "R \<le> 2 ^ 31" and adm: "admissible env ev r ch"
    and step: "recv_step env h ev r = Some r'"
  shows "ledger_inv h R (ch + charge_of ev) r'"
proof (cases ev)
  case (EvMessage cmd m be bdy now)
  then show ?thesis using ledger_message [OF inv R, of env cmd m be bdy now] adm step by auto
next
  case (EvPop now)
  then show ?thesis using ledger_pop [OF inv R] step by auto
next
  case (EvTimeout st now)
  obtain c where "rc_slot r = Some c" "cr_policy c = Fixed R" "cr_receiver_queue_size c = R"
    using inv by (auto simp: ledger_inv_def)
  then show ?thesis using ledger_view [OF view_timeout [OF _ _ _ R(1)] inv] step EvTimeout by simp
next
  case (EvActive a now)
  then show ?thesis using ledger_view [OF view_active [OF inv R] inv] step by auto
next
  case (EvInitialFlow now)
  then show ?thesis using initial_flow_idle [OF inv R] inv step by simp
qed (use step in \<open>auto intro!: ledger_view [OF _ inv] simp: ack_grouped_individual_def ack_grouped_cumulative_def
       register_receive_waker_def cancel_receive_waker_def\<close>)

lemma ledger_start:
  assumes "subscribed h R c" "0 < R" "R \<le> 2 ^ 31"
  shows "ledger_inv h R 0 (conn_initial_flow h now (rc_init c))"
  using assms by (auto simp: subscribed_def conn_initial_flow_def slot_of_def rc_init_def initial_flow_def Let_def stage_flow_def
    rc_emit_def ledger_inv_def arm_stall_watch_def arm_adjust_clock_def clear_stall_watch_def as_u32_def)

lemma recv_run_ledger: "recv_run env h R r ch \<Longrightarrow> 0 < R \<Longrightarrow> R \<le> 2 ^ 31 \<Longrightarrow> ledger_inv h R ch r"
  by (induction rule: recv_run.induct) (simp_all add: ledger_start ledger_step)

section \<open>Where permits are lost\<close>

lemma on_message_marker:
  assumes "is_marker m" "slot_of (cm_consumer_id cmd) r = Some c"
  shows "on_message env cmd m be bdy now r = r\<lparr>rc_slot := Some (record_marker_consumed c)\<rparr>"
  using assms by (simp add: on_message_def is_marker_def)

lemma markers_consumed:
  assumes "is_marker m" "cm_consumer_id cmd = rc_handle r" "rc_slot r = Some c" "cr_consumed_since_flow c + n \<le> U32_MAX"
  shows "\<exists>c'. ((on_message env cmd m be bdy now) ^^ n) r = r\<lparr>rc_slot := Some c'\<rparr> \<and> cfg_of c' = cfg_of c \<and>
    cr_consumed_since_flow c' = cr_consumed_since_flow c + n \<and> cr_permit_balance c' = cr_permit_balance c - n \<and>
    cr_queue c' = cr_queue c \<and> cr_receive_wakers c' = cr_receive_wakers c \<and> cr_woken c' = cr_woken c"
  using assms(4)
proof (induction n)
  case 0
  then show ?case using assms(3) by (intro exI [of _ c]) simp
next
  case (Suc n)
  then obtain c' where c': "((on_message env cmd m be bdy now) ^^ n) r = r\<lparr>rc_slot := Some c'\<rparr>" "cfg_of c' = cfg_of c"
    "cr_consumed_since_flow c' = cr_consumed_since_flow c + n" "cr_permit_balance c' = cr_permit_balance c - n"
    "cr_queue c' = cr_queue c" "cr_receive_wakers c' = cr_receive_wakers c" "cr_woken c' = cr_woken c" by auto
  have "slot_of (cm_consumer_id cmd) (r\<lparr>rc_slot := Some c'\<rparr>) = Some c'" using assms(2) by (simp add: slot_of_def)
  from on_message_marker [OF assms(1) this, of env be bdy now]
  have "((on_message env cmd m be bdy now) ^^ Suc n) r = r\<lparr>rc_slot := Some (record_marker_consumed c')\<rparr>" using c'(1) by simp
  then show ?case using c'(2-) Suc.prems
    by (intro exI [of _ "record_marker_consumed c'"])
      (simp add: record_marker_consumed_def record_dispatch_unit_def record_broker_permit_consumed_def cfg_of_def)
qed

lemma started:
  assumes "subscribed h R c" "0 < R" "R \<le> 2 ^ 31"
  obtains c' where "conn_initial_flow h now (rc_init c) =
      (rc_init c)\<lparr>rc_slot := Some c', rc_wire := [CmdFlow (CommandFlow h R)]\<rparr>"
    "cfg_of c' = (h, R, Fixed R, False, False, None, R, False)" "cr_consumed_since_flow c' = 0" "cr_permit_balance c' = R"
    "cr_queue c' = []" "cr_woken c' = cr_woken c"
proof (rule that [of "arm_stall_watch now (arm_adjust_clock now (fst (initial_flow c)))"])
qed (use assms in \<open>auto simp: subscribed_def conn_initial_flow_def slot_of_def rc_init_def initial_flow_def Let_def stage_flow_def
    rc_emit_def arm_stall_watch_def arm_adjust_clock_def clear_stall_watch_def as_u32_def cfg_of_def\<close>)

section \<open>Properties\<close>


text \<open>
  C7. Replicated-subscription markers are counted but never granted back on arrival, and wake nobody.
  After as many markers as the window holds, with a receiver parked beforehand, the broker has no
  permit left, nothing was sent, the receiver is still parked, the timers grant nothing, and the
  consumer is neither a stall candidate nor starved in the eyes of the code, so nothing re-arms it. Only
  a fresh pop would grant the window again.
\<close>

theorem markers_park_receiver:
  assumes "subscribed h R c" and "0 < R" and "R \<le> 2 ^ 31" and "is_marker m" and "cm_consumer_id cmd = h"
    and r0_def: "r0 = update_slot h (register_receive_waker k w) (conn_initial_flow h now (rc_init c))"
    and r_def: "r = ((on_message env cmd m be bdy t) ^^ R) r0"
  shows "\<exists>c'. rc_slot r = Some c' \<and> wire_permits (rc_wire r) = R \<and> cr_permit_balance c' = 0 \<and> cr_queue c' = [] \<and>
    hm_get (cr_receive_wakers c') k = Some w \<and> cr_woken c' = cr_woken c \<and> \<not> is_stall_candidate c' \<and>
    conn_initial_flow h t' r = r \<and>
    (\<forall>r'. handle_timeout st t' r = Some r' \<longrightarrow> wire_permits (rc_wire r') = R) \<and>
    wire_permits (rc_wire (fst (pop_message h t' r))) = R + R"
proof -
  obtain c0 where c0: "conn_initial_flow h now (rc_init c) = (rc_init c)\<lparr>rc_slot := Some c0, rc_wire := [CmdFlow (CommandFlow h R)]\<rparr>"
    "cfg_of c0 = (h, R, Fixed R, False, False, None, R, False)" "cr_consumed_since_flow c0 = 0" "cr_permit_balance c0 = R"
    "cr_queue c0 = []" "cr_woken c0 = cr_woken c"
    using started [OF assms(1-3)] by metis
  have h: "cr_handle c = h" using assms(1) by (simp add: subscribed_def)
  define c1 where "c1 = register_receive_waker k w c0"
  have c1: "cfg_of c1 = cfg_of c0" "cr_consumed_since_flow c1 = 0" "cr_permit_balance c1 = R" "cr_queue c1 = []"
    "cr_woken c1 = cr_woken c" "hm_get (cr_receive_wakers c1) k = Some w"
    using c0(3-6) by (simp_all add: c1_def register_receive_waker_def cfg_of_def)
  have r0: "r0 = (rc_init c)\<lparr>rc_slot := Some c1, rc_wire := [CmdFlow (CommandFlow h R)]\<rparr>"
    unfolding r0_def c0(1) using h by (simp add: update_slot_def c1_def rc_init_def)
  have "cm_consumer_id cmd = rc_handle r0" "rc_slot r0 = Some c1" using assms(5) h by (simp_all add: r0 rc_init_def)
  then obtain c2 where c2: "r = r0\<lparr>rc_slot := Some c2\<rparr>" "cfg_of c2 = cfg_of c1" "cr_consumed_since_flow c2 = R"
    "cr_permit_balance c2 = 0" "cr_queue c2 = []" "cr_receive_wakers c2 = cr_receive_wakers c1" "cr_woken c2 = cr_woken c1"
    using markers_consumed [OF assms(4), where r = r0 and c = c1 and n = R and env = env and be = be and bdy = bdy and now = t] assms(3) c1
    unfolding r_def by auto
  have cfg: "cfg_of c2 = (h, R, Fixed R, False, False, None, R, False)" using c2(2) c1(1) c0(2) by simp
  have w: "wire_permits (rc_wire r) = R" by (simp add: c2(1) r0)
  have slot: "rc_slot r = Some c2" "rc_handle r = h" using h by (simp_all add: c2(1) r0 rc_init_def)
  have th: "flow_threshold c2 \<le> R" using threshold_small [OF assms(3), of c2] cfg assms(2) by (simp add: cfg_of_def)
  then have "\<not> is_flow_starved c2" using c2(3,5) assms(3) by (simp add: is_flow_starved_def)
  then have i: "conn_initial_flow h t' r = r" using slot cfg assms(2) by (simp add: conn_initial_flow_def slot_of_def cfg_of_def)
  have t: "wire_permits (rc_wire r') = R" if "handle_timeout st t' r = Some r'" for r'
    using view_timeout [OF slot(1) _ _ assms(2) that] cfg w by (simp add: cfg_of_def view_of_def)
  have "wire_permits (rc_wire (fst (pop_message h t' r))) = R + R"
    using slot cfg c2(3,5) th w assms(2)
    by (simp add: pop_message_def slot_of_def cr_pop_message_def maybe_flow_def cfg_of_def Let_def stage_flow_def rc_emit_def)
  then show ?thesis using slot w c2 c1 i t by (simp add: is_stall_candidate_def)
qed


section \<open>Examples\<close>

definition env0 :: cons_env where "env0 = \<lparr>ce_dec_single = (\<lambda>_. None), ce_codecs = stored\<rparr>"
definition cmd0 :: command_message where
  "cmd0 = \<lparr>cm_consumer_id = 7, cm_message_id = MessageIdData 1 1 None None [] None None,
     cm_redelivery_count = None, cm_ack_set = []\<rparr>"
definition marker0 :: message_metadata where "marker0 = default_metadata\<lparr>mm_marker_type := Some 10\<rparr>"
definition chunk0 :: message_metadata where
  "chunk0 = default_metadata\<lparr>mm_uuid := Some ''u'', mm_num_chunks_from_msg := Some 3, mm_chunk_id := Some 1\<rparr>"

lemma subscribed_new: "subscribed h R (cr_new h R)"
  by (simp add: subscribed_def cr_new_def with_policy_def)

lemma run0: "recv_run env0 7 4 (conn_initial_flow 7 0 (rc_init (cr_new 7 4))) 0"
  by (rule recv_run.start [OF subscribed_new])

lemma slot0: "rc_slot (conn_initial_flow 7 0 (rc_init (cr_new 7 4))) =
    Some (arm_stall_watch 0 (arm_adjust_clock 0 (fst (initial_flow (cr_new 7 4)))))"
  by (simp add: conn_initial_flow_def slot_of_def rc_init_def cr_new_def with_policy_def initial_flow_def Let_def stage_flow_def
    rc_emit_def)

lemma run1: "recv_run env0 7 4 (on_message env0 cmd0 default_metadata None [1] 5 (conn_initial_flow 7 0 (rc_init (cr_new 7 4)))) 1"
proof -
  let ?r = "conn_initial_flow 7 0 (rc_init (cr_new 7 4))"
  have c: "charge cmd0 default_metadata = 1" by (simp add: charge_def entry_units_def default_metadata_def)
  have "admissible env0 (EvMessage cmd0 default_metadata None [1] 5) ?r 0"
    by (simp add: charge_def entry_units_def cmd0_def is_marker_def default_metadata_def conn_initial_flow_def slot_of_def rc_init_def cr_new_def with_policy_def
      initial_flow_def Let_def stage_flow_def rc_emit_def as_u32_def arm_stall_watch_def arm_adjust_clock_def clear_stall_watch_def
      deliver_def deliver_single_def classify_and_queue_def record_dispatch_unit_def)
  from recv_run.step [OF run0 this] show ?thesis by (simp add: c)
qed


theorem markers_park_receiver_witness:
  "\<exists>r c'. rc_slot r = Some c' \<and> wire_permits (rc_wire r) = 4 \<and> cr_permit_balance c' = 0 \<and> hm_get (cr_receive_wakers c') 0 = Some 9 \<and>
     r = ((on_message env0 cmd0 marker0 None [] 5) ^^ 4)
       (update_slot 7 (register_receive_waker 0 9) (conn_initial_flow 7 0 (rc_init (cr_new 7 4))))"
proof -
  have "is_marker marker0" "cm_consumer_id cmd0 = 7" by (simp_all add: is_marker_def marker0_def is_replicated_marker_def cmd0_def)
  from markers_park_receiver [OF subscribed_new _ _ this refl refl,
      where R = 4 and k = 0 and w = 9 and now = 0 and env = env0 and be = None and bdy = "[]" and t = 5 and t' = 6 and st = None]
  obtain c' where "rc_slot (((on_message env0 cmd0 marker0 None [] 5) ^^ 4)
       (update_slot 7 (register_receive_waker 0 9) (conn_initial_flow 7 0 (rc_init (cr_new 7 4))))) = Some c'"
    "wire_permits (rc_wire (((on_message env0 cmd0 marker0 None [] 5) ^^ 4)
       (update_slot 7 (register_receive_waker 0 9) (conn_initial_flow 7 0 (rc_init (cr_new 7 4)))))) = 4"
    "cr_permit_balance c' = 0" "hm_get (cr_receive_wakers c') 0 = Some 9" by (auto simp del: funpow.simps)
  then show ?thesis by blast
qed


end
