(* ===== verification/Auto_Growth.thy ===== *)
theory Auto_Growth
  imports Consumer_Flow
begin

text \<open>
  The permit ledger of a consumer with an auto-scaled receiver queue: a run in which growth leaves the
  consumer without permits.
\<close>

section \<open>Growth of an auto-scaled queue\<close>

text \<open>
  A consumer with the policy \<open>Auto\<close> of floor 2 and budget 8 bytes, fed with messages of one byte: window
  size, grants so far, balance, units not granted back, queue length, messages so far, last adjustment.
\<close>

definition auto_state :: "nat \<Rightarrow> nat \<Rightarrow> nat \<Rightarrow> nat \<Rightarrow> nat \<Rightarrow> nat \<Rightarrow> instant \<Rightarrow> consumer \<Rightarrow> bool" where
  "auto_state s g b k q n l c \<longleftrightarrow> cr_handle c = 7 \<and> cr_policy c = Auto 2 8 \<and> \<not> cr_closed c \<and> \<not> cr_paused c \<and>
     cr_pending_seek c = None \<and> cr_terminal_failure c = None \<and> cr_max_redeliver_count c = 0 \<and> cr_nack_tracker c = None \<and>
     cr_unacked_tracker c = None \<and> cr_ack_tracker c = None \<and> cr_chunk_reassembly_order c = [] \<and> cr_chunk_auto_ack_pending c = [] \<and>
     cr_adjust_interval c = Some 10 \<and> cr_last_adjust_at c = Some l \<and> cr_receiver_queue_size c = s \<and> cr_granted_permits c = g \<and>
     cr_permit_balance c = b \<and> cr_consumed_since_flow c = k \<and> length (cr_queue c) = q \<and> cr_queued_bytes c = q \<and>
     (\<forall>m \<in> set (cr_queue c). length (im_payload m) = 1) \<and> cr_total_msgs_received c = n \<and> cr_total_bytes_received c = n"

definition auto_conn :: "nat \<Rightarrow> nat \<Rightarrow> nat \<Rightarrow> nat \<Rightarrow> nat \<Rightarrow> nat \<Rightarrow> instant \<Rightarrow> nat \<Rightarrow> recv_conn \<Rightarrow> bool" where
  "auto_conn s g b k q n l w r \<longleftrightarrow> rc_handle r = 7 \<and> wire_permits (rc_wire r) = w \<and>
     (\<exists>c. rc_slot r = Some c \<and> auto_state s g b k q n l c)"

definition one_byte :: recv_event where "one_byte = EvMessage cmd0 default_metadata None [1] 0"

lemma auto_flow_idle: "auto_state s g b k q n l c \<Longrightarrow> s < 100 \<Longrightarrow> k < max (s div 2) 1 \<Longrightarrow> maybe_flow c = (c, None)"
  by (simp add: auto_state_def maybe_flow_def flow_threshold_def as_u32_def)

lemma auto_deliver:
  assumes "auto_state s g b k q n l c" "q < 100" "n < 100"
  shows "auto_state s g (b - 1) k (q + 1) (n + 1) l (fst (deliver env0 cmd0 default_metadata None [1] 0 c))"
  using assms
  by (auto simp: auto_state_def deliver_def deliver_single_def classify_and_queue_def record_dispatch_unit_def wake_receivers_def
      default_metadata_def Let_def)

lemma auto_message:
  assumes "auto_conn s g b k q n l w r" "q < 100" "n < 100" "s < 100" "k < max (s div 2) 1"
  shows "\<exists>r'. recv_step env0 7 one_byte r = Some r' \<and> auto_conn s g (b - 1) k (q + 1) (n + 1) l w r'"
proof -
  obtain c where c: "rc_slot r = Some c" "rc_handle r = 7" "wire_permits (rc_wire r) = w" "auto_state s g b k q n l c"
    using assms(1) by (auto simp: auto_conn_def)
  have d: "auto_state s g (b - 1) k (q + 1) (n + 1) l (fst (deliver env0 cmd0 default_metadata None [1] 0 c))"
    using auto_deliver [OF c(4)] assms by simp
  have "mm_marker_type default_metadata = None" "cm_consumer_id cmd0 = 7" by (simp_all add: default_metadata_def cmd0_def)
  then show ?thesis using c d auto_flow_idle [OF d assms(4,5)]
    by (simp add: one_byte_def on_message_def slot_of_def Let_def stage_flow_def auto_conn_def)
qed

lemma auto_popped:
  assumes "auto_state s g b k (Suc q) n l c" "k < 100" "0 < s"
  shows "auto_state s g b (k + 1) q n l (fst (cr_pop_message now c))"
proof -
  obtain m ms where q: "cr_queue c = m # ms" using assms(1) by (cases "cr_queue c") (auto simp: auto_state_def)
  show ?thesis using assms q
    by (simp add: auto_state_def cr_pop_message_def Let_def record_broker_permit_consumed_def)
qed

lemma auto_pop_idle:
  assumes "auto_conn s g b k (Suc q) n l w r" "0 < s" "s < 100" "k + 1 < max (s div 2) 1"
  shows "\<exists>r'. recv_step env0 7 (EvPop now) r = Some r' \<and> auto_conn s g b (k + 1) q n l w r'"
proof -
  obtain c where c: "rc_slot r = Some c" "rc_handle r = 7" "wire_permits (rc_wire r) = w" "auto_state s g b k (Suc q) n l c"
    using assms(1) by (auto simp: auto_conn_def)
  have d: "auto_state s g b (k + 1) q n l (fst (cr_pop_message now c))" using auto_popped [OF c(4)] assms by simp
  show ?thesis using c d auto_flow_idle [OF d assms(3,4)]
    by (simp add: pop_message_def slot_of_def Let_def split_beta stage_flow_def auto_conn_def)
qed

lemma auto_pop_flow:
  assumes "auto_conn 2 g b 0 (Suc q) n l w r" "g < 100" "b < 100"
  shows "\<exists>r'. recv_step env0 7 (EvPop now) r = Some r' \<and> auto_conn 2 (g + 1) (b + 1) 0 q n l (w + 1) r'"
proof -
  obtain c where c: "rc_slot r = Some c" "rc_handle r = 7" "wire_permits (rc_wire r) = w" "auto_state 2 g b 0 (Suc q) n l c"
    using assms(1) by (auto simp: auto_conn_def)
  have d: "auto_state 2 g b 1 q n l (fst (cr_pop_message now c))" using auto_popped [OF c(4)] by simp
  then have "auto_state 2 (g + 1) (b + 1) 0 q n l (fst (maybe_flow (fst (cr_pop_message now c))))"
    "snd (maybe_flow (fst (cr_pop_message now c))) = Some (CommandFlow 7 1)"
    using assms by (simp_all add: auto_state_def maybe_flow_def flow_threshold_def as_u32_def Let_def clear_stall_watch_def)
  then show ?thesis using c
    by (simp add: pop_message_def slot_of_def Let_def split_beta stage_flow_def rc_emit_def auto_conn_def)
qed

text \<open>An adjustment at zero balance doubles the window up to 8 and grants nothing: the old grants still count.\<close>

lemma auto_adjusted:
  assumes "auto_state s g 0 k q n l c" "2 \<le> s" "s \<le> 8" "8 \<le> g" "q < 8" "0 < n"
  shows "\<exists>c'. adjust_receiver_queue now 1 c = Some (c', None) \<and> auto_state (min (2 * s) 8) g 0 k q n now c'"
proof -
  have "policy_adjust (cr_policy c) (cr_flow_stats 1 (c\<lparr>cr_last_adjust_at := Some now\<rparr>)) = Some (min (2 * s) 8)"
    using assms by (simp add: auto_state_def cr_flow_stats_def auto_adjust_def byte_budget_cap_def per_partition_budget_def
      rust_clamp_def ABSOLUTE_MAX_def sat_mul_def Let_def max_def min_def)
  then show ?thesis using assms
    by (auto simp: auto_state_def adjust_receiver_queue_def Let_def as_u32_def min_def max_def)
qed

lemma auto_swept:
  assumes "auto_state s g 0 k q n l c" "2 \<le> s" "s \<le> 8" "8 \<le> g" "q < 8" "0 < n"
  shows "\<exists>c' l' out. sweep_consumer st now c = Some (c', out) \<and> to_redeliveries out = [] \<and> to_ack_actions out = [] \<and>
    to_chunk_acks out = [] \<and> to_adjust_flow out = None \<and>
    auto_state (if deadline_with_clamp l 10 \<le> now then min (2 * s) 8 else s) g 0 k q n l' c' \<and>
    (deadline_with_clamp l 10 \<le> now \<longrightarrow> l' = now)"
proof -
  define c1 where "c1 = (sweep_expired_chunks now
      (c\<lparr>cr_nack_tracker := fst (poll_tracker (\<lambda>t. nt_poll t now) (cr_nack_tracker c)),
         cr_unacked_tracker := fst (poll_tracker (\<lambda>t. ut_poll t now) (cr_unacked_tracker c)),
         cr_ack_tracker := fst (poll_tracker (\<lambda>t. at_poll t now) (cr_ack_tracker c))\<rparr>))\<lparr>cr_chunk_auto_ack_pending := []\<rparr>"
  have c1: "auto_state s g 0 k q n l c1"
    using assms(1) by (simp add: c1_def auto_state_def poll_tracker_def sweep_expired_chunks_def split: option.split)
  have pend: "cr_chunk_auto_ack_pending (sweep_expired_chunks now
      (c\<lparr>cr_nack_tracker := fst (poll_tracker (\<lambda>t. nt_poll t now) (cr_nack_tracker c)),
         cr_unacked_tracker := fst (poll_tracker (\<lambda>t. ut_poll t now) (cr_unacked_tracker c)),
         cr_ack_tracker := fst (poll_tracker (\<lambda>t. at_poll t now) (cr_ack_tracker c))\<rparr>)) = []"
    using assms(1) by (simp add: auto_state_def sweep_expired_chunks_def split: option.split)
  obtain c2 l2 where a: "adjust_tick now c1 = Some (c2, None)"
    and c2: "auto_state (if deadline_with_clamp l 10 \<le> now then min (2 * s) 8 else s) g 0 k q n l2 c2"
      "deadline_with_clamp l 10 \<le> now \<longrightarrow> l2 = now"
  proof (cases "deadline_with_clamp l 10 \<le> now")
    case True
    then show ?thesis using that auto_adjusted [OF c1 assms(2-), of now] c1
      by (auto simp: adjust_tick_def next_adjust_deadline_def auto_state_def)
  next
    case False
    then show ?thesis using that [of c1 l] c1
      by (auto simp: adjust_tick_def next_adjust_deadline_def auto_state_def)
  qed
  have stall: "auto_state x g 0 k q n l2 (fst (poll_stall w now c2))" if "auto_state x g 0 k q n l2 c2" for x w
    using that by (auto simp: auto_state_def poll_stall_def Let_def split: option.split)
  show ?thesis using a c2 stall [OF c2(1)] assms(1) pend
    unfolding sweep_consumer_def Let_def split_beta c1_def [symmetric]
    by (cases st) (auto simp: poll_tracker_def auto_state_def)
qed

lemma auto_timeout:
  assumes "auto_conn s g 0 k q n l w r" "2 \<le> s" "s \<le> 8" "8 \<le> g" "q < 8" "0 < n"
  shows "\<exists>r' l'. handle_timeout st now r = Some r' \<and>
    auto_conn (if deadline_with_clamp l 10 \<le> now then min (2 * s) 8 else s) g 0 k q n l' w r' \<and>
    (deadline_with_clamp l 10 \<le> now \<longrightarrow> l' = now)"
proof -
  obtain c where c: "rc_slot r = Some c" "rc_handle r = 7" "wire_permits (rc_wire r) = w" "auto_state s g 0 k q n l c"
    using assms(1) by (auto simp: auto_conn_def)
  obtain c' l' out where "sweep_consumer st now c = Some (c', out)" "to_redeliveries out = []" "to_ack_actions out = []"
    "to_chunk_acks out = []" "to_adjust_flow out = None"
    "auto_state (if deadline_with_clamp l 10 \<le> now then min (2 * s) 8 else s) g 0 k q n l' c'"
    "deadline_with_clamp l 10 \<le> now \<longrightarrow> l' = now"
    using auto_swept [OF c(4) assms(2-), of st now] by blast
  then show ?thesis using c
    by (auto simp: handle_timeout_def Let_def stage_flow_def dispatch_ack_actions_def auto_conn_def)
qed

text \<open>Sequences of calls.\<close>

fun recv_steps :: "cons_env \<Rightarrow> consumer_handle \<Rightarrow> recv_event list \<Rightarrow> recv_conn \<Rightarrow> recv_conn option" where
  "recv_steps env h [] r = Some r"
| "recv_steps env h (ev # evs) r = (case recv_step env h ev r of None \<Rightarrow> None | Some r' \<Rightarrow> recv_steps env h evs r')"

lemma recv_steps_append:
  "recv_steps env h (xs @ ys) r = (case recv_steps env h xs r of None \<Rightarrow> None | Some r' \<Rightarrow> recv_steps env h ys r')"
  by (induction xs arbitrary: r) (simp_all split: option.split)

lemma auto_cycles:
  assumes "auto_conn 2 g 2 0 0 n 0 w r" "g + j < 100" "n + j < 100"
  shows "\<exists>r'. recv_steps env0 7 (concat (replicate j [one_byte, EvPop 0])) r = Some r' \<and> auto_conn 2 (g + j) 2 0 0 (n + j) 0 (w + j) r'"
  using assms
proof (induction j arbitrary: g n w r)
  case 0
  then show ?case by simp
next
  case (Suc j)
  obtain r1 where 1: "recv_step env0 7 one_byte r = Some r1" "auto_conn 2 g 1 0 1 (n + 1) 0 w r1"
    using auto_message [OF Suc.prems(1)] Suc.prems by auto
  obtain r2 where 2: "recv_step env0 7 (EvPop 0) r1 = Some r2" "auto_conn 2 (g + 1) 2 0 0 (n + 1) 0 (w + 1) r2"
    using auto_pop_flow [of g 1 0 "n + 1" 0 w r1 0] 1(2) Suc.prems by (auto simp: numeral_2_eq_2)
  show ?case using Suc.IH [OF 2(2)] Suc.prems 1(1) 2(1) by simp
qed

definition auto_start :: recv_conn where
  "auto_start = conn_initial_flow 7 0 (rc_init (with_policy 7 (Auto 2 8) (Some 10)))"

definition growth_events :: "recv_event list" where
  "growth_events = concat (replicate 8 [one_byte, EvPop 0]) @
     [one_byte, one_byte, EvTimeout None 10, EvTimeout None 20, EvPop 21, EvPop 22]"

lemma auto_start_conn: "auto_conn 2 2 2 0 0 0 0 2 auto_start"
  by (simp add: auto_start_def conn_initial_flow_def slot_of_def rc_init_def with_policy_def initial_flow_def Let_def stage_flow_def
    rc_emit_def auto_conn_def auto_state_def arm_stall_watch_def arm_adjust_clock_def clear_stall_watch_def as_u32_def)

lemma deadline_10: "deadline_with_clamp 0 10 = 10" "deadline_with_clamp 10 10 = 20"
  by (simp_all add: deadline_with_clamp_def instant_checked_add_def checked_add_def INSTANT_MAX_def)

lemma growth_run: "\<exists>r l. recv_steps env0 7 growth_events auto_start = Some r \<and> auto_conn 8 10 0 2 0 10 l 10 r"
proof -
  obtain r1 where 1: "recv_steps env0 7 (concat (replicate 8 [one_byte, EvPop 0])) auto_start = Some r1"
    "auto_conn 2 10 2 0 0 8 0 10 r1" using auto_cycles [OF auto_start_conn, of 8] by auto
  obtain r2 where 2: "recv_step env0 7 one_byte r1 = Some r2" "auto_conn 2 10 1 0 1 9 0 10 r2"
    using auto_message [OF 1(2)] by auto
  obtain r3 where 3: "recv_step env0 7 one_byte r2 = Some r3" "auto_conn 2 10 0 0 2 10 0 10 r3"
    using auto_message [OF 2(2)] by (auto simp: numeral_2_eq_2)
  obtain r4 where 4: "recv_step env0 7 (EvTimeout None 10) r3 = Some r4" "auto_conn 4 10 0 0 2 10 10 10 r4"
    using auto_timeout [OF 3(2), of None 10] by (auto simp: deadline_10)
  obtain r5 where 5: "recv_step env0 7 (EvTimeout None 20) r4 = Some r5" "auto_conn 8 10 0 0 2 10 20 10 r5"
    using auto_timeout [OF 4(2), of None 20] by (auto simp: deadline_10)
  obtain r6 where 6: "recv_step env0 7 (EvPop 21) r5 = Some r6" "auto_conn 8 10 0 1 1 10 20 10 r6"
    using auto_pop_idle [OF 5(2) [unfolded numeral_2_eq_2 One_nat_def [symmetric]], of 21] by auto
  obtain r7 where 7: "recv_step env0 7 (EvPop 22) r6 = Some r7" "auto_conn 8 10 0 2 0 10 20 10 r7"
    using auto_pop_idle [OF 6(2) [unfolded One_nat_def], of 22] by (auto simp: Suc_1 [unfolded One_nat_def])
  show ?thesis using 1(1) 2(1) 3(1) 4(1) 5(1) 6(1) 7
    by (auto simp: growth_events_def recv_steps_append simp del: recv_step.simps)
qed


end
