(* ===== verification/Memory_Budget.thy ===== *)
theory Memory_Budget
  imports Magnetar_Prelude "HOL-Library.Multiset"
begin

text \<open>
  The client memory limit, \<open>crates/magnetar-proto/src/memory_limit.rs\<close>: a byte counter updated
  with compare-and-swap, and a set of parked wakers behind a mutex. The first part gives each
  operation as it runs without interference; the second gives the interleaving of any number of
  threads at the granularity of the atomic operations and of the lock.
\<close>

type_synonym waker = nat
type_synonym waiter_id = nat

datatype memory_limit_policy = FailImmediately | ProducerBlock

record limit_exceeded =
  le_current :: nat
  le_limit :: nat
  le_requested :: nat

text \<open>
  A parked waiter is its waker; the size it waits for is kept beside it to state what a wake-up
  is good for, no operation reads it.
\<close>

record waiters =
  wt_next_id :: nat
  wt_parked :: "(waiter_id, waker \<times> nat) hashmap"

record memory_controller =
  mc_limit :: nat
  mc_policy :: memory_limit_policy
  mc_used :: nat
  mc_waiters :: waiters

text \<open>\<open>MemoryReservation\<close>: whether it points back to the controller, and its size.\<close>

record reservation =
  rv_counted :: bool
  rv_bytes :: nat

definition mc_new :: "nat \<Rightarrow> memory_limit_policy \<Rightarrow> memory_controller" where
  "mc_new limit policy = \<lparr>mc_limit = limit, mc_policy = policy, mc_used = 0,
     mc_waiters = \<lparr>wt_next_id = 0, wt_parked = []\<rparr>\<rparr>"

text \<open>\<open>current.checked_add(bytes).filter(|next| *next <= limit)\<close>\<close>

definition next_used :: "nat \<Rightarrow> nat \<Rightarrow> nat \<Rightarrow> nat option" where
  "next_used limit current bytes =
     (case checked_add U64_MAX current bytes of
        Some next \<Rightarrow> if next \<le> limit then Some next else None | None \<Rightarrow> None)"

definition try_reserve ::
    "memory_controller \<Rightarrow> nat \<Rightarrow> limit_exceeded + memory_controller \<times> reservation" where
  "try_reserve c bytes =
     (if mc_limit c = 0 then Inr (c, \<lparr>rv_counted = False, rv_bytes = 0\<rparr>)
      else case next_used (mc_limit c) (mc_used c) bytes of
        None \<Rightarrow> Inl \<lparr>le_current = mc_used c, le_limit = mc_limit c, le_requested = bytes\<rparr>
      | Some next \<Rightarrow> Inr (c\<lparr>mc_used := next\<rparr>, \<lparr>rv_counted = True, rv_bytes = bytes\<rparr>))"

definition park :: "waiters \<Rightarrow> waiter_id option \<Rightarrow> waker \<Rightarrow> nat \<Rightarrow> waiters \<times> waiter_id option" where
  "park w waiter wk bytes =
     (case waiter of
        Some i \<Rightarrow>
          if hm_contains (wt_parked w) i
          then (w\<lparr>wt_parked := hm_insert i (wk, bytes) (wt_parked w)\<rparr>, waiter)
          else (w\<lparr>wt_next_id := wrap_add64 (wt_next_id w) 1,
                  wt_parked := hm_insert (wt_next_id w) (wk, bytes) (wt_parked w)\<rparr>, Some (wt_next_id w))
      | None \<Rightarrow> (w\<lparr>wt_next_id := wrap_add64 (wt_next_id w) 1,
                  wt_parked := hm_insert (wt_next_id w) (wk, bytes) (wt_parked w)\<rparr>, Some (wt_next_id w)))"

definition unpark :: "waiters \<Rightarrow> waiter_id option \<Rightarrow> waiters" where
  "unpark w waiter =
     (case waiter of Some i \<Rightarrow> w\<lparr>wt_parked := hm_remove i (wt_parked w)\<rparr> | None \<Rightarrow> w)"

text \<open>The result is the reservation when \<open>Ready\<close>, and the waiter slot of the caller.\<close>

definition poll_reserve ::
    "memory_controller \<Rightarrow> nat \<Rightarrow> waiter_id option \<Rightarrow> waker \<Rightarrow>
     memory_controller \<times> reservation option \<times> waiter_id option" where
  "poll_reserve c bytes waiter wk =
     (case try_reserve c bytes of
        Inr (c', r) \<Rightarrow> (c'\<lparr>mc_waiters := unpark (mc_waiters c') waiter\<rparr>, Some r, None)
      | Inl _ \<Rightarrow> (let (w, waiter') = park (mc_waiters c) waiter wk bytes
                  in (c\<lparr>mc_waiters := w\<rparr>, None, waiter')))"

definition cancel_waiter :: "memory_controller \<Rightarrow> waiter_id \<Rightarrow> memory_controller" where
  "cancel_waiter c i = c\<lparr>mc_waiters := unpark (mc_waiters c) (Some i)\<rparr>"

text \<open>\<open>fetch_sub\<close> wraps modulo \<open>2 ^ 64\<close>.\<close>

definition fetch_sub :: "nat \<Rightarrow> nat \<Rightarrow> nat" where
  "fetch_sub x y = (x + 2 ^ 64 - y) mod 2 ^ 64"

definition mc_release :: "memory_controller \<Rightarrow> nat \<Rightarrow> memory_controller \<times> waker list" where
  "mc_release c bytes =
     (c\<lparr>mc_used := fetch_sub (mc_used c) bytes, mc_waiters := (mc_waiters c)\<lparr>wt_parked := []\<rparr>\<rparr>,
      map (fst \<circ> snd) (wt_parked (mc_waiters c)))"

definition drop_reservation :: "memory_controller \<Rightarrow> reservation \<Rightarrow> memory_controller \<times> waker list" where
  "drop_reservation c r = (if rv_counted r then mc_release c (rv_bytes r) else (c, []))"

lemmas mc_defs [op_defs] = mc_new_def try_reserve_def park_def unpark_def poll_reserve_def
  cancel_waiter_def mc_release_def drop_reservation_def

section \<open>Threads\<close>

text \<open>
  Where a thread is: between two atomic operations of \<open>try_reserve\<close> (\<open>Try\<close>), of \<open>poll_reserve\<close>
  (\<open>Poll\<close>, from \<open>PollLoad\<close> on with the lock held) or of \<open>release\<close>, after the counter was lowered
  and before the parked set is taken (\<open>RelTake\<close>).
\<close>

datatype pc =
    Idle
  | TryLoad nat
  | TryCas nat nat
  | PollLock nat "waiter_id option" waker
  | PollLoad nat "waiter_id option" waker
  | PollCas nat "waiter_id option" waker nat
  | PollPark nat "waiter_id option" waker
  | PollDone "waiter_id option"
  | RelTake

fun holds_lock :: "pc \<Rightarrow> bool" where
  "holds_lock (PollLoad _ _ _) = True"
| "holds_lock (PollCas _ _ _ _) = True"
| "holds_lock (PollPark _ _ _) = True"
| "holds_lock (PollDone _) = True"
| "holds_lock _ = False"

text \<open>The live reservations that count, and every waker called so far.\<close>

record mem =
  mm_ctl :: memory_controller
  mm_lock :: "nat option"
  mm_pc :: "nat \<Rightarrow> pc"
  mm_held :: "nat multiset"
  mm_woken :: "waker list"

abbreviation goto :: "mem \<Rightarrow> nat \<Rightarrow> pc \<Rightarrow> mem" where
  "goto s t p \<equiv> s\<lparr>mm_pc := (mm_pc s)(t := p)\<rparr>"

abbreviation set_used :: "nat \<Rightarrow> mem \<Rightarrow> mem" where
  "set_used u s \<equiv> s\<lparr>mm_ctl := (mm_ctl s)\<lparr>mc_used := u\<rparr>\<rparr>"

abbreviation set_waiters :: "waiters \<Rightarrow> mem \<Rightarrow> mem" where
  "set_waiters w s \<equiv> s\<lparr>mm_ctl := (mm_ctl s)\<lparr>mc_waiters := w\<rparr>\<rparr>"

abbreviation "used_of s \<equiv> mc_used (mm_ctl s)"
abbreviation "limit_of s \<equiv> mc_limit (mm_ctl s)"
abbreviation "parked_of s \<equiv> wt_parked (mc_waiters (mm_ctl s))"

inductive mem_step :: "mem \<Rightarrow> mem \<Rightarrow> bool" where
  try_start: "mm_pc s t = Idle \<Longrightarrow> limit_of s \<noteq> 0 \<Longrightarrow> mem_step s (goto s t (TryLoad b))"
| try_load: "mm_pc s t = TryLoad b \<Longrightarrow>
    mem_step s (goto s t (if next_used (limit_of s) (used_of s) b = None then Idle else TryCas b (used_of s)))"
| try_cas_ok: "mm_pc s t = TryCas b (used_of s) \<Longrightarrow> next_used (limit_of s) (used_of s) b = Some n \<Longrightarrow>
    mem_step s (goto ((set_used n s)\<lparr>mm_held := add_mset b (mm_held s)\<rparr>) t Idle)"
| try_cas_lost: "mm_pc s t = TryCas b cur \<Longrightarrow> used_of s \<noteq> cur \<Longrightarrow> mem_step s (goto s t (TryLoad b))"
| poll_start: "mm_pc s t = Idle \<Longrightarrow> mem_step s (goto s t (PollLock b w k))"
| poll_lock: "mm_pc s t = PollLock b w k \<Longrightarrow> mm_lock s = None \<Longrightarrow>
    mem_step s (goto (s\<lparr>mm_lock := Some t\<rparr>) t (PollLoad b w k))"
| poll_load: "mm_pc s t = PollLoad b w k \<Longrightarrow>
    mem_step s (goto s t (if limit_of s = 0 then PollDone w
                          else if next_used (limit_of s) (used_of s) b = None then PollPark b w k
                          else PollCas b w k (used_of s)))"
| poll_cas_ok: "mm_pc s t = PollCas b w k (used_of s) \<Longrightarrow> next_used (limit_of s) (used_of s) b = Some n \<Longrightarrow>
    mem_step s (goto ((set_used n s)\<lparr>mm_held := add_mset b (mm_held s)\<rparr>) t (PollDone w))"
| poll_cas_lost: "mm_pc s t = PollCas b w k cur \<Longrightarrow> used_of s \<noteq> cur \<Longrightarrow> mem_step s (goto s t (PollLoad b w k))"
| poll_park: "mm_pc s t = PollPark b w k \<Longrightarrow>
    mem_step s (goto ((set_waiters (fst (park (mc_waiters (mm_ctl s)) w k b)) s)\<lparr>mm_lock := None\<rparr>) t Idle)"
| poll_done: "mm_pc s t = PollDone w \<Longrightarrow>
    mem_step s (goto ((set_waiters (unpark (mc_waiters (mm_ctl s)) w) s)\<lparr>mm_lock := None\<rparr>) t Idle)"
| cancel: "mm_pc s t = Idle \<Longrightarrow> mm_lock s = None \<Longrightarrow>
    mem_step s (set_waiters (unpark (mc_waiters (mm_ctl s)) (Some i)) s)"
| release: "mm_pc s t = Idle \<Longrightarrow> b \<in># mm_held s \<Longrightarrow>
    mem_step s (goto ((set_used (fetch_sub (used_of s) b) s)\<lparr>mm_held := mm_held s - {#b#}\<rparr>) t RelTake)"
| rel_take: "mm_pc s t = RelTake \<Longrightarrow> mm_lock s = None \<Longrightarrow>
    mem_step s (goto ((set_waiters ((mc_waiters (mm_ctl s))\<lparr>wt_parked := []\<rparr>) s)
      \<lparr>mm_woken := mm_woken s @ map (fst \<circ> snd) (parked_of s)\<rparr>) t Idle)"

definition mem_init :: "nat \<Rightarrow> memory_limit_policy \<Rightarrow> mem" where
  "mem_init limit policy = \<lparr>mm_ctl = mc_new limit policy, mm_lock = None, mm_pc = (\<lambda>_. Idle),
     mm_held = {#}, mm_woken = []\<rparr>"

inductive mem_reach :: "nat \<Rightarrow> memory_limit_policy \<Rightarrow> mem \<Rightarrow> bool" for limit policy where
  init: "mem_reach limit policy (mem_init limit policy)"
| step: "mem_reach limit policy s \<Longrightarrow> mem_step s s' \<Longrightarrow> mem_reach limit policy s'"

text \<open>
  A call of \<open>try_reserve\<close> on an unlimited controller touches nothing and is no step; inside
  \<open>poll_reserve\<close> it goes straight to the end of the critical section.

  The calls given above are runs of these steps by one thread that nobody interrupts: \<open>held_after\<close>
  adds the reservation a call returned to the live ones.
\<close>

definition held_after :: "reservation option \<Rightarrow> nat multiset \<Rightarrow> nat multiset" where
  "held_after r held = (case r of Some r \<Rightarrow> if rv_counted r then add_mset (rv_bytes r) held else held | None \<Rightarrow> held)"

section \<open>Invariants\<close>

text \<open>
  The counter is the sum of the live reservations and within the limit; the lock is held by exactly
  the thread that is inside the critical section; and whoever is parked, or is about to park, waits
  for a size that does not fit, unless a release is on its way to wake everybody.
\<close>

definition mem_inv :: "mem \<Rightarrow> bool" where
  "mem_inv s \<longleftrightarrow> used_of s = sum_mset (mm_held s) \<and> used_of s \<le> limit_of s \<and>
     (\<forall>t. holds_lock (mm_pc s t) \<longleftrightarrow> mm_lock s = Some t)"

definition waiting :: "mem \<Rightarrow> nat \<Rightarrow> bool" where
  "waiting s b \<longleftrightarrow> (\<exists>i k. (i, k, b) \<in> set (parked_of s)) \<or> (\<exists>t w k. mm_pc s t = PollPark b w k)"

definition wake_inv :: "mem \<Rightarrow> bool" where
  "wake_inv s \<longleftrightarrow> (\<forall>b. waiting s b \<longrightarrow>
     next_used (limit_of s) (used_of s) b = None \<or> (\<exists>t. mm_pc s t = RelTake))"

lemma next_used_Some: "next_used limit u b = Some n \<longleftrightarrow> n = u + b \<and> u + b \<le> U64_MAX \<and> u + b \<le> limit"
  by (auto simp: next_used_def checked_add_def)

lemma next_used_None_mono: "next_used limit u b = None \<Longrightarrow> u \<le> u' \<Longrightarrow> next_used limit u' b = None"
  by (auto simp: next_used_def checked_add_def split: if_splits)

lemma fetch_sub_exact: "y \<le> x \<Longrightarrow> x \<le> U64_MAX \<Longrightarrow> fetch_sub x y = x - y"
proof -
  assume a: "y \<le> x" "x \<le> U64_MAX"
  have e: "x + N - y = (x - y) + N" for N using a(1) by linarith
  have "x - y < 2 ^ 64" using a(2) by simp
  then have "(x - y) mod 2 ^ 64 = x - y" by (rule mod_less)
  then show ?thesis unfolding fetch_sub_def e mod_add_self2 .
qed

lemma held_le_sum: "b \<in># M \<Longrightarrow> b \<le> sum_mset (M :: nat multiset)"
  by (auto dest!: multi_member_split)

lemma limit_const: "mem_step s s' \<Longrightarrow> limit_of s' = limit_of s"
  by (induction rule: mem_step.induct) simp_all

lemma mutex_step:
  assumes "mem_step s s'" and "\<forall>t. holds_lock (mm_pc s t) \<longleftrightarrow> mm_lock s = Some t"
  shows "\<forall>t. holds_lock (mm_pc s' t) \<longleftrightarrow> mm_lock s' = Some t"
proof -
  have lk: "mm_lock s = Some t \<longleftrightarrow> holds_lock (mm_pc s t)" for t using assms(2) by simp
  have only: "\<not> holds_lock (mm_pc s u)" if "holds_lock (mm_pc s t)" "u \<noteq> t" for t u
    using that lk by (metis option.inject)
  have none: "\<not> holds_lock (mm_pc s u)" if "mm_lock s = None" for u
    using that lk [of u] by simp
  show ?thesis
    using assms(1)
  proof cases
    case (poll_lock t b w k)
    then show ?thesis using assms(2) by auto
  next
    case (poll_park t b w k)
    then show ?thesis using only [of t] by simp
  next
    case (poll_done t w)
    then show ?thesis using only [of t] by simp
  qed (simp_all add: lk none)
qed

lemma count_step:
  assumes "mem_step s s'" and "used_of s = sum_mset (mm_held s)" "used_of s \<le> limit_of s"
    and "limit_of s \<le> U64_MAX"
  shows "used_of s' = sum_mset (mm_held s') \<and> used_of s' \<le> limit_of s'"
  using assms(1)
proof cases
  case (release t b)
  have "b \<le> used_of s" using release(3) assms(2) by (simp add: held_le_sum)
  then have "fetch_sub (used_of s) b = used_of s - b"
    using assms(3,4) by (intro fetch_sub_exact) simp_all
  moreover have "sum_mset (mm_held s - {#b#}) = sum_mset (mm_held s) - b"
    using release(3) by (auto dest!: multi_member_split)
  ultimately show ?thesis using release assms(2,3) by simp
qed (use assms in \<open>simp_all add: next_used_Some\<close>)

lemma mem_inv_step:
  "mem_step s s' \<Longrightarrow> mem_inv s \<Longrightarrow> limit_of s \<le> U64_MAX \<Longrightarrow> mem_inv s'"
  unfolding mem_inv_def using mutex_step count_step by blast

lemma mem_reach_inv:
  assumes "mem_reach limit policy s" and "limit \<le> U64_MAX"
  shows "mem_inv s \<and> limit_of s = limit"
  using assms
proof (induction rule: mem_reach.induct)
  case init
  then show ?case by (simp add: mem_inv_def mem_init_def mc_new_def)
next
  case (step s s')
  then show ?case using mem_inv_step limit_const by auto
qed

text \<open>
  C36. Under every interleaving of threads that try, poll, cancel and release reservations, the
  counter equals the sum of the live reservations and never exceeds the limit: concurrent
  compare-and-swap attempts lose no update and a release never wraps the counter.
\<close>

theorem memory_never_exceeds_limit:
  assumes "mem_reach limit policy s" and "limit \<le> U64_MAX"
  shows "used_of s = sum_mset (mm_held s) \<and> sum_mset (mm_held s) \<le> limit"
  using mem_reach_inv [OF assms] by (simp add: mem_inv_def)

section \<open>Wake-ups\<close>

lemma set_hm_insert: "set (hm_insert j v m) \<subseteq> insert (j, v) (set m)"
  by (induction m) auto

lemma set_hm_remove: "set (hm_remove j m) \<subseteq> set m"
  by (auto simp: AList.delete_eq)

lemma parked_after_park:
  "(i, k', b') \<in> set (wt_parked (fst (park w waiter k b))) \<Longrightarrow> b' = b \<or> (i, k', b') \<in> set (wt_parked w)"
proof -
  assume "(i, k', b') \<in> set (wt_parked (fst (park w waiter k b)))"
  then obtain j where "(i, k', b') \<in> set (hm_insert j (k, b) (wt_parked w))"
    by (auto simp: park_def split: option.splits if_splits)
  from subsetD [OF set_hm_insert this] show ?thesis by auto
qed

lemma parked_after_unpark: "set (wt_parked (unpark w waiter)) \<subseteq> set (wt_parked w)"
  by (cases waiter) (simp_all add: unpark_def set_hm_remove)

text \<open>
  A step that keeps the counter from falling, adds nobody who could be served and does not end a
  release keeps the wake-up invariant.
\<close>

lemma wake_inv_mono:
  assumes "wake_inv s" "limit_of s' = limit_of s" "used_of s \<le> used_of s'"
    and "\<And>b. waiting s' b \<Longrightarrow> waiting s b \<or> next_used (limit_of s) (used_of s) b = None"
    and "\<And>t. mm_pc s t = RelTake \<Longrightarrow> mm_pc s' t = RelTake"
  shows "wake_inv s'"
  unfolding wake_inv_def
proof (intro allI impI)
  fix b assume "waiting s' b"
  then have "next_used (limit_of s) (used_of s) b = None \<or> (\<exists>t. mm_pc s t = RelTake)"
    using assms(1,4) unfolding wake_inv_def by blast
  then show "next_used (limit_of s') (used_of s') b = None \<or> (\<exists>t. mm_pc s' t = RelTake)"
    using next_used_None_mono assms(2,3,5) by metis
qed

lemma wake_inv_goto:
  assumes "wake_inv s" "mm_pc s' = (mm_pc s)(t := p)" "mm_pc s t \<noteq> RelTake"
    and "\<And>b w k. p = PollPark b w k \<Longrightarrow> next_used (limit_of s) (used_of s) b = None"
    and "set (parked_of s') \<subseteq> set (parked_of s)" "limit_of s' = limit_of s" "used_of s \<le> used_of s'"
  shows "wake_inv s'"
proof (rule wake_inv_mono [OF assms(1,6,7)])
  fix b assume "waiting s' b"
  then consider i k where "(i, k, b) \<in> set (parked_of s')"
    | u w k where "((mm_pc s)(t := p)) u = PollPark b w k"
    unfolding waiting_def assms(2) by blast
  then show "waiting s b \<or> next_used (limit_of s) (used_of s) b = None"
  proof cases
    case 1
    then show ?thesis using assms(5) unfolding waiting_def by blast
  next
    case (2 u w k)
    then show ?thesis using assms(4) unfolding waiting_def by (cases "u = t") auto
  qed
next
  fix u assume "mm_pc s u = RelTake"
  then show "mm_pc s' u = RelTake" using assms(2,3) by (cases "u = t") auto
qed

lemma wake_inv_step:
  assumes "mem_step s s'" and "wake_inv s" and "mem_inv s"
  shows "wake_inv s'"
  using assms(1)
proof cases
  case (poll_park t b w k)
  have wb: "waiting s b" using poll_park by (auto simp: waiting_def)
  show ?thesis
  proof (rule wake_inv_mono [OF assms(2)])
    fix b' assume "waiting s' b'"
    then consider i k' where "(i, k', b') \<in> set (wt_parked (fst (park (mc_waiters (mm_ctl s)) w k b)))"
      | u w' k' where "((mm_pc s)(t := Idle)) u = PollPark b' w' k'"
      unfolding waiting_def poll_park(1) by auto
    then show "waiting s b' \<or> next_used (limit_of s) (used_of s) b' = None"
    proof cases
      case 1
      then show ?thesis using parked_after_park [OF 1] wb unfolding waiting_def by blast
    next
      case (2 u w' k')
      then show ?thesis unfolding waiting_def by (cases "u = t") auto
    qed
  qed (use poll_park in auto)
next
  case (release t b)
  then have "mm_pc s' t = RelTake" by simp
  then show ?thesis unfolding wake_inv_def by blast
next
  case (rel_take t)
  have "\<not> holds_lock (mm_pc s u)" for u using assms(3) rel_take(3) by (simp add: mem_inv_def)
  then have "mm_pc s u \<noteq> PollPark b w k" for u b w k by (metis holds_lock.simps(3))
  then have "\<not> waiting s' b" for b using rel_take(1) by (auto simp: waiting_def)
  then show ?thesis unfolding wake_inv_def by simp
next
  case (cancel t i)
  then show ?thesis
    by (intro wake_inv_goto [OF assms(2), of s' t Idle]) (auto dest: parked_after_unpark [THEN subsetD])
next
  case (poll_done t w)
  then show ?thesis
    by (intro wake_inv_goto [OF assms(2), of s' t Idle]) (auto dest: parked_after_unpark [THEN subsetD])
next
  case (try_load t b)
  then show ?thesis
    by (intro wake_inv_goto [OF assms(2), of s' t "mm_pc s' t"]) (simp_all split: if_splits)
next
  case (poll_load t b w k)
  then show ?thesis
    by (intro wake_inv_goto [OF assms(2), of s' t "mm_pc s' t"]) (simp_all split: if_splits)
next
  case (try_cas_ok t b n)
  then show ?thesis
    by (intro wake_inv_goto [OF assms(2), of s' t Idle]) (simp_all add: next_used_Some)
next
  case (poll_cas_ok t b w k n)
  then show ?thesis
    by (intro wake_inv_goto [OF assms(2), of s' t "PollDone w"]) (simp_all add: next_used_Some)
next
  case (try_start t b)
  then show ?thesis by (intro wake_inv_goto [OF assms(2), of s' t "TryLoad b"]) simp_all
next
  case (try_cas_lost t b cur)
  then show ?thesis by (intro wake_inv_goto [OF assms(2), of s' t "TryLoad b"]) simp_all
next
  case (poll_start t b w k)
  then show ?thesis by (intro wake_inv_goto [OF assms(2), of s' t "PollLock b w k"]) simp_all
next
  case (poll_lock t b w k)
  then show ?thesis by (intro wake_inv_goto [OF assms(2), of s' t "PollLoad b w k"]) simp_all
next
  case (poll_cas_lost t b w k cur)
  then show ?thesis by (intro wake_inv_goto [OF assms(2), of s' t "PollLoad b w k"]) simp_all
qed

lemma mem_reach_wake_inv:
  assumes "mem_reach limit policy s" and "limit \<le> U64_MAX"
  shows "wake_inv s"
  using assms
proof (induction rule: mem_reach.induct)
  case init
  then show ?case by (simp add: wake_inv_def waiting_def mem_init_def mc_new_def)
next
  case (step s s')
  then show ?case using wake_inv_step mem_reach_inv by blast
qed

text \<open>
  C37. No wake-up is lost: whenever a sender is parked although its reservation would fit, some
  release has already lowered the counter and has yet to take the parked set, and that step wakes
  this sender. So a sender never stays parked beside free budget, however the releases, the
  attempts and the parking interleave.
\<close>

theorem no_lost_wakeup:
  assumes "mem_reach limit policy s" and "limit \<le> U64_MAX"
    and "(i, k, b) \<in> set (parked_of s)" and "next_used limit (used_of s) b \<noteq> None"
  shows "\<exists>t. mm_pc s t = RelTake \<and>
    (\<forall>s'. mem_step s s' \<and> mm_pc s' t \<noteq> RelTake \<longrightarrow> k \<in> set (mm_woken s'))"
proof -
  have "waiting s b" using assms(3) by (auto simp: waiting_def)
  then obtain t where t: "mm_pc s t = RelTake"
    using mem_reach_wake_inv [OF assms(1,2)] mem_reach_inv [OF assms(1,2)] assms(4)
    by (auto simp: wake_inv_def)
  moreover have "k \<in> set (mm_woken s')" if "mem_step s s'" "mm_pc s' t \<noteq> RelTake" for s'
    using that(1)
  proof cases
    case (rel_take u)
    then show ?thesis using assms(3) by force
  qed (use that(2) t in \<open>simp_all split: if_splits\<close>)
  ultimately show ?thesis by auto
qed

section \<open>Calls are runs of steps\<close>

lemma goto_self: "mm_pc s t = p \<Longrightarrow> (mm_pc s)(t := p) = mm_pc s"
  by auto

lemma mem_run_end:
  "mm_ctl x = mm_ctl y \<Longrightarrow> mm_lock x = mm_lock y \<Longrightarrow> mm_pc x = mm_pc y \<Longrightarrow> mm_held x = mm_held y \<Longrightarrow>
   mm_woken x = mm_woken y \<Longrightarrow> mem_step\<^sup>*\<^sup>* x y"
  by (cases x, cases y) simp

lemmas mem_run_step = converse_rtranclp_into_rtranclp [of mem_step]

lemma try_reserve_run:
  assumes "mm_pc s t = Idle" and "try_reserve (mm_ctl s) b = Inr (c', r)"
  shows "mem_step\<^sup>*\<^sup>* s (s\<lparr>mm_ctl := c', mm_held := held_after (Some r) (mm_held s)\<rparr>)"
proof (cases "limit_of s = 0")
  case True
  then show ?thesis using assms(2) by (auto simp: try_reserve_def held_after_def)
next
  case False
  with assms(2) obtain n where n: "next_used (limit_of s) (used_of s) b = Some n"
      "c' = (mm_ctl s)\<lparr>mc_used := n\<rparr>" "r = \<lparr>rv_counted = True, rv_bytes = b\<rparr>"
    by (auto simp: try_reserve_def split: option.splits)
  show ?thesis
    apply (rule mem_run_step, rule try_start [OF assms(1) False, of b])
    apply (rule mem_run_step, rule try_load [of _ t b], simp)
    apply (rule mem_run_step, rule try_cas_ok [of _ t b n])
      apply (simp_all add: n)
    apply (rule mem_run_end)
    by (simp_all add: n held_after_def goto_self [OF assms(1)])
qed

lemma poll_reserve_run:
  assumes "mm_pc s t = Idle" and "mm_lock s = None" and "poll_reserve (mm_ctl s) b w k = (c', r, w')"
  shows "mem_step\<^sup>*\<^sup>* s (s\<lparr>mm_ctl := c', mm_held := held_after r (mm_held s)\<rparr>)"
proof -
  have enter: "mem_step\<^sup>*\<^sup>* s s'"
    if "mem_step\<^sup>*\<^sup>* (goto (s\<lparr>mm_lock := Some t\<rparr>) t (PollLoad b w k)) s'" for s'
    apply (rule mem_run_step, rule poll_start [OF assms(1), of b w k])
    apply (rule mem_run_step, rule poll_lock [of _ t b w k])
    using assms(2) that by simp_all
  consider (unlimited) "limit_of s = 0"
    | (full) "limit_of s \<noteq> 0" "next_used (limit_of s) (used_of s) b = None"
    | (fits) n where "limit_of s \<noteq> 0" "next_used (limit_of s) (used_of s) b = Some n"
    by (cases "next_used (limit_of s) (used_of s) b") auto
  then show ?thesis
  proof cases
    case unlimited
    show ?thesis
      apply (rule enter, rule mem_run_step, rule poll_load [of _ t b w k], simp)
      apply (rule mem_run_step, rule poll_done [of _ t w], simp add: unlimited)
      apply (rule mem_run_end)
      using unlimited assms by (auto simp: poll_reserve_def try_reserve_def held_after_def goto_self [OF assms(1)])
  next
    case full
    show ?thesis
      apply (rule enter, rule mem_run_step, rule poll_load [of _ t b w k], simp)
      apply (rule mem_run_step, rule poll_park [of _ t b w k], simp add: full)
      apply (rule mem_run_end)
      using full assms
      by (auto simp: poll_reserve_def try_reserve_def held_after_def goto_self [OF assms(1)] split: prod.splits)
  next
    case (fits n)
    show ?thesis
      apply (rule enter, rule mem_run_step, rule poll_load [of _ t b w k], simp)
      apply (rule mem_run_step, rule poll_cas_ok [of _ t b w k n])
        apply (simp_all add: fits)
      apply (rule mem_run_step, rule poll_done [of _ t w], simp)
      apply (rule mem_run_end)
      using fits assms by (auto simp: poll_reserve_def try_reserve_def held_after_def goto_self [OF assms(1)])
  qed
qed

lemma release_run:
  assumes "mm_pc s t = Idle" and "mm_lock s = None" and "b \<in># mm_held s"
  shows "mem_step\<^sup>*\<^sup>* s (s\<lparr>mm_ctl := fst (mc_release (mm_ctl s) b), mm_held := mm_held s - {#b#},
    mm_woken := mm_woken s @ snd (mc_release (mm_ctl s) b)\<rparr>)"
  apply (rule mem_run_step, rule release [OF assms(1,3)])
  apply (rule mem_run_step, rule rel_take [of _ t], simp, simp add: assms)
  apply (rule mem_run_end)
  using assms by (simp_all add: mc_release_def goto_self [OF assms(1)])


section \<open>An example run\<close>

text \<open>
  A limit of 100: thread 2 reserves 80, thread 5 asks for 50, fails and parks with waker 9, and
  thread 2 releases its reservation but has not yet taken the parked set.
\<close>

definition ctl_example :: "nat \<Rightarrow> (waiter_id, waker \<times> nat) hashmap \<Rightarrow> nat \<Rightarrow> memory_controller" where
  "ctl_example u ps n = \<lparr>mc_limit = 100, mc_policy = ProducerBlock, mc_used = u,
     mc_waiters = \<lparr>wt_next_id = n, wt_parked = ps\<rparr>\<rparr>"

definition mem_example :: "nat \<Rightarrow> (waiter_id, waker \<times> nat) hashmap \<Rightarrow> nat \<Rightarrow> nat option \<Rightarrow>
    (nat \<Rightarrow> pc) \<Rightarrow> nat multiset \<Rightarrow> mem" where
  "mem_example u ps n l p h = \<lparr>mm_ctl = ctl_example u ps n, mm_lock = l, mm_pc = p, mm_held = h, mm_woken = []\<rparr>"

lemmas example_defs = mem_example_def ctl_example_def

lemma example_reserved: "mem_reach 100 ProducerBlock (mem_example 80 [] 0 None (\<lambda>_. Idle) {#80#})"
proof -
  have "mem_reach 100 ProducerBlock (mem_example 0 [] 0 None (\<lambda>_. Idle) {#})"
    using mem_reach.init [of 100 ProducerBlock] by (simp add: mem_init_def mc_new_def example_defs)
  from mem_reach.step [OF this try_start [of _ 2 80]]
  have "mem_reach 100 ProducerBlock (mem_example 0 [] 0 None ((\<lambda>_. Idle)(2 := TryLoad 80)) {#})"
    by (simp add: example_defs)
  from mem_reach.step [OF this try_load [of _ 2 80]]
  have "mem_reach 100 ProducerBlock (mem_example 0 [] 0 None ((\<lambda>_. Idle)(2 := TryCas 80 0)) {#})"
    by (simp add: example_defs next_used_def checked_add_def)
  from mem_reach.step [OF this try_cas_ok [of _ 2 80 80]]
  show ?thesis by (simp add: example_defs next_used_def checked_add_def fun_upd_idem)
qed

lemma example_parked:
  "mem_reach 100 ProducerBlock (mem_example 80 [(0, 9, 50)] (Suc 0) None (\<lambda>_. Idle) {#80#})"
proof -
  from mem_reach.step [OF example_reserved poll_start [of _ 5 50 None 9]]
  have "mem_reach 100 ProducerBlock (mem_example 80 [] 0 None ((\<lambda>_. Idle)(5 := PollLock 50 None 9)) {#80#})"
    by (simp add: example_defs)
  from mem_reach.step [OF this poll_lock [of _ 5 50 None 9]]
  have "mem_reach 100 ProducerBlock (mem_example 80 [] 0 (Some 5) ((\<lambda>_. Idle)(5 := PollLoad 50 None 9)) {#80#})"
    by (simp add: example_defs)
  from mem_reach.step [OF this poll_load [of _ 5 50 None 9]]
  have "mem_reach 100 ProducerBlock (mem_example 80 [] 0 (Some 5) ((\<lambda>_. Idle)(5 := PollPark 50 None 9)) {#80#})"
    by (simp add: example_defs next_used_def checked_add_def)
  from mem_reach.step [OF this poll_park [of _ 5 50 None 9]]
  show ?thesis by (simp add: example_defs park_def wrap_add64_def fun_upd_idem)
qed

lemma example_released:
  "mem_reach 100 ProducerBlock (mem_example 0 [(0, 9, 50)] (Suc 0) None ((\<lambda>_. Idle)(2 := RelTake)) {#})"
  using mem_reach.step [OF example_parked release [of _ 2 80]]
  by (simp add: example_defs fetch_sub_def)


theorem memory_never_exceeds_limit_witness:
  "let s = mem_example 80 [(0, 9, 50)] (Suc 0) None (\<lambda>_. Idle) {#80#}
   in used_of s = sum_mset (mm_held s) \<and> sum_mset (mm_held s) \<le> 100"
  unfolding Let_def using memory_never_exceeds_limit [OF example_parked] by simp

theorem no_lost_wakeup_witness:
  "let s = mem_example 0 [(0, 9, 50)] (Suc 0) None ((\<lambda>_. Idle)(2 := RelTake)) {#}
   in \<exists>t. mm_pc s t = RelTake \<and>
     (\<forall>s'. mem_step s s' \<and> mm_pc s' t \<noteq> RelTake \<longrightarrow> 9 \<in> set (mm_woken s'))"
  unfolding Let_def
  by (rule no_lost_wakeup [OF example_released, of 0 9 50])
    (simp_all add: example_defs next_used_def checked_add_def)

end
