(* ===== verification/Producer.thy ===== *)
theory Producer
  imports Msg_Types Clock Memory_Budget
begin

text \<open>
  The producer state machine, \<open>crates/magnetar-proto/src/producer.rs\<close>: sequence ids, the batch
  container, chunking, the queue of pending sends with its index, receipts and errors, timeouts,
  and the snapshot and replay around a reconnect. The compression codecs, the protobuf encoder of
  the per-message header and the generated UUID are parameters. The receive-rate window (floats)
  is left out; the latency histogram is the list of the recorded values.
\<close>

section \<open>Data\<close>

record outgoing_message =
  om_payload :: bytes
  om_metadata :: message_metadata
  om_uncompressed_size :: nat
  om_num_messages :: int
  om_txn_id :: "txn_id option"
  om_source_message_id :: "message_id option"

datatype send_decision = Emit nat | Batched

record outbound_frame =
  of_command :: command_send
  of_metadata :: message_metadata
  of_payload :: bytes
  of_sequence_id :: nat

record op_send =
  op_sequence_id :: nat
  op_num_messages :: int
  op_waker :: "waker option"
  op_receipt :: "message_id option"
  op_error :: "(int \<times> string) option"
  op_enqueued_at :: instant
  op_replay_frames :: "outbound_frame list"
  op_reservation :: reservation

record batch_container =
  bc_messages :: "(single_metadata \<times> bytes) list"
  bc_current_size_bytes :: nat
  bc_lowest_sequence_id :: "nat option"
  bc_highest_sequence_id :: "nat option"
  bc_first_added_at :: "instant option"
  bc_txn_id :: "txn_id option"

record producer =
  pr_handle :: producer_handle
  pr_topic :: string
  pr_name :: "string option"
  pr_compression :: compression_kind
  pr_max_message_size :: nat
  pr_max_batch_size_bytes :: nat
  pr_max_messages_in_batch :: nat
  pr_batching_enabled :: bool
  pr_chunking_enabled :: bool
  pr_next_sequence_id :: nat
  pr_last_sequence_id_pushed :: int
  pr_last_sequence_id_published :: int
  pr_pending :: "op_send list"
  pr_pending_index :: "(nat, nat) hashmap"
  pr_batch :: batch_container
  pr_outbound :: "outbound_frame list"
  pr_closed :: bool
  pr_close_request :: "nat option"
  pr_broker_ready :: bool
  pr_has_ever_attached :: bool
  pr_open_request_id :: "nat option"
  pr_transient_open_attempts :: nat
  pr_last_open_error :: "(int \<times> string) option"
  pr_total_msgs_sent :: nat
  pr_total_bytes_sent :: nat
  pr_total_send_failed :: nat
  pr_total_acks_received :: nat
  pr_send_timeout :: "duration option"
  pr_batching_max_publish_delay :: "duration option"
  pr_access_mode :: int
  pr_send_latency_hist :: "nat list option"
  pr_epoch :: nat

datatype producer_error = MessageTooLarge nat nat | ProducerClosed | SendRejected string

text \<open>\<open>pb::CommandSendReceipt\<close> and \<open>pb::CommandSendError\<close>\<close>

record send_receipt =
  sr_producer_id :: nat
  sr_sequence_id :: nat
  sr_message_id :: "message_id_data option"
  sr_highest_sequence_id :: "nat option"

record send_error =
  se_producer_id :: nat
  se_sequence_id :: nat
  se_error :: int
  se_message :: string

text \<open>The code that is not part of the repository: the codecs and the header encoder.\<close>

record prod_env =
  pe_compress :: "compression_kind \<Rightarrow> bytes \<Rightarrow> bytes option"
  pe_enc_single :: "single_metadata \<Rightarrow> bytes"

definition no_reservation :: reservation where
  "no_reservation = \<lparr>rv_counted = False, rv_bytes = 0\<rparr>"

section \<open>The batch container and the chunk count\<close>

definition already_encoded :: "message_metadata \<Rightarrow> bool" where
  "already_encoded m \<longleftrightarrow> mm_encryption_keys m \<noteq> [] \<or>
     (case mm_compression m of Some codec \<Rightarrow> codec \<noteq> ck_to_pb CkNone | None \<Rightarrow> False)"

definition bc_default :: batch_container where
  "bc_default = \<lparr>bc_messages = [], bc_current_size_bytes = 0, bc_lowest_sequence_id = None,
     bc_highest_sequence_id = None, bc_first_added_at = None, bc_txn_id = None\<rparr>"

definition bc_is_empty :: "batch_container \<Rightarrow> bool" where
  "bc_is_empty b \<longleftrightarrow> bc_messages b = []"

definition bc_len :: "batch_container \<Rightarrow> nat" where
  "bc_len b = length (bc_messages b)"

definition bc_clear :: "batch_container \<Rightarrow> batch_container" where
  "bc_clear b = b\<lparr>bc_messages := [], bc_current_size_bytes := 0, bc_lowest_sequence_id := None,
     bc_highest_sequence_id := None, bc_first_added_at := None, bc_txn_id := None\<rparr>"

definition matches_txn :: "batch_container \<Rightarrow> txn_id option \<Rightarrow> bool" where
  "matches_txn b incoming \<longleftrightarrow> bc_is_empty b \<or> bc_txn_id b = incoming"

definition i32_try_from :: "nat \<Rightarrow> int option" where
  "i32_try_from n = (if int n \<le> I32_MAX then Some (int n) else None)"

text \<open>\<open>payload.len() as i32\<close>\<close>

definition as_i32 :: "nat \<Rightarrow> int" where
  "as_i32 n = (let m = int n mod 2 ^ 32 in if m < 2 ^ 31 then m else m - 2 ^ 32)"

definition compute_total_chunks :: "nat \<Rightarrow> nat \<Rightarrow> int" where
  "compute_total_chunks payload_len max_chunk_size =
     (if max_chunk_size = 0 then 1
      else unwrap_or I32_MAX (i32_try_from (max (div_ceil payload_len max_chunk_size) 1)))"

section \<open>Construction, timeouts and limits\<close>

definition pr_new :: "producer_handle \<Rightarrow> string \<Rightarrow> compression_kind \<Rightarrow> nat \<Rightarrow> producer" where
  "pr_new h topic kind max_message_size = \<lparr>pr_handle = h, pr_topic = topic, pr_name = None,
     pr_compression = kind, pr_max_message_size = max_message_size,
     pr_max_batch_size_bytes = 128 * 1024, pr_max_messages_in_batch = 1000,
     pr_batching_enabled = False, pr_chunking_enabled = False, pr_next_sequence_id = 0,
     pr_last_sequence_id_pushed = -1, pr_last_sequence_id_published = -1, pr_pending = [],
     pr_pending_index = [], pr_batch = bc_default, pr_outbound = [], pr_closed = False,
     pr_close_request = None, pr_broker_ready = False, pr_has_ever_attached = False,
     pr_open_request_id = None, pr_transient_open_attempts = 0, pr_last_open_error = None,
     pr_total_msgs_sent = 0, pr_total_bytes_sent = 0,
     pr_total_send_failed = 0, pr_total_acks_received = 0, pr_send_timeout = None,
     pr_batching_max_publish_delay = None, pr_access_mode = 0,
     pr_send_latency_hist = Some [], pr_epoch = 0\<rparr>"

definition set_initial_sequence_id :: "producer \<Rightarrow> nat \<Rightarrow> producer" where
  "set_initial_sequence_id p next =
     (let p = p\<lparr>pr_next_sequence_id := next\<rparr> in
      if next > 0
      then let l = max (- (2 ^ 63)) (u64_as_i64 next - 1)
           in p\<lparr>pr_last_sequence_id_published := l, pr_last_sequence_id_pushed := l\<rparr>
      else p)"

definition next_send_deadline :: "producer \<Rightarrow> instant option" where
  "next_send_deadline p =
     (case pr_send_timeout p of
        None \<Rightarrow> None
      | Some timeout \<Rightarrow>
          (case pr_pending p of [] \<Rightarrow> None
           | op # _ \<Rightarrow> Some (deadline_with_clamp (op_enqueued_at op) timeout)))"

fun drain_timed_out :: "duration \<Rightarrow> instant \<Rightarrow> op_send list \<Rightarrow> (nat, nat) hashmap \<Rightarrow>
    op_send list \<times> (nat, nat) hashmap \<times> op_send list" where
  "drain_timed_out timeout now [] idx = ([], idx, [])"
| "drain_timed_out timeout now (op # ops) idx =
     (if now < deadline_with_clamp (op_enqueued_at op) timeout then (op # ops, idx, [])
      else let (rest, idx', out) = drain_timed_out timeout now ops (hm_remove (op_sequence_id op) idx)
           in (rest, idx', op # out))"

definition drain_timed_out_sends :: "producer \<Rightarrow> instant \<Rightarrow> producer \<times> op_send list" where
  "drain_timed_out_sends p now =
     (case pr_send_timeout p of
        None \<Rightarrow> (p, [])
      | Some timeout \<Rightarrow>
          let (rest, idx, out) = drain_timed_out timeout now (pr_pending p) (pr_pending_index p)
          in (p\<lparr>pr_pending := rest, pr_pending_index := idx\<rparr>, out))"

definition can_add_to_batch :: "producer \<Rightarrow> nat \<Rightarrow> int \<Rightarrow> bool" where
  "can_add_to_batch p payload_size num_messages =
     (if \<not> pr_batching_enabled p \<or> pr_closed p then False
      else if sat_add USIZE_MAX (bc_len (pr_batch p)) (nat (max num_messages 1)) > pr_max_messages_in_batch p
      then False
      else if sat_add USIZE_MAX (bc_current_size_bytes (pr_batch p)) payload_size > pr_max_batch_size_bytes p
      then False
      else True)"

definition next_batch_deadline :: "producer \<Rightarrow> instant option" where
  "next_batch_deadline p =
     (case (pr_batching_max_publish_delay p, bc_first_added_at (pr_batch p)) of
        (Some max_delay, Some first) \<Rightarrow> Some (deadline_with_clamp first max_delay)
      | _ \<Rightarrow> None)"

definition batch_deadline_elapsed :: "producer \<Rightarrow> instant \<Rightarrow> bool" where
  "batch_deadline_elapsed p now =
     (case next_batch_deadline p of Some d \<Rightarrow> now \<ge> d | None \<Rightarrow> False)"

section \<open>Queueing a message\<close>

definition stamp_name :: "producer \<Rightarrow> message_metadata \<Rightarrow> message_metadata" where
  "stamp_name p m =
     (case pr_name p of
        Some name \<Rightarrow> if mm_producer_name m = [] then m\<lparr>mm_producer_name := name\<rparr> else m
      | None \<Rightarrow> m)"

definition stamp_txn :: "txn_id option \<Rightarrow> message_metadata \<Rightarrow> message_metadata" where
  "stamp_txn t m =
     (case t of
        Some t \<Rightarrow> m\<lparr>mm_txnid_least_bits := Some (least_sig_bits t), mm_txnid_most_bits := Some (most_sig_bits t)\<rparr>
      | None \<Rightarrow> m)"

definition assign_sequence_id ::
    "producer \<Rightarrow> message_metadata \<Rightarrow> nat \<Rightarrow> producer \<times> message_metadata \<times> nat" where
  "assign_sequence_id p m publish_time =
     (let seq = pr_next_sequence_id p;
          m = m\<lparr>mm_sequence_id := seq, mm_publish_time := publish_time\<rparr>;
          m = stamp_name p m
      in (p\<lparr>pr_next_sequence_id := wrap_add64 seq 1, pr_last_sequence_id_pushed := u64_as_i64 seq\<rparr>, m, seq))"

text \<open>\<open>pending_index.insert(seq, pending.len()); pending.push_back(op)\<close>\<close>

definition push_pending :: "op_send \<Rightarrow> producer \<Rightarrow> producer" where
  "push_pending op p =
     p\<lparr>pr_pending_index := hm_insert (op_sequence_id op) (length (pr_pending p)) (pr_pending_index p),
       pr_pending := pr_pending p @ [op]\<rparr>"

definition new_op :: "nat \<Rightarrow> int \<Rightarrow> instant \<Rightarrow> outbound_frame list \<Rightarrow> reservation \<Rightarrow> op_send" where
  "new_op seq n now frames r = \<lparr>op_sequence_id = seq, op_num_messages = n, op_waker = None,
     op_receipt = None, op_error = None, op_enqueued_at = now, op_replay_frames = frames,
     op_reservation = r\<rparr>"

definition emit_single ::
    "producer \<Rightarrow> outgoing_message \<Rightarrow> reservation \<Rightarrow> nat \<Rightarrow> instant \<Rightarrow> producer \<times> send_decision" where
  "emit_single p msg r publish_time now =
     (let m = (om_metadata msg)\<lparr>mm_num_chunks_from_msg := None, mm_chunk_id := None,
                mm_total_chunk_msg_size := None, mm_uuid := None\<rparr>;
          m = (if om_uncompressed_size msg > 0
               then m\<lparr>mm_uncompressed_size := Some (om_uncompressed_size msg)\<rparr> else m);
          m = stamp_txn (om_txn_id msg) m;
          (p, m, seq) = assign_sequence_id p m publish_time;
          send = \<lparr>cs_producer_id = pr_handle p, cs_sequence_id = seq,
            cs_num_messages = Some (max (om_num_messages msg) 1),
            cs_txnid_least_bits = map_option least_sig_bits (om_txn_id msg),
            cs_txnid_most_bits = map_option most_sig_bits (om_txn_id msg),
            cs_highest_sequence_id = None, cs_is_chunk = None, cs_marker = None,
            cs_message_id = map_option mid_to_pb (om_source_message_id msg)\<rparr>;
          num_messages = max (om_num_messages msg) 1;
          p = p\<lparr>pr_total_msgs_sent := sat_add U64_MAX (pr_total_msgs_sent p) (nat num_messages),
                pr_total_bytes_sent := sat_add U64_MAX (pr_total_bytes_sent p) (length (om_payload msg))\<rparr>;
          frame = \<lparr>of_command = send, of_metadata = m, of_payload = om_payload msg, of_sequence_id = seq\<rparr>;
          p = p\<lparr>pr_outbound := pr_outbound p @ [frame]\<rparr>
      in (push_pending (new_op seq num_messages now [frame] r) p, Emit 1))"

definition single_of :: "outgoing_message \<Rightarrow> single_metadata" where
  "single_of msg =
     (let md = om_metadata msg;
          s = default_single\<lparr>sm_payload_size := unwrap_or I32_MAX (i32_try_from (length (om_payload msg)))\<rparr>;
          s = (case mm_partition_key md of Some k \<Rightarrow> s\<lparr>sm_partition_key := Some k\<rparr> | None \<Rightarrow> s);
          s = (case mm_ordering_key md of Some k \<Rightarrow> s\<lparr>sm_ordering_key := Some k\<rparr> | None \<Rightarrow> s);
          s = (if mm_properties md \<noteq> [] then s\<lparr>sm_properties := mm_properties md\<rparr> else s);
          s = (case mm_event_time md of Some t \<Rightarrow> s\<lparr>sm_event_time := Some t\<rparr> | None \<Rightarrow> s);
          s = (case mm_null_value md of Some b \<Rightarrow> s\<lparr>sm_null_value := Some b\<rparr> | None \<Rightarrow> s)
      in case mm_null_partition_key md of Some b \<Rightarrow> s\<lparr>sm_null_partition_key := Some b\<rparr> | None \<Rightarrow> s)"

definition add_to_batch ::
    "producer \<Rightarrow> outgoing_message \<Rightarrow> reservation \<Rightarrow> nat \<Rightarrow> instant \<Rightarrow> producer \<times> send_decision" where
  "add_to_batch p msg r publish_time now =
     (let b = pr_batch p;
          msg_seq = pr_next_sequence_id p;
          b = b\<lparr>bc_current_size_bytes := sat_add USIZE_MAX (bc_current_size_bytes b) (length (om_payload msg))\<rparr>;
          b = (if bc_is_empty b then b\<lparr>bc_txn_id := om_txn_id msg\<rparr> else b);
          b = b\<lparr>bc_messages := bc_messages b @ [(single_of msg, om_payload msg)]\<rparr>;
          b = (if bc_lowest_sequence_id b = None then b\<lparr>bc_lowest_sequence_id := Some msg_seq\<rparr> else b);
          b = b\<lparr>bc_highest_sequence_id := Some msg_seq\<rparr>;
          b = (if bc_first_added_at b = None then b\<lparr>bc_first_added_at := Some now\<rparr> else b);
          p = p\<lparr>pr_batch := b, pr_next_sequence_id := wrap_add64 msg_seq 1,
                pr_last_sequence_id_pushed := u64_as_i64 msg_seq\<rparr>
      in (push_pending (new_op msg_seq 1 now [] r) p, Batched))"

text \<open>The body of a batch frame: each message behind its length-prefixed header.\<close>

definition batch_body :: "prod_env \<Rightarrow> (single_metadata \<times> bytes) list \<Rightarrow> bytes" where
  "batch_body env ms =
     concat (map (\<lambda>(sm, pl). put_u32 (as_u32 (length (pe_enc_single env sm))) @ pe_enc_single env sm @ pl) ms)"

definition batch_frame :: "prod_env \<Rightarrow> producer \<Rightarrow> nat \<Rightarrow> outbound_frame" where
  "batch_frame env p publish_time =
     (let b = pr_batch p;
          num_messages = as_i32 (length (bc_messages b));
          concatenated = batch_body env (bc_messages b);
          compressed = (if pr_compression p \<noteq> CkNone then pe_compress env (pr_compression p) concatenated else None);
          (payload, codec, payload_total) =
            (case compressed of
               Some body \<Rightarrow> (body, pr_compression p, length concatenated)
             | None \<Rightarrow> (concatenated, CkNone, bc_current_size_bytes b));
          m = default_metadata\<lparr>mm_num_messages_in_batch := Some num_messages\<rparr>;
          m = (case pr_name p of Some name \<Rightarrow> m\<lparr>mm_producer_name := name\<rparr> | None \<Rightarrow> m);
          m = stamp_txn (bc_txn_id b) m;
          lowest = unwrap_or (pr_next_sequence_id p) (bc_lowest_sequence_id b);
          highest = unwrap_or (nat (max (pr_last_sequence_id_pushed p) 0)) (bc_highest_sequence_id b);
          m = m\<lparr>mm_sequence_id := lowest, mm_publish_time := publish_time\<rparr>;
          m = (if highest > lowest then m\<lparr>mm_highest_sequence_id := Some highest\<rparr> else m);
          m = (if codec \<noteq> CkNone then m\<lparr>mm_compression := Some (ck_to_pb codec)\<rparr> else m);
          m = (if payload_total \<le> U32_MAX then m\<lparr>mm_uncompressed_size := Some payload_total\<rparr> else m);
          send = \<lparr>cs_producer_id = pr_handle p, cs_sequence_id = lowest, cs_num_messages = Some num_messages,
            cs_txnid_least_bits = map_option least_sig_bits (bc_txn_id b),
            cs_txnid_most_bits = map_option most_sig_bits (bc_txn_id b),
            cs_highest_sequence_id = mm_highest_sequence_id m, cs_is_chunk = None, cs_marker = None,
            cs_message_id = None\<rparr>
      in \<lparr>of_command = send, of_metadata = m, of_payload = payload, of_sequence_id = lowest\<rparr>)"

definition flush_batch :: "prod_env \<Rightarrow> producer \<Rightarrow> nat \<Rightarrow> instant \<Rightarrow> producer \<times> nat" where
  "flush_batch env p publish_time now =
     (if bc_is_empty (pr_batch p) \<or> pr_closed p then (p, 0)
      else let frame = batch_frame env p publish_time in
        (p\<lparr>pr_outbound := pr_outbound p @ [frame],
           pr_total_msgs_sent := sat_add U64_MAX (pr_total_msgs_sent p)
             (i64_as_u64 (as_i32 (bc_len (pr_batch p)))),
           pr_total_bytes_sent := sat_add U64_MAX (pr_total_bytes_sent p) (length (of_payload frame)),
           pr_batch := bc_clear (pr_batch p)\<rparr>, 1))"

definition flush_batch_if_full :: "prod_env \<Rightarrow> producer \<Rightarrow> nat \<Rightarrow> instant \<Rightarrow> producer" where
  "flush_batch_if_full env p publish_time now =
     (if bc_is_empty (pr_batch p) then p
      else let count_reached = length (bc_messages (pr_batch p)) \<ge> pr_max_messages_in_batch p;
               size_reached = bc_current_size_bytes (pr_batch p) \<ge> pr_max_batch_size_bytes p
           in if count_reached \<or> size_reached then fst (flush_batch env p publish_time now) else p)"

definition CHUNK_METADATA_RESERVATION :: nat where "CHUNK_METADATA_RESERVATION = 1024"

definition max_chunk_payload :: "producer \<Rightarrow> nat" where
  "max_chunk_payload p =
     (if pr_max_message_size p > CHUNK_METADATA_RESERVATION * 4
      then pr_max_message_size p - CHUNK_METADATA_RESERVATION else pr_max_message_size p)"

text \<open>\<open>payload.slice(start..end)\<close> for chunk \<open>i\<close>\<close>

definition chunk_slice :: "bytes \<Rightarrow> nat \<Rightarrow> nat \<Rightarrow> bytes" where
  "chunk_slice payload csize i =
     (let start = i * csize; fin = min ((i + 1) * csize) (length payload)
      in take (fin - start) (drop start payload))"

definition chunk_metadata ::
    "producer \<Rightarrow> outgoing_message \<Rightarrow> string \<Rightarrow> int \<Rightarrow> nat \<Rightarrow> nat \<Rightarrow> message_metadata" where
  "chunk_metadata p msg uuid total_chunks seq publish_time =
     (let m = (om_metadata msg)\<lparr>mm_sequence_id := seq, mm_publish_time := publish_time\<rparr>;
          m = stamp_name p m;
          m = m\<lparr>mm_uncompressed_size := Some (om_uncompressed_size msg), mm_uuid := Some uuid,
                mm_num_chunks_from_msg := Some total_chunks,
                mm_total_chunk_msg_size := Some (as_i32 (length (om_payload msg)))\<rparr>
      in stamp_txn (om_txn_id msg) m)"

definition chunk_frame ::
    "producer \<Rightarrow> outgoing_message \<Rightarrow> message_metadata \<Rightarrow> nat \<Rightarrow> nat \<Rightarrow> nat \<Rightarrow> outbound_frame" where
  "chunk_frame p msg m csize seq i =
     \<lparr>of_command = \<lparr>cs_producer_id = pr_handle p, cs_sequence_id = seq, cs_num_messages = Some 1,
        cs_txnid_least_bits = map_option least_sig_bits (om_txn_id msg),
        cs_txnid_most_bits = map_option most_sig_bits (om_txn_id msg),
        cs_highest_sequence_id = None, cs_is_chunk = Some True, cs_marker = None,
        cs_message_id = map_option mid_to_pb (om_source_message_id msg)\<rparr>,
      of_metadata = m\<lparr>mm_chunk_id := Some (int i)\<rparr>,
      of_payload = chunk_slice (om_payload msg) csize i, of_sequence_id = seq\<rparr>"

definition emit_chunked ::
    "producer \<Rightarrow> string \<Rightarrow> outgoing_message \<Rightarrow> reservation \<Rightarrow> nat \<Rightarrow> instant \<Rightarrow> producer \<times> send_decision" where
  "emit_chunked p uuid msg r publish_time now =
     (let csize = max_chunk_payload p;
          total_chunks = compute_total_chunks (length (om_payload msg)) csize;
          seq = pr_next_sequence_id p;
          m = chunk_metadata p msg uuid total_chunks seq publish_time;
          frames = map (chunk_frame p msg m csize seq) [0..<nat total_chunks];
          p = p\<lparr>pr_next_sequence_id := wrap_add64 seq 1, pr_last_sequence_id_pushed := u64_as_i64 seq,
                pr_outbound := pr_outbound p @ frames,
                pr_total_msgs_sent := foldl (\<lambda>t f. sat_add U64_MAX t 1) (pr_total_msgs_sent p) frames,
                pr_total_bytes_sent :=
                  foldl (\<lambda>t f. sat_add U64_MAX t (length (of_payload f))) (pr_total_bytes_sent p) frames\<rparr>
      in (push_pending (new_op seq 1 now frames r) p, Emit (length frames)))"

definition compress_unbatched :: "prod_env \<Rightarrow> producer \<Rightarrow> outgoing_message \<Rightarrow> outgoing_message" where
  "compress_unbatched env p msg =
     (if pr_compression p = CkNone \<or> already_encoded (om_metadata msg) then msg
      else case pe_compress env (pr_compression p) (om_payload msg) of
        None \<Rightarrow> msg
      | Some body \<Rightarrow>
          msg\<lparr>om_uncompressed_size := min (length (om_payload msg)) U32_MAX, om_payload := body,
              om_metadata := (om_metadata msg)\<lparr>mm_compression := Some (ck_to_pb (pr_compression p))\<rparr>\<rparr>)"

text \<open>
  The first half of \<open>queue_send_reserved\<close>: the flushes a message forces, and whether it then joins
  the batch.
\<close>

definition select_path :: "prod_env \<Rightarrow> producer \<Rightarrow> outgoing_message \<Rightarrow> nat \<Rightarrow> instant \<Rightarrow> producer \<times> bool" where
  "select_path env p msg publish_time now =
     (let payload_size = length (om_payload msg);
          p = (if pr_batching_enabled p \<and> \<not> bc_is_empty (pr_batch p) \<and> \<not> matches_txn (pr_batch p) (om_txn_id msg)
               then fst (flush_batch env p publish_time now) else p);
          batchable = (om_source_message_id msg = None \<and> \<not> already_encoded (om_metadata msg));
          can_batch = (batchable \<and> can_add_to_batch p payload_size (om_num_messages msg))
      in if \<not> can_batch \<and> \<not> bc_is_empty (pr_batch p)
         then let p = fst (flush_batch env p publish_time now)
              in (p, batchable \<and> can_add_to_batch p payload_size (om_num_messages msg))
         else (p, can_batch))"

definition send_batched ::
    "prod_env \<Rightarrow> producer \<Rightarrow> outgoing_message \<Rightarrow> reservation \<Rightarrow> nat \<Rightarrow> instant \<Rightarrow> producer \<times> send_decision" where
  "send_batched env p msg r publish_time now =
     (let (p, decision) = add_to_batch p msg r publish_time now
      in (flush_batch_if_full env p publish_time now, decision))"

text \<open>
  \<open>queue_send_reserved\<close>. The reservation that comes back is what is left in the caller's slot: the
  message's own when the send is refused, the empty one when it was taken.
\<close>

definition queue_send_reserved ::
    "prod_env \<Rightarrow> string \<Rightarrow> producer \<Rightarrow> outgoing_message \<Rightarrow> reservation \<Rightarrow> nat \<Rightarrow> instant \<Rightarrow>
     producer \<times> reservation \<times> (producer_error + send_decision)" where
  "queue_send_reserved env uuid p msg r publish_time now =
     (if pr_closed p then (p, r, Inl ProducerClosed)
      else
        let (p, can_batch) = select_path env p msg publish_time now;
            msg = (if \<not> can_batch then compress_unbatched env p msg else msg);
            payload_size = length (om_payload msg)
        in if payload_size > pr_max_message_size p
           then if \<not> pr_chunking_enabled p
                then (p, r, Inl (MessageTooLarge payload_size (pr_max_message_size p)))
                else if can_batch
                then let (p, d) = send_batched env p msg r publish_time now in (p, no_reservation, Inr d)
                else let (p, d) = emit_chunked p uuid msg r publish_time now in (p, no_reservation, Inr d)
           else if can_batch
           then let (p, d) = send_batched env p msg r publish_time now in (p, no_reservation, Inr d)
           else let (p, d) = emit_single p msg r publish_time now in (p, no_reservation, Inr d))"

definition queue_send ::
    "prod_env \<Rightarrow> string \<Rightarrow> producer \<Rightarrow> outgoing_message \<Rightarrow> nat \<Rightarrow> instant \<Rightarrow>
     producer \<times> (producer_error + send_decision)" where
  "queue_send env uuid p msg publish_time now =
     (let (p, _, d) = queue_send_reserved env uuid p msg no_reservation publish_time now in (p, d))"

section \<open>Draining, receipts, errors and wakers\<close>

definition next_outbound_frame :: "producer \<Rightarrow> producer \<times> outbound_frame option" where
  "next_outbound_frame p =
     (case pr_outbound p of [] \<Rightarrow> (p, None) | f # fs \<Rightarrow> (p\<lparr>pr_outbound := fs\<rparr>, Some f))"

definition shift_pending_index_left :: "nat \<Rightarrow> (nat, nat) hashmap \<Rightarrow> (nat, nat) hashmap" where
  "shift_pending_index_left removed idx = map (\<lambda>(k, v). (k, if v > removed then v - 1 else v)) idx"

text \<open>
  The common start of \<open>apply_receipt\<close> and \<open>apply_send_error\<close>: drop the index entry, find the op by
  its sequence id, and take it out of the queue.
\<close>

definition take_pending :: "producer \<Rightarrow> nat \<Rightarrow> producer \<times> (nat \<times> op_send) option" where
  "take_pending p seq =
     (case hm_get (pr_pending_index p) seq of
        None \<Rightarrow> (p, None)
      | Some _ \<Rightarrow>
          let p = p\<lparr>pr_pending_index := hm_remove seq (pr_pending_index p)\<rparr> in
          case list_position (\<lambda>op. op_sequence_id op = seq) (pr_pending p) of
            None \<Rightarrow> (p, None)
          | Some i \<Rightarrow> (p\<lparr>pr_pending := remove_at i (pr_pending p)\<rparr>, Some (i, pr_pending p ! i)))"

definition apply_receipt ::
    "producer \<Rightarrow> send_receipt \<Rightarrow> instant \<Rightarrow> producer \<times> (op_send \<times> message_id) option" where
  "apply_receipt p receipt now =
     (let seq = sr_sequence_id receipt in
      case take_pending p seq of
        (p, None) \<Rightarrow> (p, None)
      | (p, Some (i, op)) \<Rightarrow>
          let mid = (case sr_message_id receipt of Some m \<Rightarrow> mid_from_pb m | None \<Rightarrow> MessageId 0 0 (-1) (-1) 0);
              p = p\<lparr>pr_last_sequence_id_published := u64_as_i64 seq,
                    pr_send_latency_hist := map_option
                      (\<lambda>h. h @ [min (as_millis (saturating_duration_since now (op_enqueued_at op))) U64_MAX])
                      (pr_send_latency_hist p),
                    pr_pending_index := shift_pending_index_left i (pr_pending_index p)\<rparr>
          in (p, Some (op\<lparr>op_receipt := Some mid\<rparr>, mid)))"

definition apply_send_error ::
    "producer \<Rightarrow> send_error \<Rightarrow> producer \<times> (op_send \<times> int \<times> string) option" where
  "apply_send_error p err =
     (case take_pending p (se_sequence_id err) of
        (p, None) \<Rightarrow> (p, None)
      | (p, Some (i, op)) \<Rightarrow>
          (p\<lparr>pr_pending_index := shift_pending_index_left i (pr_pending_index p)\<rparr>,
           Some (op, se_error err, se_message err)))"

definition register_waker :: "producer \<Rightarrow> nat \<Rightarrow> waker \<Rightarrow> producer \<times> bool" where
  "register_waker p seq w =
     (case hm_get (pr_pending_index p) seq of
        Some i \<Rightarrow>
          if i < length (pr_pending p)
          then (p\<lparr>pr_pending := (pr_pending p)[i := (pr_pending p ! i)\<lparr>op_waker := Some w\<rparr>]\<rparr>, True)
          else (p, False)
      | None \<Rightarrow> (p, False))"

definition clear_waker :: "producer \<Rightarrow> nat \<Rightarrow> producer" where
  "clear_waker p seq =
     (case hm_get (pr_pending_index p) seq of
        Some i \<Rightarrow>
          if i < length (pr_pending p)
          then p\<lparr>pr_pending := (pr_pending p)[i := (pr_pending p ! i)\<lparr>op_waker := None\<rparr>]\<rparr>
          else p
      | None \<Rightarrow> p)"

section \<open>Reconnect\<close>

definition drain_pending_sends :: "producer \<Rightarrow> producer \<times> op_send list" where
  "drain_pending_sends p =
     (p\<lparr>pr_pending := [],
        pr_pending_index := hm_remove_all (map op_sequence_id (pr_pending p)) (pr_pending_index p),
        pr_batch := bc_default, pr_outbound := []\<rparr>, pr_pending p)"

fun snapshot_ops :: "op_send list \<Rightarrow> (nat \<times> waker option) list \<times> op_send list \<times> op_send list" where
  "snapshot_ops [] = ([], [], [])"
| "snapshot_ops (op # ops) =
     (let (ws, dropped, snaps) = snapshot_ops ops in
      if op_replay_frames op = [] then (ws, op # dropped, snaps)
      else ((op_sequence_id op, op_waker op) # ws, dropped, op\<lparr>op_waker := None\<rparr> # snaps))"

definition snapshot_pending_sends ::
    "producer \<Rightarrow> producer \<times> (nat \<times> waker option) list \<times> op_send list \<times> op_send list" where
  "snapshot_pending_sends p =
     (let (ws, dropped, snaps) = snapshot_ops (pr_pending p) in
      (p\<lparr>pr_broker_ready := False, pr_pending := [],
         pr_pending_index := hm_remove_all (map op_sequence_id (pr_pending p)) (pr_pending_index p),
         pr_total_send_failed := foldl (\<lambda>t _. sat_add U64_MAX t 1) (pr_total_send_failed p) dropped,
         pr_batch := bc_default, pr_outbound := []\<rparr>, ws, dropped, snaps))"

definition index_of_pending :: "op_send list \<Rightarrow> (nat, nat) hashmap" where
  "index_of_pending ops = fold (\<lambda>(i, op). hm_insert (op_sequence_id op) i) (enumerate 0 ops) []"

definition replay_snapshots :: "producer \<Rightarrow> op_send list \<Rightarrow> producer" where
  "replay_snapshots p snaps =
     (let outbound = foldl (\<lambda>q s. foldl (\<lambda>q f. f # q) q (rev (op_replay_frames s))) (pr_outbound p) (rev snaps);
          pending = foldl (\<lambda>q s. s # q) (pr_pending p) (rev snaps)
      in p\<lparr>pr_outbound := outbound, pr_pending := pending, pr_pending_index := index_of_pending pending\<rparr>)"

definition replay_pending_outbound :: "producer \<Rightarrow> producer" where
  "replay_pending_outbound p =
     (let staged = map of_sequence_id (pr_outbound p);
          frames = concat (map op_replay_frames
            (filter (\<lambda>op. op_sequence_id op \<notin> set staged) (pr_pending p)))
      in p\<lparr>pr_outbound := foldl (\<lambda>q f. f # q) (pr_outbound p) (rev frames)\<rparr>)"

definition pr_close :: "producer \<Rightarrow> producer" where
  "pr_close p = p\<lparr>pr_closed := True\<rparr>"

section \<open>The receipt of a batch\<close>

text \<open>
  The part of \<open>Connection::handle_frame\<close> that resolves a receipt: it fans out over the sequence ids
  of a batch and counts the acknowledged sends.
\<close>

definition receipt_highest :: "send_receipt \<Rightarrow> nat" where
  "receipt_highest receipt =
     (let lowest = sr_sequence_id receipt; raw = unwrap_or 0 (sr_highest_sequence_id receipt)
      in if raw \<ge> lowest \<and> raw \<noteq> U64_MAX then raw else lowest)"

fun apply_receipts ::
    "producer \<Rightarrow> send_receipt \<Rightarrow> nat list \<Rightarrow> instant \<Rightarrow> producer \<times> (op_send \<times> message_id) list" where
  "apply_receipts p receipt [] now = (p, [])"
| "apply_receipts p receipt (seq # seqs) now =
     (let (p, r) = apply_receipt p (receipt\<lparr>sr_sequence_id := seq, sr_highest_sequence_id := None\<rparr>) now;
          (p, rs) = apply_receipts p receipt seqs now
      in (p, (case r of Some x \<Rightarrow> [x] | None \<Rightarrow> []) @ rs))"

definition handle_send_receipt ::
    "producer \<Rightarrow> send_receipt \<Rightarrow> instant \<Rightarrow> producer \<times> (op_send \<times> message_id) list" where
  "handle_send_receipt p receipt now =
     (let (p, resolved) = apply_receipts p receipt [sr_sequence_id receipt..<receipt_highest receipt + 1] now
      in (if length resolved > 0
          then p\<lparr>pr_total_acks_received := sat_add U64_MAX (pr_total_acks_received p) (length resolved)\<rparr>
          else p, resolved))"

definition handle_send_error :: "producer \<Rightarrow> send_error \<Rightarrow> producer \<times> (op_send \<times> int \<times> string) option" where
  "handle_send_error p err =
     (let (p, outcome) = apply_send_error p err
      in (if outcome \<noteq> None
          then p\<lparr>pr_total_send_failed := sat_add U64_MAX (pr_total_send_failed p) 1\<rparr> else p, outcome))"

lemmas pr_defs [op_defs] = pr_new_def set_initial_sequence_id_def drain_timed_out_sends_def
  assign_sequence_id_def push_pending_def emit_single_def add_to_batch_def flush_batch_def
  flush_batch_if_full_def emit_chunked_def queue_send_reserved_def next_outbound_frame_def
  apply_receipt_def apply_send_error_def register_waker_def clear_waker_def drain_pending_sends_def
  snapshot_pending_sends_def replay_snapshots_def replay_pending_outbound_def pr_close_def

end
