(* ===== verification/Producer_Index.thy ===== *)
theory Producer_Index
  imports Producer
begin

text \<open>
  The queue of pending sends and its index by sequence id: the index invariant, its preservation by
  the operations of the producer, the fan-out of a receipt over a batch, and the operation that
  breaks the invariant.
\<close>

section \<open>A queue with keys\<close>

text \<open>
  What the connection relies on when it resolves sends: keys are unique, and taking a key removes
  exactly the entry with that key, if there is one.
\<close>

locale keyed_queue =
  fixes inv :: "'s \<Rightarrow> bool" and ops :: "'s \<Rightarrow> 'op list" and key :: "'op \<Rightarrow> nat"
    and take1 :: "nat \<Rightarrow> 's \<Rightarrow> 's \<times> 'r option" and rkey :: "'r \<Rightarrow> nat" and rel :: "'op \<Rightarrow> 'r \<Rightarrow> bool"
  assumes take_inv: "inv s \<Longrightarrow> inv (fst (take1 k s))"
    and take_ops: "inv s \<Longrightarrow> ops (fst (take1 k s)) = filter (\<lambda>x. key x \<noteq> k) (ops s)"
    and take_hit: "inv s \<Longrightarrow> k \<in> key ` set (ops s) \<Longrightarrow>
      \<exists>r. snd (take1 k s) = Some r \<and> rkey r = k \<and> (\<exists>x\<in>set (ops s). rel x r)"
    and take_miss: "inv s \<Longrightarrow> k \<notin> key ` set (ops s) \<Longrightarrow> snd (take1 k s) = None"
begin

fun take_all :: "nat list \<Rightarrow> 's \<Rightarrow> 's \<times> 'r list" where
  "take_all [] s = (s, [])"
| "take_all (k # ks) s =
     (let (s, r) = take1 k s; (s, rs) = take_all ks s in (s, (case r of Some x \<Rightarrow> [x] | None \<Rightarrow> []) @ rs))"

lemma take_all_spec:
  "inv s \<Longrightarrow> distinct ks \<Longrightarrow>
     inv (fst (take_all ks s)) \<and> ops (fst (take_all ks s)) = filter (\<lambda>x. key x \<notin> set ks) (ops s) \<and>
     map rkey (snd (take_all ks s)) = filter (\<lambda>k. k \<in> key ` set (ops s)) ks \<and>
     (\<forall>r\<in>set (snd (take_all ks s)). \<exists>x\<in>set (ops s). rel x r)"
proof (induction ks arbitrary: s)
  case Nil
  then show ?case by simp
next
  case (Cons k ks)
  obtain s1 r where t: "take1 k s = (s1, r)" by fastforce
  have s1: "inv s1" "ops s1 = filter (\<lambda>x. key x \<noteq> k) (ops s)"
    using take_inv [OF Cons.prems(1), of k] take_ops [OF Cons.prems(1), of k] t by simp_all
  have r: "map rkey (case r of Some x \<Rightarrow> [x] | None \<Rightarrow> []) = (if k \<in> key ` set (ops s) then [k] else [])"
    using take_hit [OF Cons.prems(1), of k] take_miss [OF Cons.prems(1), of k] t by auto
  have rel: "\<forall>y\<in>set (case r of Some x \<Rightarrow> [x] | None \<Rightarrow> []). \<exists>x\<in>set (ops s). rel x y"
    using take_hit [OF Cons.prems(1), of k] take_miss [OF Cons.prems(1), of k] t
    by (cases "k \<in> key ` set (ops s)") auto
  have "filter (\<lambda>k. k \<in> key ` set (ops s1)) ks = filter (\<lambda>k. k \<in> key ` set (ops s)) ks"
    using Cons.prems(2) by (intro filter_cong) (auto simp: s1(2))
  moreover have "filter (\<lambda>x. key x \<notin> set ks) (ops s1) = filter (\<lambda>x. key x \<notin> set (k # ks)) (ops s)"
    by (simp add: s1(2) conj_commute)
  moreover have "\<forall>y\<in>set (snd (take_all ks s1)). \<exists>x\<in>set (ops s). rel x y"
    using Cons.IH [OF s1(1)] Cons.prems(2) by (auto simp: s1(2))
  ultimately show ?case
    using Cons.IH [OF s1(1)] Cons.prems(2) r rel by (auto simp: t case_prod_beta Let_def)
qed

end

section \<open>The index invariant\<close>

definition indexed :: "op_send list \<Rightarrow> (nat, nat) hashmap \<Rightarrow> bool" where
  "indexed ops idx \<longleftrightarrow>
     (\<forall>seq i. hm_get idx seq = Some i \<longleftrightarrow> i < length ops \<and> op_sequence_id (ops ! i) = seq)"

abbreviation pr_indexed :: "producer \<Rightarrow> bool" where
  "pr_indexed p \<equiv> indexed (pr_pending p) (pr_pending_index p)"

lemma indexedD1: "indexed ops idx \<Longrightarrow> hm_get idx s = Some i \<Longrightarrow> i < length ops \<and> op_sequence_id (ops ! i) = s"
  by (simp add: indexed_def)

lemma indexedD2: "indexed ops idx \<Longrightarrow> i < length ops \<Longrightarrow> hm_get idx (op_sequence_id (ops ! i)) = Some i"
  by (simp add: indexed_def)

lemma indexed_inj:
  "indexed ops idx \<Longrightarrow> i < length ops \<Longrightarrow> j < length ops \<Longrightarrow>
     op_sequence_id (ops ! i) = op_sequence_id (ops ! j) \<Longrightarrow> i = j"
  by (metis indexedD2 option.inject)

lemma indexed_None: "indexed ops idx \<Longrightarrow> hm_get idx s = None \<longleftrightarrow> s \<notin> op_sequence_id ` set ops"
proof (cases "hm_get idx s")
  case None
  assume i: "indexed ops idx"
  have "s \<noteq> op_sequence_id op" if op: "op \<in> set ops" for op
  proof -
    obtain j where "j < length ops" "op = ops ! j" using op by (auto simp: in_set_conv_nth)
    then show ?thesis using indexedD2 [OF i, of j] None by auto
  qed
  then show ?thesis using None by auto
next
  case (Some i)
  assume "indexed ops idx"
  then have "i < length ops" "s = op_sequence_id (ops ! i)" using indexedD1 Some by auto
  then show ?thesis using Some by simp
qed

lemma indexed_Nil: "indexed [] []"
  by (simp add: indexed_def)

lemma indexed_push:
  assumes "indexed ops idx" and "op_sequence_id op \<notin> op_sequence_id ` set ops"
  shows "indexed (ops @ [op]) (hm_insert (op_sequence_id op) (length ops) idx)"
proof -
  have "\<forall>i<length ops. op_sequence_id (ops ! i) \<noteq> op_sequence_id op"
    using assms(2) by (metis image_eqI nth_mem)
  with assms(1) show ?thesis
    by (auto simp: indexed_def nth_append less_Suc_eq)
qed

lemma indexed_update_op:
  "indexed ops idx \<Longrightarrow> op_sequence_id op = op_sequence_id (ops ! i) \<Longrightarrow> indexed (ops[i := op]) idx"
  by (cases "i < length ops") (auto simp: indexed_def nth_list_update)

lemma hm_get_shift:
  "hm_get (shift_pending_index_left r idx) s = map_option (\<lambda>v. if v > r then v - 1 else v) (hm_get idx s)"
  unfolding shift_pending_index_left_def by (induction idx) (simp_all add: case_prod_beta)

lemma indexed_position:
  assumes "indexed ops idx" and "hm_get idx s = Some i"
  shows "list_position (\<lambda>op. op_sequence_id op = s) ops = Some i"
proof (cases "list_position (\<lambda>op. op_sequence_id op = s) ops")
  case None
  moreover have "ops ! i \<in> set ops" "op_sequence_id (ops ! i) = s" using indexedD1 [OF assms] by simp_all
  ultimately show ?thesis by (auto simp: list_position_None)
next
  case (Some j)
  have "j = i"
    using list_position_Some [OF Some] indexedD1 [OF assms] indexed_inj [OF assms(1), of j i] by simp
  then show ?thesis using Some by simp
qed

lemma indexed_remove:
  assumes "indexed ops idx" and "hm_get idx s = Some i"
  shows "indexed (remove_at i ops) (shift_pending_index_left i (hm_remove s idx))"
proof -
  have i: "i < length ops" "op_sequence_id (ops ! i) = s" using indexedD1 [OF assms] by auto
  show ?thesis
    unfolding indexed_def
  proof (intro allI)
    fix s' j
    show "hm_get (shift_pending_index_left i (hm_remove s idx)) s' = Some j \<longleftrightarrow>
        j < length (remove_at i ops) \<and> op_sequence_id (remove_at i ops ! j) = s'" (is "?L \<longleftrightarrow> ?R")
    proof
      assume ?L
      then obtain v where "hm_get (hm_remove s idx) s' = Some v" and vj: "(if v > i then v - 1 else v) = j"
        unfolding hm_get_shift map_option_eq_Some by blast
      then have v: "hm_get idx s' = Some v" "s' \<noteq> s" by (simp_all split: if_splits)
      have "v < length ops" "op_sequence_id (ops ! v) = s'" using indexedD1 [OF assms(1) v(1)] by auto
      moreover have "v \<noteq> i" using v(2) i(2) calculation(2) by auto
      ultimately show ?R using vj i(1) by (auto simp: length_remove_at nth_remove_at)
    next
      assume r: ?R
      let ?v = "if j < i then j else Suc j"
      have "?v < length ops" "op_sequence_id (ops ! ?v) = s'"
        using r i(1) by (auto simp: length_remove_at nth_remove_at split: if_splits)
      then have "hm_get idx s' = Some ?v" using indexedD2 [OF assms(1)] by metis
      moreover have "s' \<noteq> s"
        using calculation assms(2) by (auto split: if_splits)
      ultimately show ?L by (auto simp: hm_get_shift)
    qed
  qed
qed

text \<open>
  The part of the invariant that resolving a send relies on: the keys of the index are the sequence
  ids of the queue, whatever the positions they map to.
\<close>

definition keyed :: "op_send list \<Rightarrow> (nat, nat) hashmap \<Rightarrow> bool" where
  "keyed ops idx \<longleftrightarrow> distinct (map op_sequence_id ops) \<and>
     (\<forall>s. hm_get idx s = None \<longleftrightarrow> s \<notin> op_sequence_id ` set ops)"

abbreviation pr_keyed :: "producer \<Rightarrow> bool" where
  "pr_keyed p \<equiv> keyed (pr_pending p) (pr_pending_index p)"

lemma indexed_keyed: "indexed ops idx \<Longrightarrow> keyed ops idx"
  by (auto simp: keyed_def indexed_None distinct_conv_nth dest: indexed_inj)

lemma keyed_None: "keyed ops idx \<Longrightarrow> s \<notin> op_sequence_id ` set ops \<Longrightarrow> hm_get idx s = None"
  by (simp add: keyed_def)

lemma remove_at_filter:
  assumes "distinct (map op_sequence_id ops)" and i: "i < length ops" "op_sequence_id (ops ! i) = s"
  shows "remove_at i ops = filter (\<lambda>op. op_sequence_id op \<noteq> s) ops"
proof -
  have ne: "op_sequence_id (ops ! j) \<noteq> s" if "j < length ops" "j \<noteq> i" for j
    using nth_eq_iff_index_eq [OF assms(1), of j i] that i by auto
  have f: "filter (\<lambda>op. op_sequence_id op \<noteq> s) (take i ops) = take i ops"
  proof (rule filter_True, rule ballI)
    fix op assume "op \<in> set (take i ops)"
    then obtain j where "j < i" "op = ops ! j" by (auto simp: in_set_conv_nth)
    then show "op_sequence_id op \<noteq> s" using ne [of j] i(1) by simp
  qed
  have g: "filter (\<lambda>op. op_sequence_id op \<noteq> s) (drop (Suc i) ops) = drop (Suc i) ops"
  proof (rule filter_True, rule ballI)
    fix op assume "op \<in> set (drop (Suc i) ops)"
    then obtain j where "j < length ops - Suc i" "op = ops ! (Suc i + j)" by (auto simp: in_set_conv_nth)
    then show "op_sequence_id op \<noteq> s" using ne [of "Suc i + j"] by simp
  qed
  from arg_cong [OF mset_remove_at [OF i(1)], of "filter (\<lambda>op. op_sequence_id op \<noteq> s)"]
  show ?thesis using i(2) by (simp add: remove_at_def f g)
qed

section \<open>Resolving sends\<close>

lemma take_pending_hit:
  assumes "pr_keyed p" and "seq \<in> op_sequence_id ` set (pr_pending p)"
  obtains i where "take_pending p seq =
    (p\<lparr>pr_pending_index := hm_remove seq (pr_pending_index p),
       pr_pending := filter (\<lambda>op. op_sequence_id op \<noteq> seq) (pr_pending p)\<rparr>, Some (i, pr_pending p ! i))"
    and "op_sequence_id (pr_pending p ! i) = seq" and "i < length (pr_pending p)"
    and "list_position (\<lambda>op. op_sequence_id op = seq) (pr_pending p) = Some i"
proof -
  obtain v where v: "hm_get (pr_pending_index p) seq = Some v"
    using assms by (cases "hm_get (pr_pending_index p) seq") (auto simp: keyed_def)
  obtain i where i: "list_position (\<lambda>op. op_sequence_id op = seq) (pr_pending p) = Some i"
    using assms(2) by (cases "list_position (\<lambda>op. op_sequence_id op = seq) (pr_pending p)")
      (auto simp: list_position_None)
  have j: "i < length (pr_pending p)" "op_sequence_id (pr_pending p ! i) = seq"
    using list_position_Some [OF i] by simp_all
  have d: "distinct (map op_sequence_id (pr_pending p))" using assms(1) by (simp add: keyed_def)
  show thesis
    by (rule that [of i]) (simp_all add: take_pending_def v i j remove_at_filter [OF d j])
qed

lemma take_pending_miss:
  "pr_keyed p \<Longrightarrow> seq \<notin> op_sequence_id ` set (pr_pending p) \<Longrightarrow> take_pending p seq = (p, None)"
  by (simp add: take_pending_def keyed_None)

lemma keyed_take:
  "keyed ops idx \<Longrightarrow>
     keyed (filter (\<lambda>op. op_sequence_id op \<noteq> s) ops) (shift_pending_index_left i (hm_remove s idx))"
  by (auto simp: keyed_def hm_get_shift distinct_map_filter)

lemma indexed_take:
  assumes "indexed ops idx" and "s \<in> op_sequence_id ` set ops"
    and i: "list_position (\<lambda>op. op_sequence_id op = s) ops = Some i"
  shows "indexed (filter (\<lambda>op. op_sequence_id op \<noteq> s) ops) (shift_pending_index_left i (hm_remove s idx))"
proof -
  have j: "i < length ops" "op_sequence_id (ops ! i) = s" using list_position_Some [OF i] by simp_all
  have d: "distinct (map op_sequence_id ops)" using indexed_keyed [OF assms(1)] by (simp add: keyed_def)
  have "hm_get idx s = Some i" using indexedD2 [OF assms(1) j(1)] j(2) by simp
  then show ?thesis using indexed_remove [OF assms(1)] remove_at_filter [OF d j] by metis
qed

lemma filter_absent: "s \<notin> op_sequence_id ` set ops \<Longrightarrow> filter (\<lambda>op. op_sequence_id op \<noteq> s) ops = ops"
  by (auto simp: filter_id_conv)

definition receipt_for :: "send_receipt \<Rightarrow> nat \<Rightarrow> send_receipt" where
  "receipt_for receipt k = receipt\<lparr>sr_sequence_id := k, sr_highest_sequence_id := None\<rparr>"

interpretation receipts: keyed_queue pr_keyed pr_pending op_sequence_id
  "\<lambda>k p. apply_receipt p (receipt_for receipt k) now" "\<lambda>(op, mid). op_sequence_id op"
  "\<lambda>op (op', mid). op_sequence_id op' = op_sequence_id op \<and> op_waker op' = op_waker op" for receipt now
proof
  fix p k
  assume i: "pr_keyed p"
  have "pr_keyed (fst (apply_receipt p (receipt_for receipt k) now)) \<and>
      pr_pending (fst (apply_receipt p (receipt_for receipt k) now)) = filter (\<lambda>x. op_sequence_id x \<noteq> k) (pr_pending p) \<and>
      (if k \<in> op_sequence_id ` set (pr_pending p)
       then \<exists>r. snd (apply_receipt p (receipt_for receipt k) now) = Some r \<and> (\<lambda>(op, mid). op_sequence_id op) r = k \<and> (\<exists>x\<in>set (pr_pending p). (\<lambda>op (op', mid). op_sequence_id op' = op_sequence_id op \<and> op_waker op' = op_waker op) x r) else snd (apply_receipt p (receipt_for receipt k) now) = None)"
  proof (cases "k \<in> op_sequence_id ` set (pr_pending p)")
    case False
    then show ?thesis using i by (simp add: apply_receipt_def receipt_for_def take_pending_miss filter_absent)
  next
    case True
    show ?thesis
      by (rule take_pending_hit [OF i True])
         (use True keyed_take [OF i, of k] in
           \<open>simp add: apply_receipt_def receipt_for_def Let_def, metis nth_mem\<close>)
  qed
  then show "pr_keyed (fst (apply_receipt p (receipt_for receipt k) now))"
    and "pr_pending (fst (apply_receipt p (receipt_for receipt k) now)) = filter (\<lambda>x. op_sequence_id x \<noteq> k) (pr_pending p)"
    and "k \<in> op_sequence_id ` set (pr_pending p) \<Longrightarrow> \<exists>r. snd (apply_receipt p (receipt_for receipt k) now) = Some r \<and> (\<lambda>(op, mid). op_sequence_id op) r = k \<and> (\<exists>x\<in>set (pr_pending p). (\<lambda>op (op', mid). op_sequence_id op' = op_sequence_id op \<and> op_waker op' = op_waker op) x r)"
    and "k \<notin> op_sequence_id ` set (pr_pending p) \<Longrightarrow> snd (apply_receipt p (receipt_for receipt k) now) = None"
    by (auto split: if_splits)
qed

lemma apply_receipts_take_all: "apply_receipts p receipt ks now = receipts.take_all receipt now ks p"
  by (induction ks arbitrary: p) (auto simp: receipt_for_def [symmetric] Let_def split: prod.splits)

interpretation send_errors: keyed_queue pr_keyed pr_pending op_sequence_id
  "\<lambda>k p. apply_send_error p (err\<lparr>se_sequence_id := k\<rparr>)" "\<lambda>(op, code, msg). op_sequence_id op"
  "\<lambda>op (op', code, msg). op' = op" for err
proof
  fix p k
  assume i: "pr_keyed p"
  have "pr_keyed (fst (apply_send_error p (err\<lparr>se_sequence_id := k\<rparr>))) \<and>
      pr_pending (fst (apply_send_error p (err\<lparr>se_sequence_id := k\<rparr>))) = filter (\<lambda>x. op_sequence_id x \<noteq> k) (pr_pending p) \<and>
      (if k \<in> op_sequence_id ` set (pr_pending p)
       then \<exists>r. snd (apply_send_error p (err\<lparr>se_sequence_id := k\<rparr>)) = Some r \<and> (\<lambda>(op, code, msg). op_sequence_id op) r = k \<and> (\<exists>x\<in>set (pr_pending p). (\<lambda>op (op', code, msg). op' = op) x r) else snd (apply_send_error p (err\<lparr>se_sequence_id := k\<rparr>)) = None)"
  proof (cases "k \<in> op_sequence_id ` set (pr_pending p)")
    case False
    then show ?thesis using i by (simp add: apply_send_error_def take_pending_miss filter_absent)
  next
    case True
    show ?thesis
      by (rule take_pending_hit [OF i True])
         (use True keyed_take [OF i, of k] in \<open>simp add: apply_send_error_def Let_def\<close>)
  qed
  then show "pr_keyed (fst (apply_send_error p (err\<lparr>se_sequence_id := k\<rparr>)))"
    and "pr_pending (fst (apply_send_error p (err\<lparr>se_sequence_id := k\<rparr>))) = filter (\<lambda>x. op_sequence_id x \<noteq> k) (pr_pending p)"
    and "k \<in> op_sequence_id ` set (pr_pending p) \<Longrightarrow> \<exists>r. snd (apply_send_error p (err\<lparr>se_sequence_id := k\<rparr>)) = Some r \<and> (\<lambda>(op, code, msg). op_sequence_id op) r = k \<and> (\<exists>x\<in>set (pr_pending p). (\<lambda>op (op', code, msg). op' = op) x r)"
    and "k \<notin> op_sequence_id ` set (pr_pending p) \<Longrightarrow> snd (apply_send_error p (err\<lparr>se_sequence_id := k\<rparr>)) = None"
    by (auto split: if_splits)
qed

lemma apply_receipt_indexed [inv_rules]: "pr_indexed p \<Longrightarrow> pr_indexed (fst (apply_receipt p receipt now))"
proof (cases "sr_sequence_id receipt \<in> op_sequence_id ` set (pr_pending p)")
  case False
  moreover assume "pr_indexed p"
  ultimately show ?thesis by (simp add: apply_receipt_def take_pending_miss indexed_keyed)
next
  case True
  assume i: "pr_indexed p"
  show ?thesis
    by (rule take_pending_hit [OF indexed_keyed [OF i] True])
       (simp add: apply_receipt_def Let_def indexed_take [OF i True])
qed

lemma apply_send_error_indexed [inv_rules]: "pr_indexed p \<Longrightarrow> pr_indexed (fst (apply_send_error p err))"
proof (cases "se_sequence_id err \<in> op_sequence_id ` set (pr_pending p)")
  case False
  moreover assume "pr_indexed p"
  ultimately show ?thesis by (simp add: apply_send_error_def take_pending_miss indexed_keyed)
next
  case True
  assume i: "pr_indexed p"
  show ?thesis
    by (rule take_pending_hit [OF indexed_keyed [OF i] True])
       (simp add: apply_send_error_def Let_def indexed_take [OF i True])
qed

end
