(* ===== verification/Producer_Send.thy ===== *)
theory Producer_Send
  imports Producer_Index
begin

text \<open>
  What queueing a message does to the producer: the invariant of the pending queue, the sequence
  ids and the batch under construction, and its preservation by every operation.
\<close>

section \<open>The producer invariant\<close>

text \<open>
  The index covers the queue, every pending send is older than the next sequence id, and the batch
  under construction, when there is one, holds the latest consecutive sequence ids.
\<close>

definition batch_ok :: "producer \<Rightarrow> bool" where
  "batch_ok p \<longleftrightarrow>
     (if bc_messages (pr_batch p) = [] then pr_batch p = bc_default
      else \<exists>l. bc_lowest_sequence_id (pr_batch p) = Some l \<and>
        bc_highest_sequence_id (pr_batch p) = Some (l + length (bc_messages (pr_batch p)) - 1) \<and>
        pr_next_sequence_id p = l + length (bc_messages (pr_batch p)))"

definition fresh :: "producer \<Rightarrow> bool" where
  "fresh p \<longleftrightarrow> (\<forall>op\<in>set (pr_pending p). op_sequence_id op < pr_next_sequence_id p)"

definition pr_ok :: "producer \<Rightarrow> bool" where
  "pr_ok p \<longleftrightarrow> pr_keyed p \<and> fresh p \<and> batch_ok p"

lemma pr_ok_new [inv_rules]: "pr_ok (pr_new h topic kind max_size)"
  by (simp add: pr_ok_def fresh_def keyed_def batch_ok_def pr_new_def bc_default_def)

lemma bc_clear_default: "bc_clear b = bc_default"
  by (simp add: bc_clear_def bc_default_def)

lemma flush_batch_keeps [simp]:
  "pr_pending (fst (flush_batch env p t now)) = pr_pending p"
  "pr_pending_index (fst (flush_batch env p t now)) = pr_pending_index p"
  "pr_next_sequence_id (fst (flush_batch env p t now)) = pr_next_sequence_id p"
  "pr_closed (fst (flush_batch env p t now)) = pr_closed p"
  "pr_max_message_size (fst (flush_batch env p t now)) = pr_max_message_size p"
  "pr_chunking_enabled (fst (flush_batch env p t now)) = pr_chunking_enabled p"
  "pr_batching_enabled (fst (flush_batch env p t now)) = pr_batching_enabled p"
  "pr_send_timeout (fst (flush_batch env p t now)) = pr_send_timeout p"
  "pr_last_sequence_id_pushed (fst (flush_batch env p t now)) = pr_last_sequence_id_pushed p"
  by (simp_all add: flush_batch_def Let_def)

lemma flush_batch_batch:
  "pr_batch (fst (flush_batch env p t now)) =
     (if bc_messages (pr_batch p) = [] \<or> pr_closed p then pr_batch p else bc_default)"
  by (simp add: flush_batch_def Let_def bc_is_empty_def bc_clear_default)

lemma pr_ok_flush [inv_rules]: "pr_ok p \<Longrightarrow> pr_ok (fst (flush_batch env p t now))"
  by (auto simp: pr_ok_def fresh_def batch_ok_def flush_batch_batch bc_default_def split: if_splits)

lemma flush_if_full_cases: "flush_batch_if_full env p t now = p \<or>
    flush_batch_if_full env p t now = fst (flush_batch env p t now)"
  by (simp add: flush_batch_if_full_def Let_def)

section \<open>Adding a send\<close>

text \<open>\<open>pushed p op p'\<close>: \<open>p'\<close> is \<open>p\<close> with the send \<open>op\<close> queued under the next sequence id.\<close>

definition pushed :: "producer \<Rightarrow> op_send \<Rightarrow> producer \<Rightarrow> bool" where
  "pushed p op p' \<longleftrightarrow> op_sequence_id op = pr_next_sequence_id p \<and>
     pr_pending p' = pr_pending p @ [op] \<and>
     pr_pending_index p' = hm_insert (pr_next_sequence_id p) (length (pr_pending p)) (pr_pending_index p) \<and>
     pr_next_sequence_id p' = wrap_add64 (pr_next_sequence_id p) 1 \<and> pr_closed p' = pr_closed p \<and>
     pr_send_timeout p' = pr_send_timeout p \<and>
     pr_last_sequence_id_pushed p' = u64_as_i64 (pr_next_sequence_id p)"

lemma emit_single_pushed:
  "\<exists>op. pushed p op (fst (emit_single p msg r t now)) \<and> op_reservation op = r"
  by (simp add: emit_single_def Let_def assign_sequence_id_def push_pending_def new_op_def pushed_def)

lemma emit_chunked_pushed:
  "\<exists>op. pushed p op (fst (emit_chunked p uuid msg r t now)) \<and> op_reservation op = r"
  by (simp add: emit_chunked_def Let_def push_pending_def new_op_def pushed_def)

lemma add_to_batch_pushed:
  "\<exists>op. pushed p op (fst (add_to_batch p msg r t now)) \<and> op_reservation op = r"
  by (simp add: add_to_batch_def Let_def push_pending_def new_op_def pushed_def)

lemma emit_batch [simp]:
  "pr_batch (fst (emit_single p msg r t now)) = pr_batch p"
  "pr_batch (fst (emit_chunked p uuid msg r t now)) = pr_batch p"
  by (simp_all add: emit_single_def emit_chunked_def Let_def assign_sequence_id_def push_pending_def)

lemma add_to_batch_batch:
  "bc_messages (pr_batch (fst (add_to_batch p msg r t now))) = bc_messages (pr_batch p) @ [(single_of msg, om_payload msg)]"
  "bc_lowest_sequence_id (pr_batch (fst (add_to_batch p msg r t now))) =
     (if bc_lowest_sequence_id (pr_batch p) = None then Some (pr_next_sequence_id p) else bc_lowest_sequence_id (pr_batch p))"
  "bc_highest_sequence_id (pr_batch (fst (add_to_batch p msg r t now))) = Some (pr_next_sequence_id p)"
  "bc_txn_id (pr_batch (fst (add_to_batch p msg r t now))) =
     (if bc_messages (pr_batch p) = [] then om_txn_id msg else bc_txn_id (pr_batch p))"
  by (simp_all add: add_to_batch_def Let_def push_pending_def bc_is_empty_def)

lemma fresh_notin: "fresh p \<Longrightarrow> pr_next_sequence_id p \<notin> op_sequence_id ` set (pr_pending p)"
  by (auto simp: fresh_def)

lemma pushed_keyed: "pr_keyed p \<Longrightarrow> fresh p \<Longrightarrow> pushed p op p' \<Longrightarrow> pr_keyed p'"
  by (auto simp: keyed_def fresh_def pushed_def)

lemma pushed_indexed: "pr_indexed p \<Longrightarrow> fresh p \<Longrightarrow> pushed p op p' \<Longrightarrow> pr_indexed p'"
  using indexed_push [of "pr_pending p" "pr_pending_index p" op] fresh_notin [of p] by (simp add: pushed_def)

lemma pushed_fresh: "fresh p \<Longrightarrow> pr_next_sequence_id p < U64_MAX \<Longrightarrow> pushed p op p' \<Longrightarrow> fresh p'"
  by (auto simp: fresh_def pushed_def wrap_add64_def)

lemma add_to_batch_ok:
  assumes "batch_ok p" and "pr_next_sequence_id p < U64_MAX"
  shows "batch_ok (fst (add_to_batch p msg r t now))"
proof -
  have "pr_next_sequence_id (fst (add_to_batch p msg r t now)) = Suc (pr_next_sequence_id p)"
    using assms(2) by (simp add: add_to_batch_def Let_def push_pending_def wrap_add64_def)
  then show ?thesis
    using assms(1) by (auto simp: batch_ok_def add_to_batch_batch bc_default_def split: if_splits)
qed

section \<open>The paths through \<open>queue_send_reserved\<close>\<close>

lemma select_path_spec:
  assumes "\<not> pr_closed p" and "select_path env p msg t now = (p1, can_batch)"
  shows "p1 = p \<or> p1 = fst (flush_batch env p t now)"
    and "\<not> can_batch \<Longrightarrow> bc_messages (pr_batch p1) = []"
    and "can_batch \<Longrightarrow> pr_batching_enabled p \<and> matches_txn (pr_batch p1) (om_txn_id msg)"
proof -
  have e: "bc_is_empty (pr_batch (fst (flush_batch env p t now)))"
    using assms(1) by (simp add: bc_is_empty_def flush_batch_batch bc_default_def)
  then have ff: "fst (flush_batch env (fst (flush_batch env p t now)) t now) = fst (flush_batch env p t now)"
    by (simp add: flush_batch_def)
  show "p1 = p \<or> p1 = fst (flush_batch env p t now)"
    using assms(2) ff by (auto simp: select_path_def Let_def split: if_splits)
  show "\<not> can_batch \<Longrightarrow> bc_messages (pr_batch p1) = []"
    using assms(2) ff e by (auto simp: select_path_def Let_def bc_is_empty_def split: if_splits)
  show "can_batch \<Longrightarrow> pr_batching_enabled p \<and> matches_txn (pr_batch p1) (om_txn_id msg)"
    using assms(2) ff e
    by (auto simp: select_path_def Let_def can_add_to_batch_def matches_txn_def split: if_splits)
qed

lemma pushed_flush:
  "pushed (fst (flush_batch env p t now)) op p' \<longleftrightarrow> pushed p op p'"
  by (simp add: pushed_def)

lemma pushed_flush_after:
  "pushed p op p' \<Longrightarrow> pushed p op (fst (flush_batch env p' t now))"
  by (simp add: pushed_def)

lemma send_batched_pushed:
  "\<exists>op. pushed p op (fst (send_batched env p msg r t now)) \<and> op_reservation op = r"
proof -
  obtain op where op: "pushed p op (fst (add_to_batch p msg r t now))" "op_reservation op = r"
    using add_to_batch_pushed by blast
  have "fst (send_batched env p msg r t now) = flush_batch_if_full env (fst (add_to_batch p msg r t now)) t now"
    by (simp add: send_batched_def case_prod_beta)
  then show ?thesis
    using op pushed_flush_after [OF op(1), of env t now]
      flush_if_full_cases [of env "fst (add_to_batch p msg r t now)" t now]
    by metis
qed

lemma send_batched_ok:
  assumes "pr_ok p" and "pr_next_sequence_id p < U64_MAX"
  shows "pr_ok (fst (send_batched env p msg r t now))"
proof -
  let ?q = "fst (add_to_batch p msg r t now)"
  obtain op where "pushed p op ?q" using add_to_batch_pushed by blast
  then have "pr_ok ?q"
    using assms pushed_keyed pushed_fresh add_to_batch_ok by (simp add: pr_ok_def) blast
  then show ?thesis
    using flush_if_full_cases [of env ?q t now] pr_ok_flush [of ?q env t now]
    by (auto simp: send_batched_def case_prod_beta)
qed

text \<open>
  A message is refused, with the queue, the index, the sequence ids and the caller's reservation
  untouched, or queued under the next sequence id with its reservation.
\<close>

lemma queue_send_cases:
  obtains (refused) p1 e where "queue_send_reserved env uuid p msg r t now = (p1, r, Inl e)"
    and "p1 = p \<or> p1 = fst (flush_batch env p t now)"
    and "e = ProducerClosed \<or> (\<exists>n. n > pr_max_message_size p \<and> e = MessageTooLarge n (pr_max_message_size p))"
  | (queued) p1 op d where "queue_send_reserved env uuid p msg r t now = (p1, no_reservation, Inr d)"
    and "pushed p op p1" and "op_reservation op = r"
    and "pr_ok p \<Longrightarrow> pr_next_sequence_id p < U64_MAX \<Longrightarrow> pr_ok p1"
proof (cases "pr_closed p")
  case True
  then show thesis by (intro refused [of p ProducerClosed]) (simp_all add: queue_send_reserved_def)
next
  case open': False
  obtain p1 cb where sp: "select_path env p msg t now = (p1, cb)" by fastforce
  define m where "m = (if \<not> cb then compress_unbatched env p1 msg else msg)"
  note s = select_path_spec [OF open' sp]
  have keep: "pr_max_message_size p1 = pr_max_message_size p" "pr_next_sequence_id p1 = pr_next_sequence_id p"
    using s(1) by auto
  have push: "pushed p op q \<longleftrightarrow> pushed p1 op q" for op q using s(1) pushed_flush by auto
  have ok1: "pr_ok p \<Longrightarrow> pr_ok p1" using s(1) pr_ok_flush by auto
  have ok_emit: "pr_ok p \<Longrightarrow> pr_next_sequence_id p < U64_MAX \<Longrightarrow> pr_ok q"
    if "pushed p1 op q" "pr_batch q = pr_batch p1" "\<not> cb" for op q
  proof -
    assume a: "pr_ok p" "pr_next_sequence_id p < U64_MAX"
    have "batch_ok q" using ok1 [OF a(1)] s(2) that by (simp add: pr_ok_def batch_ok_def)
    then show ?thesis
      using ok1 [OF a(1)] that(1) a(2) keep(2) pushed_keyed [of p1 op q] pushed_fresh [of p1 op q]
      by (simp add: pr_ok_def)
  qed
  have eq: "queue_send_reserved env uuid p msg r t now =
      (if length (om_payload m) > pr_max_message_size p \<and> \<not> pr_chunking_enabled p1
       then (p1, r, Inl (MessageTooLarge (length (om_payload m)) (pr_max_message_size p)))
       else if cb then (fst (send_batched env p1 m r t now), no_reservation, Inr (snd (send_batched env p1 m r t now)))
       else if length (om_payload m) > pr_max_message_size p
       then (fst (emit_chunked p1 uuid m r t now), no_reservation, Inr (snd (emit_chunked p1 uuid m r t now)))
       else (fst (emit_single p1 m r t now), no_reservation, Inr (snd (emit_single p1 m r t now))))"
    using open' by (cases cb) (simp_all add: queue_send_reserved_def sp m_def keep case_prod_beta Let_def)
  consider (big) "length (om_payload m) > pr_max_message_size p" "\<not> pr_chunking_enabled p1"
    | (batch) "\<not> (length (om_payload m) > pr_max_message_size p \<and> \<not> pr_chunking_enabled p1)" "cb"
    | (chunk) "length (om_payload m) > pr_max_message_size p" "pr_chunking_enabled p1" "\<not> cb"
    | (single) "\<not> length (om_payload m) > pr_max_message_size p" "\<not> cb" by blast
  then show thesis
  proof cases
    case big
    then show thesis by (intro refused [OF _ s(1)]) (use eq big in auto)
  next
    case batch
    obtain op where op: "pushed p1 op (fst (send_batched env p1 m r t now))" "op_reservation op = r"
      using send_batched_pushed by blast
    have q: "queue_send_reserved env uuid p msg r t now = (fst (send_batched env p1 m r t now), no_reservation, Inr (snd (send_batched env p1 m r t now)))"
      using eq batch by auto
    show thesis
      by (rule queued [OF q iffD2 [OF push op(1)] op(2)]) (use ok1 send_batched_ok keep in auto)
  next
    case chunk
    obtain op where op: "pushed p1 op (fst (emit_chunked p1 uuid m r t now))" "op_reservation op = r"
      using emit_chunked_pushed by blast
    have q: "queue_send_reserved env uuid p msg r t now = (fst (emit_chunked p1 uuid m r t now), no_reservation, Inr (snd (emit_chunked p1 uuid m r t now)))"
      using eq chunk by auto
    show thesis
      by (rule queued [OF q iffD2 [OF push op(1)] op(2)]) (use ok_emit [OF op(1)] chunk in simp)
  next
    case single
    obtain op where op: "pushed p1 op (fst (emit_single p1 m r t now))" "op_reservation op = r"
      using emit_single_pushed by blast
    have q: "queue_send_reserved env uuid p msg r t now = (fst (emit_single p1 m r t now), no_reservation, Inr (snd (emit_single p1 m r t now)))"
      using eq single by auto
    show thesis
      by (rule queued [OF q iffD2 [OF push op(1)] op(2)]) (use ok_emit [OF op(1)] single in simp)
  qed
qed

end
