(* ===== verification/Producer_Ops.thy ===== *)
theory Producer_Ops
  imports Producer_Send
begin

text \<open>
  The rest of the producer invariant: receipts, errors, wakers, timeouts, and the snapshot and
  replay around a reconnect.
\<close>

lemma fresh_filter: "fresh p \<Longrightarrow> pr_pending p' = filter P (pr_pending p) \<Longrightarrow>
    pr_next_sequence_id p' = pr_next_sequence_id p \<Longrightarrow> fresh p'"
  by (simp add: fresh_def)

lemma batch_ok_cong:
  "pr_batch p' = pr_batch p \<Longrightarrow> pr_next_sequence_id p' = pr_next_sequence_id p \<Longrightarrow> batch_ok p' = batch_ok p"
  by (simp add: batch_ok_def)

section \<open>Receipts and errors\<close>

lemma take_pending_keeps [simp]:
  "pr_next_sequence_id (fst (take_pending p s)) = pr_next_sequence_id p"
  "pr_batch (fst (take_pending p s)) = pr_batch p"
  "pr_send_timeout (fst (take_pending p s)) = pr_send_timeout p"
  "pr_closed (fst (take_pending p s)) = pr_closed p"
  by (simp_all add: take_pending_def Let_def split: option.splits)

lemma apply_receipt_keeps [simp]:
  "pr_next_sequence_id (fst (apply_receipt p receipt now)) = pr_next_sequence_id p"
  "pr_batch (fst (apply_receipt p receipt now)) = pr_batch p"
  "pr_send_timeout (fst (apply_receipt p receipt now)) = pr_send_timeout p"
  using take_pending_keeps [of p "sr_sequence_id receipt"]
  by (cases "take_pending p (sr_sequence_id receipt)"; cases "snd (take_pending p (sr_sequence_id receipt))";
      auto simp: apply_receipt_def Let_def)+

lemma apply_receipts_keeps [simp]:
  "pr_next_sequence_id (fst (apply_receipts p receipt ks now)) = pr_next_sequence_id p"
  "pr_batch (fst (apply_receipts p receipt ks now)) = pr_batch p"
  "pr_send_timeout (fst (apply_receipts p receipt ks now)) = pr_send_timeout p"
  by (induction ks arbitrary: p) (simp_all add: Let_def case_prod_beta)

lemma apply_receipts_indexed: "pr_indexed p \<Longrightarrow> pr_indexed (fst (apply_receipts p receipt ks now))"
  by (induction ks arbitrary: p) (simp_all add: Let_def case_prod_beta apply_receipt_indexed)

text \<open>A receipt resolves the pending sends of its range, each once, and leaves the others.\<close>

lemma handle_send_receipt_spec:
  assumes "pr_ok p" and "handle_send_receipt p receipt now = (p', resolved)"
  shows "pr_ok p'"
    and "pr_pending p' =
      filter (\<lambda>op. op_sequence_id op \<notin> {sr_sequence_id receipt..receipt_highest receipt}) (pr_pending p)"
    and "map (\<lambda>(op, mid). op_sequence_id op) resolved =
      filter (\<lambda>k. k \<in> op_sequence_id ` set (pr_pending p)) [sr_sequence_id receipt..<receipt_highest receipt + 1]"
    and "pr_indexed p \<Longrightarrow> pr_indexed p'"
    and "pr_send_timeout p' = pr_send_timeout p" and "pr_next_sequence_id p' = pr_next_sequence_id p"
    and "\<forall>r\<in>set resolved. \<exists>op\<in>set (pr_pending p). op_sequence_id (fst r) = op_sequence_id op \<and> op_waker (fst r) = op_waker op"
proof -
  define ks where "ks = [sr_sequence_id receipt..<receipt_highest receipt + 1]"
  have ks: "set ks = {sr_sequence_id receipt..receipt_highest receipt}" "distinct ks"
    by (auto simp: ks_def simp del: upt_Suc)
  let ?r = "apply_receipts p receipt ks now"
  have k: "pr_keyed p" using assms(1) by (simp add: pr_ok_def)
  have r: "snd ?r = resolved" "p' = (if length resolved > 0
      then (fst ?r)\<lparr>pr_total_acks_received := sat_add U64_MAX (pr_total_acks_received (fst ?r)) (length resolved)\<rparr>
      else fst ?r)"
    using assms(2) by (auto simp: handle_send_receipt_def case_prod_beta ks_def simp del: upt_Suc)
  have same: "pr_pending p' = pr_pending (fst ?r)" "pr_pending_index p' = pr_pending_index (fst ?r)"
    "pr_next_sequence_id p' = pr_next_sequence_id p" "pr_batch p' = pr_batch p"
    "pr_send_timeout p' = pr_send_timeout p"
    by (simp_all add: r(2))
  note t = receipts.take_all_spec [OF k ks(2), of receipt now, folded apply_receipts_take_all]
  show pend: "pr_pending p' =
      filter (\<lambda>op. op_sequence_id op \<notin> {sr_sequence_id receipt..receipt_highest receipt}) (pr_pending p)"
    using t by (simp add: same ks(1))
  show "map (\<lambda>(op, mid). op_sequence_id op) resolved = filter (\<lambda>k. k \<in> op_sequence_id ` set (pr_pending p))
      [sr_sequence_id receipt..<receipt_highest receipt + 1]"
    using t r(1) by (simp only: ks_def [symmetric])
  have "pr_keyed p'" unfolding same(1) same(2) by (rule conjunct1 [OF t])
  then show "pr_ok p'"
    using assms(1) fresh_filter [OF _ pend same(3)] batch_ok_cong [OF same(4) same(3)]
    by (simp add: pr_ok_def)
  show "pr_indexed p \<Longrightarrow> pr_indexed p'" using apply_receipts_indexed [of p receipt ks now] same by simp
  show "pr_send_timeout p' = pr_send_timeout p" "pr_next_sequence_id p' = pr_next_sequence_id p"
    using same by simp_all
  show "\<forall>r\<in>set resolved. \<exists>op\<in>set (pr_pending p).
      op_sequence_id (fst r) = op_sequence_id op \<and> op_waker (fst r) = op_waker op"
    using t r(1) by (simp add: case_prod_beta)
qed

lemma handle_send_error_spec:
  assumes "pr_ok p" and "handle_send_error p err = (p', r)"
  shows "pr_ok p'"
    and "pr_pending p' = filter (\<lambda>op. op_sequence_id op \<noteq> se_sequence_id err) (pr_pending p)"
    and "if se_sequence_id err \<in> op_sequence_id ` set (pr_pending p)
      then \<exists>op\<in>set (pr_pending p). \<exists>code msg. r = Some (op, code, msg) \<and> op_sequence_id op = se_sequence_id err
      else r = None"
    and "pr_indexed p \<Longrightarrow> pr_indexed p'"
    and "pr_send_timeout p' = pr_send_timeout p" and "pr_next_sequence_id p' = pr_next_sequence_id p"
proof -
  have e: "err\<lparr>se_sequence_id := se_sequence_id err\<rparr> = err" by simp
  have k: "pr_keyed p" using assms(1) by (simp add: pr_ok_def)
  define q where "q = fst (apply_send_error p err)"
  have r: "snd (apply_send_error p err) = r" "p' = (if r \<noteq> None
      then q\<lparr>pr_total_send_failed := sat_add U64_MAX (pr_total_send_failed q) 1\<rparr> else q)"
    using assms(2) by (auto simp: handle_send_error_def case_prod_beta q_def)
  have keep: "pr_next_sequence_id q = pr_next_sequence_id p" "pr_batch q = pr_batch p"
    "pr_send_timeout q = pr_send_timeout p"
    using take_pending_keeps [of p "se_sequence_id err"] unfolding q_def
    by (cases "take_pending p (se_sequence_id err)"; cases "snd (take_pending p (se_sequence_id err))";
        auto simp: apply_send_error_def)+
  have same: "pr_pending p' = pr_pending q" "pr_pending_index p' = pr_pending_index q"
    "pr_next_sequence_id p' = pr_next_sequence_id p" "pr_batch p' = pr_batch p"
    "pr_send_timeout p' = pr_send_timeout p"
    by (simp_all add: r(2) keep)
  show pend: "pr_pending p' = filter (\<lambda>op. op_sequence_id op \<noteq> se_sequence_id err) (pr_pending p)"
    using send_errors.take_ops [OF k, of "se_sequence_id err" err] by (simp add: same q_def)
  have "pr_keyed q" using send_errors.take_inv [OF k, of "se_sequence_id err" err] by (simp add: q_def)
  then have "pr_keyed p'" unfolding same(1) same(2) .
  then show "pr_ok p'"
    using assms(1) fresh_filter [OF _ pend same(3)] batch_ok_cong [OF same(4) same(3)] by (simp add: pr_ok_def)
  show "if se_sequence_id err \<in> op_sequence_id ` set (pr_pending p)
      then \<exists>op\<in>set (pr_pending p). \<exists>code msg. r = Some (op, code, msg) \<and> op_sequence_id op = se_sequence_id err
      else r = None"
    using send_errors.take_hit [OF k, of "se_sequence_id err" err]
      send_errors.take_miss [OF k, of "se_sequence_id err" err] r(1) by auto
  show "pr_indexed p \<Longrightarrow> pr_indexed p'" using apply_send_error_indexed [of p err] same by (simp add: q_def)
  show "pr_send_timeout p' = pr_send_timeout p" "pr_next_sequence_id p' = pr_next_sequence_id p"
    using same by simp_all
qed

section \<open>Wakers\<close>

definition wakers_only :: "producer \<Rightarrow> producer \<Rightarrow> bool" where
  "wakers_only p p' \<longleftrightarrow> map (\<lambda>op. op\<lparr>op_waker := None\<rparr>) (pr_pending p') = map (\<lambda>op. op\<lparr>op_waker := None\<rparr>) (pr_pending p) \<and>
     p' = p\<lparr>pr_pending := pr_pending p'\<rparr>"

lemma map_upd_waker: "i < length ops \<Longrightarrow>
    map (\<lambda>op. op\<lparr>op_waker := None\<rparr>) (ops[i := (ops ! i)\<lparr>op_waker := w\<rparr>]) = map (\<lambda>op. op\<lparr>op_waker := None\<rparr>) ops"
  by (rule nth_equalityI) (simp_all add: nth_list_update)

lemma register_waker_only: "wakers_only p (fst (register_waker p s w))"
  by (simp add: wakers_only_def register_waker_def map_upd_waker split: option.split)

lemma clear_waker_only: "wakers_only p (clear_waker p s)"
  by (simp add: wakers_only_def clear_waker_def map_upd_waker split: option.split)

lemma wakers_only_spec:
  assumes "wakers_only p p'"
  shows "map op_sequence_id (pr_pending p') = map op_sequence_id (pr_pending p)"
    and "pr_indexed p \<Longrightarrow> pr_indexed p'" and "pr_ok p \<Longrightarrow> pr_ok p'"
    and "pr_next_sequence_id p' = pr_next_sequence_id p" and "pr_send_timeout p' = pr_send_timeout p"
proof -
  have u: "map (\<lambda>op. op\<lparr>op_waker := None\<rparr>) (pr_pending p') = map (\<lambda>op. op\<lparr>op_waker := None\<rparr>) (pr_pending p)"
    and p': "p' = p\<lparr>pr_pending := pr_pending p'\<rparr>" using assms by (simp_all add: wakers_only_def)
  from arg_cong [OF u, of "map op_sequence_id"]
  show m: "map op_sequence_id (pr_pending p') = map op_sequence_id (pr_pending p)" by (simp add: comp_def)
  have f: "pr_pending_index p' = pr_pending_index p" "pr_batch p' = pr_batch p"
    by (subst p', simp)+
  show n: "pr_next_sequence_id p' = pr_next_sequence_id p" "pr_send_timeout p' = pr_send_timeout p"
    by (subst p', simp)+
  have l: "length (pr_pending p') = length (pr_pending p)" using m by (metis length_map)
  have nth: "op_sequence_id (pr_pending p' ! i) = op_sequence_id (pr_pending p ! i)" if "i < length (pr_pending p)" for i
    using m that l by (metis nth_map)
  have st: "op_sequence_id ` set (pr_pending p') = op_sequence_id ` set (pr_pending p)"
    using m by (metis list.set_map)
  show "pr_indexed p \<Longrightarrow> pr_indexed p'" using nth by (auto simp: indexed_def f l)
  assume ok: "pr_ok p"
  have fr: "fresh q \<longleftrightarrow> (\<forall>s\<in>op_sequence_id ` set (pr_pending q). s < pr_next_sequence_id q)" for q
    by (auto simp: fresh_def)
  have "fresh p'" using ok by (simp add: fr st n(1) pr_ok_def)
  moreover have "pr_keyed p'" using ok m st by (simp add: keyed_def f pr_ok_def)
  ultimately show "pr_ok p'" using ok batch_ok_cong [OF f(2) n(1)] by (simp add: pr_ok_def)
qed

definition set_waker :: "nat \<Rightarrow> waker option \<Rightarrow> op_send list \<Rightarrow> op_send list" where
  "set_waker s w = map (\<lambda>op. if op_sequence_id op = s then op\<lparr>op_waker := w\<rparr> else op)"

lemma set_waker_update:
  assumes "indexed ops idx" and "hm_get idx s = Some i"
  shows "ops[i := (ops ! i)\<lparr>op_waker := w\<rparr>] = set_waker s w ops"
proof (rule nth_equalityI)
  fix j assume "j < length (ops[i := (ops ! i)\<lparr>op_waker := w\<rparr>])"
  moreover have "op_sequence_id (ops ! j) = s \<longleftrightarrow> j = i" if "j < length ops"
    using indexedD1 [OF assms] indexed_inj [OF assms(1) that, of i] by auto
  ultimately show "ops[i := (ops ! i)\<lparr>op_waker := w\<rparr>] ! j = set_waker s w ops ! j"
    by (simp add: set_waker_def nth_list_update)
qed (simp add: set_waker_def)

lemma set_waker_absent: "s \<notin> op_sequence_id ` set ops \<Longrightarrow> set_waker s w ops = ops"
  unfolding set_waker_def by (rule map_idI) auto

text \<open>With an exact index a waker lands on the send it is registered for, and on no other.\<close>

lemma register_waker_indexed:
  assumes "pr_indexed p"
  shows "register_waker p s w =
    (if s \<in> op_sequence_id ` set (pr_pending p)
     then (p\<lparr>pr_pending := set_waker s (Some w) (pr_pending p)\<rparr>, True) else (p, False))"
proof (cases "hm_get (pr_pending_index p) s")
  case None
  then show ?thesis using indexed_None [OF assms, of s] by (simp add: register_waker_def)
next
  case (Some i)
  have "s \<in> op_sequence_id ` set (pr_pending p)" using indexed_None [OF assms, of s] Some by simp
  then show ?thesis
    using Some indexedD1 [OF assms Some] by (simp add: register_waker_def set_waker_update [OF assms Some])
qed

lemma clear_waker_indexed:
  assumes "pr_indexed p"
  shows "clear_waker p s = p\<lparr>pr_pending := set_waker s None (pr_pending p)\<rparr>"
proof (cases "hm_get (pr_pending_index p) s")
  case None
  then show ?thesis using indexed_None [OF assms, of s] by (simp add: clear_waker_def set_waker_absent)
next
  case (Some i)
  then show ?thesis
    using indexedD1 [OF assms Some] by (simp add: clear_waker_def set_waker_update [OF assms Some])
qed

section \<open>Timeouts and drains\<close>

lemma drain_timed_out_spec:
  "drain_timed_out timeout now ops idx = (rest, idx', out) \<Longrightarrow>
     ops = out @ rest \<and> idx' = hm_remove_all (map op_sequence_id out) idx"
proof (induction ops arbitrary: idx rest idx' out)
  case Nil
  then show ?case by (simp add: hm_remove_all_def)
next
  case (Cons op ops)
  show ?case
  proof (cases "now < deadline_with_clamp (op_enqueued_at op) timeout")
    case True
    then show ?thesis using Cons.prems by (auto simp: hm_remove_all_def)
  next
    case False
    obtain r i o' where d: "drain_timed_out timeout now ops (hm_remove (op_sequence_id op) idx) = (r, i, o')"
      by (metis prod.exhaust)
    then show ?thesis
      using Cons.IH [OF d] Cons.prems False by (auto simp: hm_remove_all_def)
  qed
qed

lemma hm_get_remove_all: "hm_get (hm_remove_all ks m) k = (if k \<in> set ks then None else hm_get m k)"
  unfolding hm_remove_all_def by (induction ks arbitrary: m) auto

lemma drain_timed_out_sends_spec:
  assumes "pr_ok p" and "drain_timed_out_sends p now = (p', out)"
  shows "pr_pending p = out @ pr_pending p'" and "pr_ok p'"
    and "pr_send_timeout p' = pr_send_timeout p" and "pr_next_sequence_id p' = pr_next_sequence_id p"
proof -
  obtain idx' where e: "pr_pending p = out @ pr_pending p'"
      "p' = p\<lparr>pr_pending := pr_pending p', pr_pending_index := idx'\<rparr>"
      "idx' = hm_remove_all (map op_sequence_id out) (pr_pending_index p)"
  proof (cases "pr_send_timeout p")
    case None
    then show thesis using assms(2) by (intro that [of "pr_pending_index p"])
      (auto simp: drain_timed_out_sends_def hm_remove_all_def)
  next
    case (Some timeout)
    obtain r i o' where d: "drain_timed_out timeout now (pr_pending p) (pr_pending_index p) = (r, i, o')"
      by (metis prod.exhaust)
    then show thesis using assms(2) Some drain_timed_out_spec [OF d]
      by (intro that [of i]) (auto simp: drain_timed_out_sends_def)
  qed
  have keep: "pr_pending_index p' = idx'" "pr_batch p' = pr_batch p"
    by (subst e(2), simp)+
  show "pr_pending p = out @ pr_pending p'" by (rule e(1))
  show n: "pr_send_timeout p' = pr_send_timeout p" "pr_next_sequence_id p' = pr_next_sequence_id p"
    by (subst e(2), simp)+
  have "keyed (out @ pr_pending p') (pr_pending_index p)" using assms(1) e(1) by (simp add: pr_ok_def)
  then have "pr_keyed p'" by (auto simp: keyed_def keep e(3) hm_get_remove_all)
  then show "pr_ok p'"
    using assms(1) n(2) batch_ok_cong [OF keep(2) n(2)] by (simp add: pr_ok_def fresh_def e(1))
qed

lemma keyed_drained: "keyed ops idx \<Longrightarrow> keyed [] (hm_remove_all (map op_sequence_id ops) idx)"
  by (simp add: keyed_def hm_get_remove_all)

lemma indexed_drained: "keyed ops idx \<Longrightarrow> indexed [] (hm_remove_all (map op_sequence_id ops) idx)"
  by (auto simp: indexed_def keyed_def hm_get_remove_all)

lemma drain_pending_sends_spec:
  assumes "pr_ok p" and "drain_pending_sends p = (p', drained)"
  shows "drained = pr_pending p" and "pr_pending p' = []" and "pr_ok p'" and "pr_indexed p'"
    and "pr_send_timeout p' = pr_send_timeout p" and "pr_next_sequence_id p' = pr_next_sequence_id p"
  using assms keyed_drained [of "pr_pending p" "pr_pending_index p"]
    indexed_drained [of "pr_pending p" "pr_pending_index p"]
  by (auto simp: drain_pending_sends_def pr_ok_def fresh_def batch_ok_def bc_default_def)

section \<open>Snapshot and replay\<close>

lemma snapshot_ops_spec:
  "snapshot_ops ops = (map (\<lambda>op. (op_sequence_id op, op_waker op)) (filter (\<lambda>op. op_replay_frames op \<noteq> []) ops),
     filter (\<lambda>op. op_replay_frames op = []) ops,
     map (\<lambda>op. op\<lparr>op_waker := None\<rparr>) (filter (\<lambda>op. op_replay_frames op \<noteq> []) ops))"
  by (induction ops) (auto simp: Let_def)

lemma snapshot_pending_sends_spec:
  assumes "pr_ok p" and "snapshot_pending_sends p = (p', ws, dropped, snaps)"
  shows "ws = map (\<lambda>op. (op_sequence_id op, op_waker op)) (filter (\<lambda>op. op_replay_frames op \<noteq> []) (pr_pending p))"
    and "dropped = filter (\<lambda>op. op_replay_frames op = []) (pr_pending p)"
    and "snaps = map (\<lambda>op. op\<lparr>op_waker := None\<rparr>) (filter (\<lambda>op. op_replay_frames op \<noteq> []) (pr_pending p))"
    and "pr_pending p' = []" and "pr_ok p'" and "pr_indexed p'" and "\<not> pr_broker_ready p'"
    and "pr_outbound p' = []"
    and "pr_send_timeout p' = pr_send_timeout p" and "pr_next_sequence_id p' = pr_next_sequence_id p"
  using assms keyed_drained [of "pr_pending p" "pr_pending_index p"]
    indexed_drained [of "pr_pending p" "pr_pending_index p"]
  by (auto simp: snapshot_pending_sends_def snapshot_ops_spec pr_ok_def fresh_def batch_ok_def bc_default_def)

lemma foldl_push_front: "foldl (\<lambda>q x. x # q) ys (rev xs) = xs @ ys"
  by (induction xs arbitrary: ys) simp_all

lemma foldl_push_frames:
  "foldl (\<lambda>q s. op_replay_frames s @ q) ys (rev xs) = concat (map op_replay_frames xs) @ ys"
  by (induction xs arbitrary: ys) simp_all

lemma hm_get_index_fold:
  "distinct (map op_sequence_id ops) \<Longrightarrow>
   hm_get (fold (\<lambda>(i, op). hm_insert (op_sequence_id op) i) (enumerate n ops) m) s =
     (case list_position (\<lambda>op. op_sequence_id op = s) ops of Some i \<Rightarrow> Some (n + i) | None \<Rightarrow> hm_get m s)"
proof (induction ops arbitrary: n m)
  case Nil
  then show ?case by simp
next
  case (Cons op ops)
  have "list_position (\<lambda>op'. op_sequence_id op' = s) ops = None" if "op_sequence_id op = s"
    using Cons.prems that by (auto simp: list_position_None image_iff)
  then show ?case using Cons by (auto split: option.split)
qed

lemma indexed_index_of_pending:
  assumes "distinct (map op_sequence_id ops)"
  shows "indexed ops (index_of_pending ops)"
  unfolding indexed_def
proof (intro allI)
  fix s i
  let ?pos = "list_position (\<lambda>op. op_sequence_id op = s) ops"
  have g: "hm_get (index_of_pending ops) s = ?pos"
    by (simp add: index_of_pending_def hm_get_index_fold [OF assms] split: option.split)
  show "hm_get (index_of_pending ops) s = Some i \<longleftrightarrow> i < length ops \<and> op_sequence_id (ops ! i) = s"
  proof
    assume "hm_get (index_of_pending ops) s = Some i"
    then show "i < length ops \<and> op_sequence_id (ops ! i) = s"
      using list_position_Some [of "\<lambda>op. op_sequence_id op = s" ops i] g by simp
  next
    assume i: "i < length ops \<and> op_sequence_id (ops ! i) = s"
    obtain j where j: "?pos = Some j"
      using i by (cases ?pos) (auto simp: list_position_None)
    have "j = i"
      using list_position_Some [OF j] i nth_eq_iff_index_eq [OF assms, of j i] by simp
    then show "hm_get (index_of_pending ops) s = Some i" using g j by simp
  qed
qed

lemma replay_snapshots_spec:
  "pr_pending (replay_snapshots p snaps) = snaps @ pr_pending p"
  "pr_outbound (replay_snapshots p snaps) = concat (map op_replay_frames snaps) @ pr_outbound p"
  "pr_pending_index (replay_snapshots p snaps) = index_of_pending (snaps @ pr_pending p)"
  "pr_next_sequence_id (replay_snapshots p snaps) = pr_next_sequence_id p"
  "pr_batch (replay_snapshots p snaps) = pr_batch p"
  "pr_send_timeout (replay_snapshots p snaps) = pr_send_timeout p"
  by (simp_all add: replay_snapshots_def Let_def foldl_push_front foldl_push_frames)

lemma replay_pending_outbound_spec:
  "pr_outbound (replay_pending_outbound p) = concat (map op_replay_frames
     (filter (\<lambda>op. op_sequence_id op \<notin> of_sequence_id ` set (pr_outbound p)) (pr_pending p))) @ pr_outbound p"
  "replay_pending_outbound p = p\<lparr>pr_outbound := pr_outbound (replay_pending_outbound p)\<rparr>"
  by (simp_all add: replay_pending_outbound_def Let_def foldl_push_front)

lemma replay_snapshots_ok:
  assumes "pr_ok p" and "distinct (map op_sequence_id (snaps @ pr_pending p))"
    and "\<forall>op\<in>set snaps. op_sequence_id op < pr_next_sequence_id p"
  shows "pr_ok (replay_snapshots p snaps)" and "pr_indexed (replay_snapshots p snaps)"
proof -
  show i: "pr_indexed (replay_snapshots p snaps)"
    using indexed_index_of_pending [OF assms(2)] by (simp add: replay_snapshots_spec)
  show "pr_ok (replay_snapshots p snaps)"
    using assms(1,3) indexed_keyed [OF i] batch_ok_cong [of "replay_snapshots p snaps" p]
    by (auto simp: pr_ok_def fresh_def replay_snapshots_spec)
qed

end
