(* ===== verification/Chunk_Path.thy ===== *)
theory Chunk_Path
  imports Auto_Growth Producer_Ops
begin

text \<open>
  Chunked messages from the producer to the consumer: the table of incomplete messages stays in step
  with its order queue, and the chunks a producer emits are put together to the payload it was given.
\<close>

section \<open>The table of incomplete messages\<close>

text \<open>An incomplete message: one payload per chunk received, and some chunk still missing.\<close>

definition buffer_wf :: "chunk_buffer \<Rightarrow> bool" where
  "buffer_wf b \<longleftrightarrow> hm_wf (cb_payloads b) \<and> cb_received_chunks b = int (length (cb_payloads b)) \<and>
        0 < cb_received_chunks b \<and> cb_received_chunks b < cb_expected_chunks b \<and> cb_expected_chunks b \<le> MAX_CHUNK_TOTAL \<and>
        (\<forall>i \<in> dom (hm_get (cb_payloads b)). 0 \<le> i)"

definition chunk_wf :: "consumer \<Rightarrow> bool" where
  "chunk_wf c \<longleftrightarrow> hm_wf (cr_chunk_reassembly c) \<and> distinct (cr_chunk_reassembly_order c) \<and>
     set (cr_chunk_reassembly_order c) = dom (hm_get (cr_chunk_reassembly c)) \<and>
     (\<forall>u b. hm_get (cr_chunk_reassembly c) u = Some b \<longrightarrow> buffer_wf b) \<and>
     (0 < cr_max_pending_chunked_message c \<longrightarrow> length (cr_chunk_reassembly c) \<le> cr_max_pending_chunked_message c)"

text \<open>What the table consists of.\<close>

definition chunks_of where "chunks_of c = (cr_max_pending_chunked_message c, cr_chunk_reassembly c, cr_chunk_reassembly_order c)"

lemma chunk_wf_cong: "chunks_of c' = chunks_of c \<Longrightarrow> chunk_wf c' = chunk_wf c"
  by (simp add: chunks_of_def chunk_wf_def)

lemma chunks_classify [simp]: "chunks_of (fst (classify_and_queue im red now c)) = chunks_of c"
  by (simp add: chunks_of_def classify_and_queue_def Let_def record_dispatch_unit_def record_broker_permit_consumed_def)

lemma chunks_refund [simp]: "chunks_of (record_broker_permit_consumed c) = chunks_of c" "chunks_of (record_dispatch_unit c) = chunks_of c"
  by (simp_all add: chunks_of_def record_dispatch_unit_def record_broker_permit_consumed_def)

lemma chunks_wake [simp]: "chunks_of (wake_receivers c) = chunks_of c"
  by (simp add: chunks_of_def wake_receivers_def)

lemma chunks_refunds [simp]: "chunks_of (((\<lambda>c. record_broker_permit_consumed (record_dispatch_unit c)) ^^ n) c) = chunks_of c"
  by (induction n) simp_all

lemma chunks_members [simp]: "chunks_of (fst (fold (deliver_member d mid k m be red now) ims cn)) = chunks_of (fst cn)"
  by (induction ims arbitrary: cn) (auto simp: deliver_member_def split_beta)

lemma chunks_entry [simp]: "chunks_of (fst (deliver_entry env cmd m be bdy now c)) = chunks_of c"
  by (simp add: deliver_entry_def deliver_single_def deliver_batch_def Let_def split_beta split: option.split)
    (simp add: chunks_of_def)

lemma remove_at_position: "list_position (\<lambda>u. u = x) xs = Some i \<Longrightarrow> remove_at i xs = remove1 x xs"
  by (induction xs arbitrary: i) (auto simp: remove_at_def split: if_splits)

lemma forget_order [simp]:
  "cr_chunk_reassembly_order (forget_chunk_order u c) = remove1 u (cr_chunk_reassembly_order c)"
  "cr_chunk_reassembly (forget_chunk_order u c) = cr_chunk_reassembly c"
  "cr_max_pending_chunked_message (forget_chunk_order u c) = cr_max_pending_chunked_message c"
  by (auto simp: forget_chunk_order_def remove_at_position list_position_None remove1_idem split: option.split)

lemma insert_new: "hm_get m k = None \<Longrightarrow> hm_insert k v m = m @ [(k, v)]"
  by (induction m) (auto split: if_splits)

lemma length_insert_present: "hm_get m k = Some v \<Longrightarrow> length (hm_insert k w m) = length m"
  by (induction m) (auto split: if_splits)

lemma length_insert_le: "length (hm_insert k w m) \<le> Suc (length m)"
  by (induction m) (auto split: if_splits)

lemma length_remove: "length (hm_remove k m) \<le> length m"
  by (simp add: AList.delete_eq)

lemma remove_insert: "hm_remove k (hm_insert k v m) = hm_remove k m"
  by (induction m) auto

lemma length_remove_present: "hm_get m k = Some v \<Longrightarrow> length (hm_remove k m) < length m"
  by (induction m) (auto simp: length_remove less_Suc_eq_le split: if_splits)

lemma wf_remove:
  assumes "chunk_wf c" and "chunks_of c' = (cr_max_pending_chunked_message c, hm_remove u (cr_chunk_reassembly c), remove1 u (cr_chunk_reassembly_order c))"
  shows "chunk_wf c'"
proof -
  have "cr_chunk_reassembly c' = hm_remove u (cr_chunk_reassembly c)"
    "cr_chunk_reassembly_order c' = remove1 u (cr_chunk_reassembly_order c)"
    "cr_max_pending_chunked_message c' = cr_max_pending_chunked_message c" using assms(2) by (simp_all add: chunks_of_def)
  moreover have "set (remove1 u (cr_chunk_reassembly_order c)) = dom (hm_get (hm_remove u (cr_chunk_reassembly c)))"
    using assms(1) by (auto simp: chunk_wf_def split: if_splits)
  ultimately show ?thesis using assms(1) length_remove [of u "cr_chunk_reassembly c"] unfolding chunk_wf_def
    by (auto split: if_splits)
qed

lemma wf_get: "chunk_wf c \<Longrightarrow> hm_get (cr_chunk_reassembly c) u = Some b \<Longrightarrow> buffer_wf b"
  by (auto simp: chunk_wf_def)

text \<open>A new message enters; at the cap the oldest one leaves.\<close>

definition enrol :: "string \<Rightarrow> chunk_buffer \<Rightarrow> consumer \<Rightarrow> consumer" where
  "enrol u nb c =
     (let c = c\<lparr>cr_chunk_reassembly := hm_insert u nb (cr_chunk_reassembly c),
                cr_chunk_reassembly_order := cr_chunk_reassembly_order c @ [u]\<rparr>
      in if cr_max_pending_chunked_message c > 0 \<and> length (cr_chunk_reassembly c) > cr_max_pending_chunked_message c
         then remove_oldest_pending_chunked_message c else c)"

lemma enrol_cases:
  assumes wf: "chunk_wf c" and new: "hm_get (cr_chunk_reassembly c) u = None"
  obtains "enrol u nb c = c\<lparr>cr_chunk_reassembly := hm_insert u nb (cr_chunk_reassembly c),
      cr_chunk_reassembly_order := cr_chunk_reassembly_order c @ [u]\<rparr>"
    "0 < cr_max_pending_chunked_message c \<longrightarrow> length (cr_chunk_reassembly c) < cr_max_pending_chunked_message c"
  | x xs b where "cr_chunk_reassembly_order c = x # xs" "x \<noteq> u" "hm_get (cr_chunk_reassembly c) x = Some b"
    "enrol u nb c = discard_buffer x b (c\<lparr>cr_chunk_reassembly := hm_insert u nb (cr_chunk_reassembly c),
      cr_chunk_reassembly_order := xs @ [u]\<rparr>)"
proof (cases "cr_chunk_reassembly_order c")
  case Nil
  then have "cr_chunk_reassembly c = []" using wf by (cases "cr_chunk_reassembly c") (auto simp: chunk_wf_def)
  then show ?thesis using Nil by (intro that(1)) (auto simp: enrol_def Let_def)
next
  case (Cons x xs)
  then have "x \<in> dom (hm_get (cr_chunk_reassembly c))" using wf by (auto simp: chunk_wf_def)
  then obtain b where b: "hm_get (cr_chunk_reassembly c) x = Some b" by blast
  have x: "x \<noteq> u" using b new by auto
  show ?thesis
  proof (cases "cr_max_pending_chunked_message c > 0 \<and>
      length (hm_insert u nb (cr_chunk_reassembly c)) > cr_max_pending_chunked_message c")
    case True
    then show ?thesis using Cons b x
      by (intro that(2) [OF Cons x b]) (simp add: enrol_def Let_def remove_oldest_pending_chunked_message_def)
  next
    case False
    then show ?thesis using new by (intro that(1)) (auto simp: enrol_def Let_def insert_new)
  qed
qed

lemma store_new:
  assumes "hm_get (cr_chunk_reassembly c) u = None" "chunk_wf c" "cb_payloads nb = []"
  shows "store_chunk nb u i bdy c = (put_chunk u i bdy nb (enrol u nb c), True)"
proof -
  have g: "hm_get (cr_chunk_reassembly (enrol u nb c)) u = Some nb"
    by (rule enrol_cases [OF assms(2,1), of nb]) (simp_all add: discard_buffer_def)
  have "\<not> hm_contains (cr_chunk_reassembly c) u" using assms(1) by (simp add: hm_contains_def)
  then show ?thesis using g assms(3) unfolding store_chunk_def enrol_def Let_def by simp
qed

lemma buffer_wf_put:
  assumes "hm_get (cb_payloads b) i = None" "hm_wf (cb_payloads b)" "cb_received_chunks b = int (length (cb_payloads b))" "0 \<le> i"
    "cb_received_chunks b + 1 < cb_expected_chunks b" "cb_expected_chunks b \<le> MAX_CHUNK_TOTAL"
    "\<forall>i \<in> dom (hm_get (cb_payloads b)). 0 \<le> i"
  shows "buffer_wf (b\<lparr>cb_payloads := hm_insert i bdy (cb_payloads b), cb_received_chunks := cb_received_chunks b + 1\<rparr>)"
proof -
  have "length (hm_insert i bdy (cb_payloads b)) = Suc (length (cb_payloads b))"
    using assms(1) by (simp add: insert_new)
  then show ?thesis using assms by (auto simp: buffer_wf_def)
qed

lemma wf_set:
  assumes "chunk_wf c" "u \<in> dom (hm_get (cr_chunk_reassembly c))" "buffer_wf b"
    "chunks_of c' = (cr_max_pending_chunked_message c, hm_insert u b (cr_chunk_reassembly c), cr_chunk_reassembly_order c)"
  shows "chunk_wf c'"
  using assms by (auto simp: chunk_wf_def chunks_of_def length_insert_present split: if_splits)

lemma wf_enrol:
  assumes wf: "chunk_wf c" "hm_get (cr_chunk_reassembly c) u = None" and b: "buffer_wf b"
    and c': "chunks_of c' = (cr_max_pending_chunked_message c, hm_insert u b (cr_chunk_reassembly (enrol u nb c)), cr_chunk_reassembly_order (enrol u nb c))"
  shows "chunk_wf c'"
proof -
  have u: "u \<notin> set (cr_chunk_reassembly_order c)" using wf by (auto simp: chunk_wf_def)
  show ?thesis
  proof (rule enrol_cases [OF wf, of nb])
    assume "enrol u nb c = c\<lparr>cr_chunk_reassembly := hm_insert u nb (cr_chunk_reassembly c),
      cr_chunk_reassembly_order := cr_chunk_reassembly_order c @ [u]\<rparr>"
      "0 < cr_max_pending_chunked_message c \<longrightarrow> length (cr_chunk_reassembly c) < cr_max_pending_chunked_message c"
    then show ?thesis using wf b c' u length_insert_le [of u b "cr_chunk_reassembly c"]
      by (auto simp: chunk_wf_def chunks_of_def split: if_splits)
  next
    fix x xs bx
    let ?t = "hm_insert u nb (cr_chunk_reassembly c)"
    assume o: "cr_chunk_reassembly_order c = x # xs" and x: "x \<noteq> u" "hm_get (cr_chunk_reassembly c) x = Some bx"
      and e: "enrol u nb c = discard_buffer x bx (c\<lparr>cr_chunk_reassembly := ?t, cr_chunk_reassembly_order := xs @ [u]\<rparr>)"
    have c'': "cr_chunk_reassembly c' = hm_insert u b (hm_remove x ?t)" "cr_chunk_reassembly_order c' = xs @ [u]"
      "cr_max_pending_chunked_message c' = cr_max_pending_chunked_message c"
      using c' by (simp_all add: chunks_of_def e discard_buffer_def)
    have "hm_get (hm_remove x ?t) u = Some nb" "hm_get ?t x = Some bx" using x by auto
    then have "length (hm_insert u b (hm_remove x ?t)) < length ?t"
      using length_insert_present [of "hm_remove x ?t" u nb b] length_remove_present [of ?t x bx] by simp
    then have len: "length (cr_chunk_reassembly c') \<le> length (cr_chunk_reassembly c)"
      using length_insert_le [of u nb "cr_chunk_reassembly c"] c''(1) by simp
    have g: "hm_get (cr_chunk_reassembly c') = (hm_get (cr_chunk_reassembly c))(x := None, u \<mapsto> b)"
      unfolding c''(1) using x by (auto simp: fun_eq_iff)
    have xs: "set xs = dom (hm_get (cr_chunk_reassembly c)) - {x}" "distinct (xs @ [u])"
      using wf(1) o u by (auto simp: chunk_wf_def)
    have "set (cr_chunk_reassembly_order c') = dom (hm_get (cr_chunk_reassembly c'))" unfolding g c''(2) using xs(1) by auto
    moreover have "buffer_wf b'" if "hm_get (cr_chunk_reassembly c') v = Some b'" for v b'
      using that b wf_get [OF wf(1), of v b'] unfolding g by (auto split: if_splits)
    moreover have "hm_wf (cr_chunk_reassembly c')" using wf(1) c''(1) by (simp add: chunk_wf_def)
    ultimately show ?thesis using wf(1) len xs(2) c''(2,3) unfolding chunk_wf_def by auto
  qed
qed

text \<open>The two ways a chunk is stored, seen from outside; \<open>b\<close> is the message without the chunk.\<close>

lemma complete_chunks:
  "chunks_of (fst (complete_chunked u b mid now c)) =
     (cr_max_pending_chunked_message c, hm_remove u (cr_chunk_reassembly c), remove1 u (cr_chunk_reassembly_order c))"
proof -
  have "chunks_of (fst (complete_chunked u b mid now c)) =
      chunks_of (forget_chunk_order u (c\<lparr>cr_chunk_reassembly := hm_remove u (cr_chunk_reassembly c)\<rparr>))"
    unfolding complete_chunked_def Let_def split_beta fst_conv chunks_wake chunks_classify by (simp add: chunks_of_def)
  then show ?thesis by (simp add: chunks_of_def)
qed

definition with_chunk :: "int \<Rightarrow> bytes \<Rightarrow> chunk_buffer \<Rightarrow> chunk_buffer" where
  "with_chunk i bdy b = b\<lparr>cb_payloads := hm_insert i bdy (cb_payloads b), cb_received_chunks := cb_received_chunks b + 1\<rparr>"

lemma put_chunks:
  "chunks_of (put_chunk u i bdy b c) = (cr_max_pending_chunked_message c, hm_insert u (with_chunk i bdy b) (cr_chunk_reassembly c), cr_chunk_reassembly_order c)"
  by (simp add: chunks_of_def put_chunk_def with_chunk_def)

lemma wf_replace:
  assumes "chunk_wf c" "hm_get (cr_chunk_reassembly c) u = Some b" "hm_get (cb_payloads b) i \<noteq> None"
  shows "chunk_wf (replace_chunk u i bdy b c)"
proof (rule wf_set [OF assms(1)])
  have "buffer_wf b" using assms(1,2) by (rule wf_get)
  then show "buffer_wf (b\<lparr>cb_payloads := hm_insert i bdy (cb_payloads b)\<rparr>)"
    using assms(3) by (auto simp: buffer_wf_def length_insert_present split: if_splits)
  show "chunks_of (replace_chunk u i bdy b c) = (cr_max_pending_chunked_message c,
      hm_insert u (b\<lparr>cb_payloads := hm_insert i bdy (cb_payloads b)\<rparr>) (cr_chunk_reassembly c), cr_chunk_reassembly_order c)"
    by (simp add: chunks_of_def replace_chunk_def)
qed (use assms(2) in blast)

text \<open>The guards of a chunk, its buffer when it opens a message, and what follows once it is stored.\<close>

definition new_buffer :: "message_id \<Rightarrow> nat \<Rightarrow> message_metadata \<Rightarrow> broker_entry option \<Rightarrow> int \<Rightarrow> instant \<Rightarrow> chunk_buffer" where
  "new_buffer mid red m be n now = \<lparr>cb_expected_chunks = n, cb_received_chunks = 0, cb_received_at = now, cb_payloads = [],
     cb_first_metadata = m, cb_first_chunk_message_id = Some mid, cb_broker_entry = be, cb_redelivery_count = red\<rparr>"

definition chunk_guard :: "message_metadata \<Rightarrow> int \<Rightarrow> int \<Rightarrow> consumer \<Rightarrow> bool" where
  "chunk_guard m n i c \<longleftrightarrow> 0 \<le> i \<and> i < n \<and> n \<le> MAX_CHUNK_TOTAL \<and>
     (i = 0 \<or> hm_contains (cr_chunk_reassembly c) (unwrap_or [] (mm_uuid m)))"

definition after_store :: "string \<Rightarrow> message_id \<Rightarrow> instant \<Rightarrow> consumer \<times> bool \<Rightarrow> consumer \<times> deliver_outcome" where
  "after_store u mid now = (\<lambda>(c, ok).
     case (if ok then hm_get (cr_chunk_reassembly c) u else None) of
       None \<Rightarrow> (c, Dropped)
     | Some b \<Rightarrow> if cb_received_chunks b < cb_expected_chunks b
         then (record_dispatch_unit (record_broker_permit_consumed c), Buffered)
         else complete_chunked u b mid now c)"

lemma deliver_chunk_alt:
  "deliver_chunk mid red m be n i bdy now c =
     (if chunk_guard m n i c
      then after_store (unwrap_or [] (mm_uuid m)) mid now
        (store_chunk (new_buffer mid red m be n now) (unwrap_or [] (mm_uuid m)) i bdy c)
      else (c, Dropped))"
  unfolding deliver_chunk_def chunk_guard_def after_store_def new_buffer_def [symmetric] Let_def
  by (auto split: prod.split bool.split)

lemma wf_after_put:
  assumes "chunk_wf c" "hm_get (cr_chunk_reassembly c) u = Some b"
  shows "chunk_wf (fst (after_store u mid now (c, True)))"
proof -
  have "cb_received_chunks b < cb_expected_chunks b" using wf_get [OF assms] by (simp add: buffer_wf_def)
  then show ?thesis using assms chunk_wf_cong [of "record_dispatch_unit (record_broker_permit_consumed c)" c]
    by (simp add: after_store_def)
qed

lemma wf_chunk_new:
  assumes wf: "chunk_wf c" and None: "hm_get (cr_chunk_reassembly c) u = None" and n: "1 < n" "n \<le> MAX_CHUNK_TOTAL" "0 \<le> i"
  shows "chunk_wf (fst (after_store u mid now (store_chunk (new_buffer mid red m be n now) u i bdy c)))"
proof -
  let ?nb = "new_buffer mid red m be n now"
  let ?c = "put_chunk u i bdy ?nb (enrol u ?nb c)"
  have b: "buffer_wf (with_chunk i bdy ?nb)"
    using n unfolding with_chunk_def by (intro buffer_wf_put) (auto simp: new_buffer_def)
  have "cr_max_pending_chunked_message (enrol u ?nb c) = cr_max_pending_chunked_message c"
    by (rule enrol_cases [OF wf None, of ?nb]) (simp_all add: discard_buffer_def)
  then have "chunk_wf ?c" using wf_enrol [OF wf None b, of ?c ?nb] by (simp add: put_chunks)
  moreover have "hm_get (cr_chunk_reassembly ?c) u = Some (with_chunk i bdy ?nb)"
    by (simp add: put_chunk_def with_chunk_def)
  ultimately have "chunk_wf (fst (after_store u mid now (?c, True)))" by (rule wf_after_put)
  moreover have "store_chunk ?nb u i bdy c = (?c, True)" by (rule store_new [OF None wf]) (simp add: new_buffer_def)
  ultimately show ?thesis by simp
qed

lemma wf_chunk_known:
  assumes wf: "chunk_wf c" and Some: "hm_get (cr_chunk_reassembly c) u = Some b" and i: "0 \<le> i"
  shows "chunk_wf (fst (after_store u mid now (store_chunk nb u i bdy c)))"
proof (cases "sat_add USIZE_MAX (cr_chunk_buffered_bytes c) (length bdy) > MAX_BUFFERED_CHUNK_BYTES \<or> hm_get (cb_payloads b) i \<noteq> None")
  case True
  then have "store_chunk nb u i bdy c = (c, False) \<or> hm_get (cb_payloads b) i \<noteq> None \<and>
      store_chunk nb u i bdy c = (replace_chunk u i bdy b c, False)"
    using Some by (auto simp: store_chunk_def hm_contains_def)
  moreover have "fst (after_store u mid now (x, False)) = x" for x by (simp add: after_store_def)
  ultimately show ?thesis using wf wf_replace [OF wf Some] by auto
next
  case False
  let ?c = "put_chunk u i bdy b c"
  have st: "store_chunk nb u i bdy c = (?c, True)" using Some False by (simp add: store_chunk_def hm_contains_def)
  have g: "hm_get (cr_chunk_reassembly ?c) u = Some (with_chunk i bdy b)" by (simp add: put_chunk_def with_chunk_def)
  have bw: "buffer_wf b" using wf Some by (rule wf_get)
  show ?thesis
  proof (cases "cb_received_chunks b + 1 < cb_expected_chunks b")
    case True
    have "buffer_wf (with_chunk i bdy b)"
      using bw False i True unfolding with_chunk_def by (intro buffer_wf_put) (auto simp: buffer_wf_def)
    then have "chunk_wf ?c" using wf_set [OF wf _ _ put_chunks] Some by blast
    then show ?thesis unfolding st using g by (rule wf_after_put)
  next
    case False
    have "chunks_of (fst (complete_chunked u (with_chunk i bdy b) mid now ?c)) =
        (cr_max_pending_chunked_message c, hm_remove u (cr_chunk_reassembly c), remove1 u (cr_chunk_reassembly_order c))"
      unfolding complete_chunks by (simp add: put_chunk_def remove_insert)
    then have "chunk_wf (fst (complete_chunked u (with_chunk i bdy b) mid now ?c))" by (rule wf_remove [OF wf])
    moreover have "after_store u mid now (?c, True) = complete_chunked u (with_chunk i bdy b) mid now ?c"
      unfolding after_store_def prod.case if_True g option.case using False by (simp add: with_chunk_def)
    ultimately show ?thesis unfolding st by simp
  qed
qed

lemma wf_deliver_chunk:
  assumes "chunk_wf c" "1 < n" shows "chunk_wf (fst (deliver_chunk mid red m be n i bdy now c))"
  using assms wf_chunk_new [OF assms(1), of "unwrap_or [] (mm_uuid m)" n i mid now red m be bdy]
    wf_chunk_known [OF assms(1), of "unwrap_or [] (mm_uuid m)" _ i mid now "new_buffer mid red m be n now" bdy]
  by (cases "hm_get (cr_chunk_reassembly c) (unwrap_or [] (mm_uuid m))") (simp_all add: deliver_chunk_alt chunk_guard_def)

lemma wf_deliver: "chunk_wf c \<Longrightarrow> chunk_wf (fst (deliver env cmd m be bdy now c))"
proof (cases "cr_closed c \<or> cr_pending_seek c \<noteq> None")
  case True
  then show "chunk_wf c \<Longrightarrow> ?thesis" by (auto simp: deliver_def)
next
  case False
  assume wf: "chunk_wf c"
  show ?thesis
  proof (rule deliver_cases [of c m cmd env be bdy now])
    fix n i assume "1 < n" "deliver env cmd m be bdy now c = map_prod id Inr
         (deliver_chunk (mid_from_pb (cm_message_id cmd)) (unwrap_or 0 (cm_redelivery_count cmd)) m be n i bdy now c)"
    then show ?thesis using wf_deliver_chunk [OF wf] by simp
  next
    assume "deliver env cmd m be bdy now c = map_prod id Inr (deliver_entry env cmd m be bdy now c)"
    then show ?thesis using wf chunk_wf_cong [OF chunks_entry [of env cmd m be bdy now c]] by simp
  qed (use False in auto)
qed

lemma wf_sweep:
  assumes "chunk_wf (c\<lparr>cr_chunk_reassembly_order := us\<rparr>)"
  shows "chunk_wf (sweep_chunks expire now us c)"
  using assms
proof (induction expire now us c rule: sweep_chunks.induct)
  case (2 expire now u rest c)
  have "set (u # rest) = dom (hm_get (cr_chunk_reassembly c))" using 2(3) unfolding chunk_wf_def by simp
  then have "u \<in> dom (hm_get (cr_chunk_reassembly c))" by (metis list.set_intros(1))
  then obtain b where b: "hm_get (cr_chunk_reassembly c) u = Some b" by blast
  have "chunk_wf ((discard_buffer u b c)\<lparr>cr_chunk_reassembly_order := rest\<rparr>)"
    by (rule wf_remove [OF 2(3), of _ u]) (simp add: chunks_of_def discard_buffer_def)
  then show ?case using 2(2) [OF b] 2(3) b by simp
qed simp

lemma wf_sweep_expired: "chunk_wf c \<Longrightarrow> chunk_wf (sweep_expired_chunks now c)"
  by (simp add: sweep_expired_chunks_def wf_sweep split: option.split)

section \<open>Every call of the connection\<close>

interpretation tables: ack_neutral chunks_of
  by unfold_locales (simp_all add: chunks_of_def)

definition tables_wf :: "recv_conn \<Rightarrow> bool" where
  "tables_wf r \<longleftrightarrow> (\<forall>c. rc_slot r = Some c \<longrightarrow> chunk_wf c)"

lemma tables_view: "view_of chunks_of r' = view_of chunks_of r \<Longrightarrow> tables_wf r \<Longrightarrow> tables_wf r'"
  by (cases "rc_slot r"; cases "rc_slot r'") (auto simp: view_of_def tables_wf_def dest: chunk_wf_cong)

lemma chunks_update [simp]:
  "chunks_of (c\<lparr>cr_chunk_auto_ack_pending := ms\<rparr>) = chunks_of c"
  "chunks_of (c\<lparr>cr_stall_watch := w\<rparr>) = chunks_of c" "chunks_of (c\<lparr>cr_last_adjust_at := i\<rparr>) = chunks_of c"
  "chunks_of (c\<lparr>cr_receiver_queue_size := n\<rparr>) = chunks_of c" "chunks_of (c\<lparr>cr_granted_permits := n\<rparr>) = chunks_of c"
  "chunks_of (c\<lparr>cr_permit_balance := n\<rparr>) = chunks_of c" "chunks_of (c\<lparr>cr_consumed_since_flow := n\<rparr>) = chunks_of c"
  "chunks_of (c\<lparr>cr_initial_grant_due := b\<rparr>) = chunks_of c" "chunks_of (c\<lparr>cr_receive_wakers := ws\<rparr>) = chunks_of c"
  "chunks_of (c\<lparr>cr_queue := q\<rparr>) = chunks_of c" "chunks_of (c\<lparr>cr_queued_bytes := n\<rparr>) = chunks_of c"
  "chunks_of (c\<lparr>cr_manual_flow_permits := n\<rparr>) = chunks_of c" "chunks_of (c\<lparr>cr_receive_latency_hist := h\<rparr>) = chunks_of c"
  "chunks_of (c\<lparr>cr_is_active := x\<rparr>) = chunks_of c" "chunks_of (c\<lparr>cr_active_changes := xs\<rparr>) = chunks_of c"
  "chunks_of (c\<lparr>cr_active_change_wakers := aw\<rparr>) = chunks_of c" "chunks_of (c\<lparr>cr_woken := ws'\<rparr>) = chunks_of c"
  by (simp_all add: chunks_of_def)

lemma chunks_flow [simp]: "chunks_of (fst (maybe_flow c)) = chunks_of c"
  by (simp add: maybe_flow_def clear_stall_watch_def Let_def)

lemma chunks_pop [simp]: "chunks_of (fst (cr_pop_message now c)) = chunks_of c"
  by (simp add: cr_pop_message_def Let_def split: list.split)

lemma chunks_adjust: "adjust_tick now c = Some (c', flow) \<Longrightarrow> chunks_of c' = chunks_of c"
  by (auto simp: adjust_tick_def adjust_receiver_queue_def arm_adjust_clock_def clear_stall_watch_def Let_def
      split: option.splits if_splits)

lemma chunks_stall [simp]: "chunks_of (fst (poll_stall w now c)) = chunks_of c"
  by (simp add: poll_stall_def Let_def split: option.split)

lemma chunks_initial [simp]: "chunks_of (fst (initial_flow c)) = chunks_of c"
  by (simp add: initial_flow_def clear_stall_watch_def Let_def)

lemma chunks_clocks [simp]: "chunks_of (arm_stall_watch now c) = chunks_of c" "chunks_of (arm_adjust_clock now c) = chunks_of c"
  by (simp_all add: arm_stall_watch_def arm_adjust_clock_def)

lemma chunks_active [simp]: "chunks_of (record_active_change a c) = chunks_of c"
  by (simp add: record_active_change_def wake_active_change_waiters_def Let_def)

lemma tables_stage [simp]: "tables_wf (stage_flow f r) = tables_wf r" "tables_wf (rc_emit x r) = tables_wf r"
  by (simp_all add: tables_wf_def stage_flow_def rc_emit_def split: option.split)

lemma tables_set:
  assumes "tables_wf r" "slot_of h r = Some c" "chunks_of c' = chunks_of c" shows "tables_wf (r\<lparr>rc_slot := Some c'\<rparr>)"
  using tables_view [OF view_set [OF assms(2,3)] assms(1)] .

lemma tables_message:
  assumes wf: "tables_wf r" shows "tables_wf (on_message env cmd m be bdy now r)"
proof (cases "slot_of (cm_consumer_id cmd) r")
  case (Some c)
  then have c: "chunk_wf c" using wf by (auto simp: tables_wf_def dest: slot_ofD)
  have "chunk_wf (fst (maybe_flow (fst (deliver env cmd m be bdy now c))))"
    using chunk_wf_cong [OF chunks_flow] wf_deliver [OF c] by blast
  then have "tables_wf (r\<lparr>rc_slot := Some (fst (maybe_flow (fst (deliver env cmd m be bdy now c))))\<rparr>)" by (simp add: tables_wf_def)
  moreover have "tables_wf (r\<lparr>rc_slot := Some (record_marker_consumed c)\<rparr>)"
    using tables_set [OF wf Some] by (simp add: record_marker_consumed_def)
  ultimately show ?thesis using Some by (simp add: on_message_def Let_def split_beta)
qed (simp add: on_message_def wf)

lemma tables_pop: "tables_wf r \<Longrightarrow> tables_wf (fst (pop_message h now r))"
  by (auto simp: pop_message_def Let_def split_beta intro: tables_set split: option.split)

lemma tables_initial: "tables_wf r \<Longrightarrow> tables_wf (conn_initial_flow h now r)"
  by (auto simp: conn_initial_flow_def Let_def split_beta intro: tables_set split: option.split)

lemma tables_active:
  assumes "tables_wf r" shows "tables_wf (on_active_consumer_change h a now r)"
proof (cases "slot_of h r")
  case (Some c)
  have wf: "tables_wf (r\<lparr>rc_slot := Some (record_active_change a c)\<rparr>)" by (rule tables_set [OF assms Some]) simp
  show ?thesis unfolding on_active_consumer_change_def Some option.case Let_def
    using wf tables_initial [OF wf] by (cases a) simp_all
qed (simp add: on_active_consumer_change_def assms)

lemma sweep_wf:
  assumes "chunk_wf c" "sweep_consumer st now c = Some (c', out)" shows "chunk_wf c'"
proof -
  define c0 where "c0 = c\<lparr>cr_nack_tracker := fst (poll_tracker (\<lambda>t. nt_poll t now) (cr_nack_tracker c)),
         cr_unacked_tracker := fst (poll_tracker (\<lambda>t. ut_poll t now) (cr_unacked_tracker c)),
         cr_ack_tracker := fst (poll_tracker (\<lambda>t. at_poll t now) (cr_ack_tracker c))\<rparr>"
  define c1 where "c1 = (sweep_expired_chunks now c0)\<lparr>cr_chunk_auto_ack_pending := []\<rparr>"
  have "chunks_of c0 = chunks_of c" by (simp add: c0_def)
  then have "chunk_wf (sweep_expired_chunks now c0)" using assms(1) chunk_wf_cong wf_sweep_expired by blast
  moreover have "chunks_of c1 = chunks_of (sweep_expired_chunks now c0)" by (simp add: c1_def)
  ultimately have c1: "chunk_wf c1" using chunk_wf_cong by blast
  obtain c2 flow where a: "adjust_tick now c1 = Some (c2, flow)" and c': "chunks_of c' = chunks_of c2"
    using assms(2) unfolding sweep_consumer_def Let_def split_beta c0_def [symmetric] c1_def [symmetric]
    by (cases st) (auto split: option.splits)
  have "chunks_of c' = chunks_of c1" using chunks_adjust [OF a] c' by simp
  then show ?thesis using c1 chunk_wf_cong by blast
qed

lemma tables_timeout:
  assumes wf: "tables_wf r" and t: "handle_timeout st now r = Some r'" shows "tables_wf r'"
proof (cases "rc_slot r")
  case (Some c)
  obtain c' out where s: "sweep_consumer st now c = Some (c', out)"
    using t Some by (auto simp: handle_timeout_def split: option.splits)
  let ?r = "stage_flow (to_adjust_flow out) (fold (emit_redeliver_unacked (rc_handle r)) (to_redeliveries out) (r\<lparr>rc_slot := Some c'\<rparr>))"
  have "chunk_wf c'" using sweep_wf [OF _ s] wf Some by (simp add: tables_wf_def)
  then have "tables_wf (r\<lparr>rc_slot := Some c'\<rparr>)" by (simp add: tables_wf_def)
  then have "tables_wf ?r" unfolding tables_stage by (rule tables_view [OF view_redelivers])
  moreover have "view_of chunks_of r' = view_of chunks_of ?r"
    using t Some s by (auto simp: handle_timeout_def Let_def split: if_splits)
  ultimately show ?thesis by (rule tables_view [rotated])
qed (use t wf in \<open>simp add: handle_timeout_def\<close>)

lemma tables_step:
  assumes wf: "tables_wf r" and step: "recv_step env h ev r = Some r'" shows "tables_wf r'"
proof (cases ev)
  case (EvMessage cmd m be bdy now)
  then show ?thesis using tables_message [OF wf] step by auto
next
  case (EvPop now)
  then show ?thesis using tables_pop [OF wf] step by auto
next
  case (EvInitialFlow now)
  then show ?thesis using tables_initial [OF wf] step by auto
next
  case (EvActive a now)
  then show ?thesis using tables_active [OF wf] step by auto
next
  case (EvTimeout st now)
  then show ?thesis using tables_timeout [OF wf] step by simp
next
  case (EvPark k w)
  then have "r' = update_slot h (register_receive_waker k w) r" using step by simp
  then show ?thesis using tables_view [OF view_update wf] by (simp add: register_receive_waker_def)
next
  case (EvCancel k)
  then have "r' = update_slot h (cancel_receive_waker k) r" using step by simp
  then show ?thesis using tables_view [OF view_update wf] by (simp add: cancel_receive_waker_def)
qed (use step tables_view [OF tables.ack_view wf] tables_view [OF tables.grouped_view wf] tables_view [OF tables.settle_view wf]
      tables_view [OF tables.nack_view(1) wf] tables_view [OF tables.nack_view(2) wf]
    in \<open>auto simp: ack_grouped_individual_def ack_grouped_cumulative_def\<close>)

lemma tables_steps: "tables_wf r \<Longrightarrow> recv_steps env h evs r = Some r' \<Longrightarrow> tables_wf r'"
proof (induction evs arbitrary: r)
  case (Cons ev evs)
  then obtain r1 where "recv_step env h ev r = Some r1" "recv_steps env h evs r1 = Some r'" by (auto split: option.splits)
  then show ?case using Cons.IH tables_step [OF Cons.prems(1)] by blast
qed simp

section \<open>From the producer to the consumer\<close>

lemma chunk_slice_alt: "chunk_slice pl cs i = take cs (drop (i * cs) pl)"
  by (auto simp: chunk_slice_def Let_def min_def)

lemma slices_prefix: "concat (map (chunk_slice pl cs) [0..<i]) = take (i * cs) pl"
  by (induction i) (simp_all add: chunk_slice_alt take_add [symmetric] add.commute)

definition dispatch_frames :: "cons_env \<Rightarrow> instant \<Rightarrow> (command_message \<times> outbound_frame) list \<Rightarrow> consumer \<Rightarrow> consumer" where
  "dispatch_frames env now fs c =
     fold (\<lambda>(cmd, f) c. fst (deliver env cmd (of_metadata f) None (of_payload f) now c)) fs c"

text \<open>What the receive path needs besides the table.\<close>

definition receptive :: "nat \<Rightarrow> incoming_message list \<Rightarrow> consumer \<Rightarrow> bool" where
  "receptive bytes q c \<longleftrightarrow> chunk_wf c \<and> \<not> cr_closed c \<and> cr_pending_seek c = None \<and> cr_max_redeliver_count c = 0 \<and>
     cr_queue c = q \<and> cr_chunk_buffered_bytes c \<le> bytes"

text \<open>The first \<open>i\<close> chunks of a message of \<open>n\<close> have arrived.\<close>

definition arrived :: "string \<Rightarrow> bytes \<Rightarrow> nat \<Rightarrow> nat \<Rightarrow> nat \<Rightarrow> consumer \<Rightarrow> bool" where
  "arrived u pl cs n i c \<longleftrightarrow> (\<exists>b. hm_get (cr_chunk_reassembly c) u = Some b \<and> cb_expected_chunks b = int n \<and>
     cb_received_chunks b = int i \<and>
     (\<forall>j. hm_get (cb_payloads b) (int j) = (if j < i then Some (chunk_slice pl cs j) else None)))"

definition chunk_of :: "string \<Rightarrow> nat \<Rightarrow> nat \<Rightarrow> message_metadata \<Rightarrow> bool" where
  "chunk_of u n i m \<longleftrightarrow> mm_uuid m = Some u \<and> mm_num_chunks_from_msg m = Some (int n) \<and> mm_chunk_id m = Some (int i)"

lemma deliver_chunk_of:
  assumes "chunk_of u n i m" "1 < n" "i < n" "int n \<le> MAX_CHUNK_TOTAL" "\<not> cr_closed c" "cr_pending_seek c = None"
    "i = 0 \<or> hm_get (cr_chunk_reassembly c) u \<noteq> None"
  shows "fst (deliver env cmd m be bdy now c) = fst (after_store u (mid_from_pb (cm_message_id cmd)) now
     (store_chunk (new_buffer (mid_from_pb (cm_message_id cmd)) (unwrap_or 0 (cm_redelivery_count cmd)) m be (int n) now) u (int i) bdy c))"
  using assms by (auto simp: deliver_def chunk_of_def Let_def split_beta deliver_chunk_alt chunk_guard_def hm_contains_def)

lemma receptive_refund: "receptive bytes q (record_dispatch_unit (record_broker_permit_consumed c)) = receptive bytes q c"
proof -
  have "chunk_wf (record_dispatch_unit (record_broker_permit_consumed c)) = chunk_wf c" by (rule chunk_wf_cong) simp
  then show ?thesis by (simp add: receptive_def) (simp add: record_dispatch_unit_def record_broker_permit_consumed_def)
qed

lemma arrived_refund: "arrived u pl cs n i (record_dispatch_unit (record_broker_permit_consumed c)) = arrived u pl cs n i c"
  by (simp add: arrived_def record_dispatch_unit_def record_broker_permit_consumed_def)

lemma enrol_fields:
  assumes "chunk_wf c" "hm_get (cr_chunk_reassembly c) u = None"
  shows "cr_closed (enrol u nb c) = cr_closed c \<and> cr_pending_seek (enrol u nb c) = cr_pending_seek c \<and>
    cr_max_redeliver_count (enrol u nb c) = cr_max_redeliver_count c \<and> cr_queue (enrol u nb c) = cr_queue c \<and>
    cr_chunk_buffered_bytes (enrol u nb c) \<le> cr_chunk_buffered_bytes c"
  by (rule enrol_cases [OF assms, of nb]) (simp_all add: discard_buffer_def)

lemma receptive_put:
  assumes "chunk_wf (put_chunk u i bdy b c)" "\<not> cr_closed c" "cr_pending_seek c = None" "cr_max_redeliver_count c = 0"
    "cr_queue c = q" "cr_chunk_buffered_bytes c \<le> bytes"
  shows "receptive (bytes + length bdy) q (put_chunk u i bdy b c)"
proof -
  have "sat_add USIZE_MAX (cr_chunk_buffered_bytes c) (length bdy) \<le> bytes + length bdy"
    using assms(6) by (simp add: sat_add_def min_def)
  then show ?thesis using assms unfolding receptive_def by (simp add: put_chunk_def)
qed

lemma wf_stored:
  assumes "chunk_wf c" "fst (deliver env cmd m be bdy now c) = record_dispatch_unit (record_broker_permit_consumed c')"
  shows "chunk_wf c'"
proof -
  have "chunk_wf (record_dispatch_unit (record_broker_permit_consumed c')) = chunk_wf c'" by (rule chunk_wf_cong) simp
  then show ?thesis using wf_deliver [OF assms(1), of env cmd m be bdy now] assms(2) by simp
qed

lemma first_chunk:
  assumes r: "receptive bytes q c" and new: "hm_get (cr_chunk_reassembly c) u = None"
    and m: "chunk_of u n 0 m" and n: "1 < n" "int n \<le> MAX_CHUNK_TOTAL"
  shows "receptive (bytes + length (chunk_slice pl cs 0)) q (fst (deliver env cmd m be (chunk_slice pl cs 0) now c)) \<and>
    arrived u pl cs n 1 (fst (deliver env cmd m be (chunk_slice pl cs 0) now c))"
proof -
  define nb where "nb = new_buffer (mid_from_pb (cm_message_id cmd)) (unwrap_or 0 (cm_redelivery_count cmd)) m be (int n) now"
  let ?c = "put_chunk u 0 (chunk_slice pl cs 0) nb (enrol u nb c)"
  have wf: "chunk_wf c" using r by (simp add: receptive_def)
  have g: "hm_get (cr_chunk_reassembly ?c) u = Some (with_chunk 0 (chunk_slice pl cs 0) nb)"
    by (simp add: put_chunk_def with_chunk_def)
  have d: "fst (deliver env cmd m be (chunk_slice pl cs 0) now c) = record_dispatch_unit (record_broker_permit_consumed ?c)"
    using deliver_chunk_of [OF m n(1) _ n(2), of c env cmd be] r store_new [OF new wf, of nb] n g
    by (simp add: receptive_def nb_def new_buffer_def after_store_def with_chunk_def)
  have "receptive (bytes + length (chunk_slice pl cs 0)) q ?c"
    using enrol_fields [OF wf new, of nb] r by (intro receptive_put wf_stored [OF wf d]) (auto simp: receptive_def)
  moreover have "arrived u pl cs n 1 ?c"
    unfolding arrived_def g by (simp add: with_chunk_def nb_def new_buffer_def)
  ultimately show ?thesis unfolding d receptive_refund arrived_refund by blast
qed

lemma next_stored:
  assumes r: "receptive bytes q c" and a: "arrived u pl cs n i c" and size: "bytes + length bdy \<le> MAX_BUFFERED_CHUNK_BYTES"
    and m: "chunk_of u n i m" and n: "1 < n" "i < n" "int n \<le> MAX_CHUNK_TOTAL"
  obtains b where "hm_get (cr_chunk_reassembly c) u = Some b" "cb_expected_chunks b = int n" "cb_received_chunks b = int i"
    "\<forall>j. hm_get (cb_payloads b) (int j) = (if j < i then Some (chunk_slice pl cs j) else None)"
    "fst (deliver env cmd m be bdy now c) =
       fst (after_store u (mid_from_pb (cm_message_id cmd)) now (put_chunk u (int i) bdy b c, True))"
proof -
  obtain b where b: "hm_get (cr_chunk_reassembly c) u = Some b" "cb_expected_chunks b = int n" "cb_received_chunks b = int i"
    "\<forall>j. hm_get (cb_payloads b) (int j) = (if j < i then Some (chunk_slice pl cs j) else None)"
    using a by (auto simp: arrived_def)
  have "hm_get (cb_payloads b) (int i) = None" using b(4) by simp
  moreover have "sat_add USIZE_MAX (cr_chunk_buffered_bytes c) (length bdy) \<le> MAX_BUFFERED_CHUNK_BYTES"
    using r size by (auto simp: receptive_def sat_add_def min_def)
  ultimately have "store_chunk nb u (int i) bdy c = (put_chunk u (int i) bdy b c, True)" for nb
    using b(1) by (simp add: store_chunk_def hm_contains_def not_less)
  then have "fst (deliver env cmd m be bdy now c) =
       fst (after_store u (mid_from_pb (cm_message_id cmd)) now (put_chunk u (int i) bdy b c, True))"
    using deliver_chunk_of [OF m n, of c env cmd be bdy now] r b(1) by (simp add: receptive_def)
  then show ?thesis using b that by blast
qed

lemma next_chunk:
  assumes r: "receptive bytes q c" and a: "arrived u pl cs n i c" and size: "bytes + length (chunk_slice pl cs i) \<le> MAX_BUFFERED_CHUNK_BYTES"
    and m: "chunk_of u n i m" and n: "Suc i < n" "int n \<le> MAX_CHUNK_TOTAL"
  shows "receptive (bytes + length (chunk_slice pl cs i)) q (fst (deliver env cmd m be (chunk_slice pl cs i) now c)) \<and>
    arrived u pl cs n (Suc i) (fst (deliver env cmd m be (chunk_slice pl cs i) now c))"
proof -
  have wf: "chunk_wf c" using r by (simp add: receptive_def)
  obtain b where b: "cb_expected_chunks b = int n" "cb_received_chunks b = int i"
    "\<forall>j. hm_get (cb_payloads b) (int j) = (if j < i then Some (chunk_slice pl cs j) else None)"
    "fst (deliver env cmd m be (chunk_slice pl cs i) now c) =
       fst (after_store u (mid_from_pb (cm_message_id cmd)) now (put_chunk u (int i) (chunk_slice pl cs i) b c, True))"
    using next_stored [OF r a size m _ _ n(2), of env cmd be now] n(1) by auto
  let ?c = "put_chunk u (int i) (chunk_slice pl cs i) b c"
  have g: "hm_get (cr_chunk_reassembly ?c) u = Some (with_chunk (int i) (chunk_slice pl cs i) b)"
    by (simp add: put_chunk_def with_chunk_def)
  have d: "fst (deliver env cmd m be (chunk_slice pl cs i) now c) = record_dispatch_unit (record_broker_permit_consumed ?c)"
    unfolding b(4) after_store_def prod.case if_True g option.case using b(1,2) n(1) by (simp add: with_chunk_def)
  have "receptive (bytes + length (chunk_slice pl cs i)) q ?c"
    using r by (intro receptive_put wf_stored [OF wf d]) (auto simp: receptive_def)
  moreover have "arrived u pl cs n (Suc i) ?c"
    unfolding arrived_def g using b(1-3) by (auto simp: with_chunk_def less_Suc_eq)
  ultimately show ?thesis unfolding d receptive_refund arrived_refund by blast
qed

lemma last_chunk:
  assumes r: "receptive bytes q c" and a: "arrived u pl cs n i c" and size: "bytes + length (chunk_slice pl cs i) \<le> MAX_BUFFERED_CHUNK_BYTES"
    and m: "chunk_of u n i m" and n: "Suc i = n" "1 < n" "int n \<le> MAX_CHUNK_TOTAL"
  shows "\<exists>im. cr_queue (fst (deliver env cmd m be (chunk_slice pl cs i) now c)) = q @ [im] \<and> im_payload im = take (n * cs) pl \<and>
      im_message_id im = mid_from_pb (cm_message_id cmd) \<and>
      hm_get (cr_chunk_reassembly (fst (deliver env cmd m be (chunk_slice pl cs i) now c))) u = None"
proof -
  obtain b where b: "cb_expected_chunks b = int n" "cb_received_chunks b = int i"
    "\<forall>j. hm_get (cb_payloads b) (int j) = (if j < i then Some (chunk_slice pl cs j) else None)"
    "fst (deliver env cmd m be (chunk_slice pl cs i) now c) =
       fst (after_store u (mid_from_pb (cm_message_id cmd)) now (put_chunk u (int i) (chunk_slice pl cs i) b c, True))"
    using next_stored [OF r a size m n(2) _ n(3), of env cmd be now] n(1) by auto
  let ?c = "put_chunk u (int i) (chunk_slice pl cs i) b c" and ?b = "with_chunk (int i) (chunk_slice pl cs i) b"
    and ?mid = "mid_from_pb (cm_message_id cmd)"
  have g: "hm_get (cr_chunk_reassembly ?c) u = Some ?b" by (simp add: put_chunk_def with_chunk_def)
  have d: "fst (deliver env cmd m be (chunk_slice pl cs i) now c) = fst (complete_chunked u ?b ?mid now ?c)"
    unfolding b(4) after_store_def prod.case if_True g option.case using b(1,2) n(1) by (simp add: with_chunk_def)
  have "hm_get (cb_payloads ?b) (int j) = (if j < n then Some (chunk_slice pl cs j) else None)" for j
    using b(3) n(1) by (auto simp: with_chunk_def less_Suc_eq)
  then have "map (\<lambda>j. case hm_get (cb_payloads ?b) (int j) of Some x \<Rightarrow> x | None \<Rightarrow> []) [0..<n] = map (chunk_slice pl cs) [0..<n]" by simp
  moreover have "nat (cb_expected_chunks ?b) = n" using b(1) by (simp add: with_chunk_def)
  ultimately have asm: "assemble ?b = take (n * cs) pl"
    unfolding assemble_def by (simp only: slices_prefix)
  have q: "cr_queue ?c = q" "cr_max_redeliver_count ?c = 0" using r by (simp_all add: receptive_def put_chunk_def)
  have "cr_queue (forget_chunk_order u x) = cr_queue x" "cr_max_redeliver_count (forget_chunk_order u x) = cr_max_redeliver_count x" for x
    by (simp_all add: forget_chunk_order_def split: option.split)
  then have "\<exists>im. cr_queue (fst (complete_chunked u ?b ?mid now ?c)) = q @ [im] \<and> im_payload im = assemble ?b \<and> im_message_id im = ?mid"
    using q by (simp add: complete_chunked_def Let_def split_beta wake_receivers_def classify_and_queue_def record_dispatch_unit_def)
  moreover have "cr_chunk_reassembly (fst (complete_chunked u ?b ?mid now ?c)) = hm_remove u (cr_chunk_reassembly ?c)"
    using complete_chunks [of u ?b ?mid now ?c] by (simp add: chunks_of_def)
  ultimately show ?thesis unfolding d asm by auto
qed

lemma chunks_arrive:
  assumes r: "receptive bytes q c" and a: "arrived u pl cs n i c" and n: "i < n" "1 < n" "int n \<le> MAX_CHUNK_TOTAL"
    and size: "bytes + length (drop (i * cs) pl) \<le> MAX_BUFFERED_CHUNK_BYTES"
    and fs: "length fs = n - i" "\<forall>k < n - i. chunk_of u n (i + k) (of_metadata (snd (fs ! k))) \<and> of_payload (snd (fs ! k)) = chunk_slice pl cs (i + k)"
  shows "\<exists>im. cr_queue (dispatch_frames env now fs c) = q @ [im] \<and> im_payload im = take (n * cs) pl \<and>
      im_message_id im = mid_from_pb (cm_message_id (fst (last fs))) \<and> hm_get (cr_chunk_reassembly (dispatch_frames env now fs c)) u = None"
  using assms
proof (induction "n - i" arbitrary: i fs c bytes)
  case (Suc k)
  obtain cmd f fs' where f: "fs = (cmd, f) # fs'" using Suc(2,9) by (cases fs) auto
  have hd: "chunk_of u n i (of_metadata f)" "of_payload f = chunk_slice pl cs i" using Suc(2,10) f by (auto dest: spec [of _ 0])
  have split: "length (drop (i * cs) pl) = length (chunk_slice pl cs i) + length (drop (Suc i * cs) pl)"
    by (simp add: chunk_slice_alt min_def)
  have size: "bytes + length (chunk_slice pl cs i) \<le> MAX_BUFFERED_CHUNK_BYTES" using Suc(8) split by linarith
  let ?c = "fst (deliver env cmd (of_metadata f) None (chunk_slice pl cs i) now c)"
  have d: "dispatch_frames env now fs c = dispatch_frames env now fs' ?c" by (simp add: dispatch_frames_def f hd(2))
  show ?case
  proof (cases "Suc i = n")
    case True
    then have "fs' = []" using Suc(9) f by (cases fs') auto
    then show ?thesis using last_chunk [OF Suc(3,4) size hd(1) True assms(4,5), of env cmd None now]
      unfolding d by (simp add: f dispatch_frames_def)
  next
    case False
    then have i: "Suc i < n" using Suc(5) by simp
    have nxt: "receptive (bytes + length (chunk_slice pl cs i)) q ?c" "arrived u pl cs n (Suc i) ?c"
      using next_chunk [OF Suc(3,4) size hd(1) i assms(5), of env cmd None now] by auto
    have "fs' \<noteq> []" using Suc(9) f i by auto
    moreover have "\<forall>k < n - Suc i. chunk_of u n (Suc i + k) (of_metadata (snd (fs' ! k))) \<and> of_payload (snd (fs' ! k)) = chunk_slice pl cs (Suc i + k)"
    proof (intro allI impI)
      fix k assume "k < n - Suc i"
      then show "chunk_of u n (Suc i + k) (of_metadata (snd (fs' ! k))) \<and> of_payload (snd (fs' ! k)) = chunk_slice pl cs (Suc i + k)"
        using Suc(10) [rule_format, of "Suc k"] f by simp
    qed
    ultimately show ?thesis using Suc(1) [of "Suc i", OF _ nxt i assms(4,5), of fs'] Suc(2,8,9) split
      unfolding d by (simp add: f)
  qed
qed simp

lemma total_chunks_cover:
  assumes "compute_total_chunks len cs = int n" "1 < n" "int n \<le> MAX_CHUNK_TOTAL" shows "len \<le> n * cs"
proof -
  have cs: "0 < cs" using assms(1,2) by (auto simp: compute_total_chunks_def split: if_splits)
  have "n = max (div_ceil len cs) 1"
    using assms cs by (auto simp: compute_total_chunks_def i32_try_from_def MAX_CHUNK_TOTAL_def split: if_splits)
  then have "n = div_ceil len cs" using assms(2) by (auto simp: max_def split: if_splits)
  then show ?thesis using div_ceil_mult [OF cs, of len] by simp
qed

lemma chunk_frame_of:
  "chunk_of uuid n i (of_metadata (chunk_frame p msg (chunk_metadata p msg uuid (int n) seq t) cs seq i)) \<and>
   of_payload (chunk_frame p msg (chunk_metadata p msg uuid (int n) seq t) cs seq i) = chunk_slice (om_payload msg) cs i"
  by (simp add: chunk_of_def chunk_frame_def chunk_metadata_def Let_def stamp_txn_def split: option.split)

lemma emitted_chunks:
  "pr_outbound (fst (emit_chunked p uuid msg rv t now)) = pr_outbound p @
     map (chunk_frame p msg (chunk_metadata p msg uuid (compute_total_chunks (length (om_payload msg)) (max_chunk_payload p))
       (pr_next_sequence_id p) t) (max_chunk_payload p) (pr_next_sequence_id p))
     [0..<nat (compute_total_chunks (length (om_payload msg)) (max_chunk_payload p))]"
  by (simp add: emit_chunked_def Let_def push_pending_def)

section \<open>Properties\<close>

text \<open>
  C11. Whatever the broker sends, in whatever order and mixed with pops, acks, negative acks and timers,
  the table of incomplete chunked messages stays well formed: the queue of uuids lists exactly the
  keys of the table, each message has one payload per chunk counted and still misses one, none has
  more chunks than the limit, and there are no more messages than the configured number.
\<close>

theorem chunk_tables_wf:
  assumes "cr_chunk_reassembly c0 = []" and "cr_chunk_reassembly_order c0 = []"
    and "recv_steps env h evs (rc_init c0) = Some r" and "rc_slot r = Some c"
  shows "chunk_wf c"
proof -
  have "tables_wf (rc_init c0)" using assms(1,2) by (simp add: tables_wf_def rc_init_def chunk_wf_def)
  then show ?thesis using tables_steps [OF _ assms(3)] assms(4) by (simp add: tables_wf_def)
qed

text \<open>
  C10. A payload that a producer splits into chunks arrives whole. If the chunks of one \<open>emit_chunked\<close> reach a
  consumer in order, within the limits on chunks and buffered bytes, exactly one message is queued; it
  carries the payload the producer was given and the id of the last chunk, and nothing of it is left in
  the table.
\<close>

theorem chunked_roundtrip:
  assumes n: "compute_total_chunks (length (om_payload msg)) (max_chunk_payload p) = int n" "1 < n" "int n \<le> MAX_CHUNK_TOTAL"
    and frames: "pr_outbound (fst (emit_chunked p uuid msg rv t now)) = pr_outbound p @ frames" and cmds: "length cmds = n"
    and wf: "chunk_wf c" "hm_get (cr_chunk_reassembly c) uuid = None" "\<not> cr_closed c" "cr_pending_seek c = None"
      "cr_max_redeliver_count c = 0" "cr_chunk_buffered_bytes c + length (om_payload msg) \<le> MAX_BUFFERED_CHUNK_BYTES"
  shows "\<exists>im. cr_queue (dispatch_frames env now' (zip cmds frames) c) = cr_queue c @ [im] \<and> im_payload im = om_payload msg \<and>
    im_message_id im = mid_from_pb (cm_message_id (last cmds)) \<and>
    hm_get (cr_chunk_reassembly (dispatch_frames env now' (zip cmds frames) c)) uuid = None"
proof -
  let ?pl = "om_payload msg" and ?cs = "max_chunk_payload p" and ?seq = "pr_next_sequence_id p"
  define fr where "fr = chunk_frame p msg (chunk_metadata p msg uuid (int n) ?seq t) ?cs ?seq"
  have fs: "frames = map fr [0..<n]" using frames unfolding emitted_chunks n(1) fr_def by simp
  have fr: "chunk_of uuid n i (of_metadata (fr i))" "of_payload (fr i) = chunk_slice ?pl ?cs i" for i
    unfolding fr_def using chunk_frame_of by blast+
  obtain cmd cmds' where c0: "cmds = cmd # cmds'" "cmds' \<noteq> []" using cmds n(2) by (cases cmds; cases "tl cmds") auto
  have z: "zip cmds frames = (cmd, fr 0) # zip cmds' (map fr [1..<n])"
    using n(2) by (simp add: fs c0(1) upt_conv_Cons)
  let ?c = "fst (deliver env cmd (of_metadata (fr 0)) None (chunk_slice ?pl ?cs 0) now' c)"
  have "receptive (cr_chunk_buffered_bytes c) (cr_queue c) c" using wf by (simp add: receptive_def)
  from first_chunk [OF this wf(2) fr(1) n(2,3), of ?pl ?cs env cmd None now']
  have f: "receptive (cr_chunk_buffered_bytes c + length (chunk_slice ?pl ?cs 0)) (cr_queue c) ?c" "arrived uuid ?pl ?cs n 1 ?c" by auto
  have "\<exists>im. cr_queue (dispatch_frames env now' (zip cmds' (map fr [1..<n])) ?c) = cr_queue c @ [im] \<and> im_payload im = take (n * ?cs) ?pl \<and>
      im_message_id im = mid_from_pb (cm_message_id (fst (last (zip cmds' (map fr [1..<n]))))) \<and>
      hm_get (cr_chunk_reassembly (dispatch_frames env now' (zip cmds' (map fr [1..<n])) ?c)) uuid = None"
    using n cmds wf(6) c0 fr by (intro chunks_arrive [OF f]) (auto simp: chunk_slice_alt)
  moreover have "fst (last (zip cmds' (map fr [1..<n]))) = last cmds" using c0 cmds n(2) by (simp add: last_zip)
  moreover have "take (n * ?cs) ?pl = ?pl" using total_chunks_cover [OF n] by simp
  ultimately show ?thesis by (simp add: z dispatch_frames_def fr(2))
qed

section \<open>Examples\<close>

definition chunk1 :: message_metadata where "chunk1 = chunk0\<lparr>mm_chunk_id := Some 0\<rparr>"

definition msg0 :: outgoing_message where
  "msg0 = \<lparr>om_payload = [1, 2, 3, 4, 5], om_metadata = default_metadata, om_uncompressed_size = 5, om_num_messages = 1,
     om_txn_id = None, om_source_message_id = None\<rparr>"

lemma fresh_consumer:
  "receptive 0 [] (cr_new 7 4)" "hm_get (cr_chunk_reassembly (cr_new 7 4)) u = None" "cr_handle (cr_new 7 4) = 7"
  "cr_chunk_reassembly (cr_new 7 4) = []" "cr_chunk_reassembly_order (cr_new 7 4) = []"
  by (simp_all add: cr_new_def with_policy_def receptive_def chunk_wf_def)

lemma slot_stage: "rc_slot (stage_flow f r) = rc_slot r"
  by (simp add: stage_flow_def rc_emit_def split: option.split)

theorem chunk_tables_wf_witness:
  "\<exists>r c. recv_steps env0 7 [EvMessage cmd0 chunk1 None [1, 2] 5] (rc_init (cr_new 7 4)) = Some r \<and> rc_slot r = Some c \<and>
     hm_get (cr_chunk_reassembly c) ''u'' \<noteq> None \<and> chunk_wf c"
proof -
  let ?r = "on_message env0 cmd0 chunk1 None [1, 2] 5 (rc_init (cr_new 7 4))"
  let ?d = "fst (deliver env0 cmd0 chunk1 None [1, 2] 5 (cr_new 7 4))"
  have r: "recv_steps env0 7 [EvMessage cmd0 chunk1 None [1, 2] 5] (rc_init (cr_new 7 4)) = Some ?r" by simp
  have m: "mm_marker_type chunk1 = None" "cm_consumer_id cmd0 = 7" "chunk_of ''u'' 3 0 chunk1"
    by (simp_all add: chunk1_def chunk0_def default_metadata_def cmd0_def chunk_of_def)
  have c: "rc_slot ?r = Some (fst (maybe_flow ?d))"
    by (simp add: on_message_def slot_of_def rc_init_def fresh_consumer(3) m Let_def split_beta slot_stage)
  have "arrived ''u'' [1, 2] 2 3 1 ?d"
    using first_chunk [OF fresh_consumer(1,2) m(3), of "[1, 2]" 2 env0 cmd0 None 5]
    by (simp add: chunk_slice_alt MAX_CHUNK_TOTAL_def)
  then have "hm_get (cr_chunk_reassembly (fst (maybe_flow ?d))) ''u'' \<noteq> None"
    using chunks_flow [of ?d] by (auto simp: arrived_def chunks_of_def)
  then show ?thesis using r c chunk_tables_wf [OF fresh_consumer(4,5) r c] by blast
qed

theorem chunked_roundtrip_witness:
  "\<exists>im. cr_queue (dispatch_frames env0 9 (zip [cmd0, cmd0, cmd0]
       (pr_outbound (fst (emit_chunked (pr_new 3 ''t'' CkNone 2) ''u'' msg0 \<lparr>rv_counted = False, rv_bytes = 0\<rparr> 5 6)))) (cr_new 7 4)) = [im] \<and>
     im_payload im = [1, 2, 3, 4, 5]"
proof -
  let ?fs = "pr_outbound (fst (emit_chunked (pr_new 3 ''t'' CkNone 2) ''u'' msg0 \<lparr>rv_counted = False, rv_bytes = 0\<rparr> 5 6))"
  have n: "compute_total_chunks (length (om_payload msg0)) (max_chunk_payload (pr_new 3 ''t'' CkNone 2)) = int 3"
    by (simp add: compute_total_chunks_def max_chunk_payload_def CHUNK_METADATA_RESERVATION_def pr_new_def msg0_def i32_try_from_def
      div_ceil_def unwrap_or_def)
  have c: "pr_outbound (pr_new 3 ''t'' CkNone 2) = []" "cr_queue (cr_new 7 4) = []" "chunk_wf (cr_new 7 4)"
    "hm_get (cr_chunk_reassembly (cr_new 7 4)) ''u'' = None" "\<not> cr_closed (cr_new 7 4)" "cr_pending_seek (cr_new 7 4) = None"
    "cr_max_redeliver_count (cr_new 7 4) = 0" "cr_chunk_buffered_bytes (cr_new 7 4) = 0"
    using fresh_consumer(1,2) by (simp_all add: pr_new_def receptive_def)
  have "\<exists>im. cr_queue (dispatch_frames env0 9 (zip [cmd0, cmd0, cmd0] ?fs) (cr_new 7 4)) = cr_queue (cr_new 7 4) @ [im] \<and>
      im_payload im = om_payload msg0 \<and> im_message_id im = mid_from_pb (cm_message_id (last [cmd0, cmd0, cmd0])) \<and>
      hm_get (cr_chunk_reassembly (dispatch_frames env0 9 (zip [cmd0, cmd0, cmd0] ?fs) (cr_new 7 4))) ''u'' = None"
    by (rule chunked_roundtrip [OF n]) (use c in \<open>simp_all add: MAX_CHUNK_TOTAL_def MAX_BUFFERED_CHUNK_BYTES_def msg0_def\<close>)
  then show ?thesis by (auto simp: c(2) msg0_def)
qed

end
