(* ===== verification/Anti_Thrash.thy ===== *)
theory Anti_Thrash
  imports Clock
begin

text \<open>
  The reconnect anti-thrash detector, \<open>crates/magnetar-proto/src/anti_thrash.rs\<close>: a ring of the
  latest re-attaches, each paired with the transport drop that followed it, and a cooldown that is
  armed when enough of them in a row were dropped at once.
\<close>

datatype reattach_kind = ReAttachOk | TcpDropAfterReAttach

datatype reattach_handle = HProducer nat | HConsumer nat

record attach_outcome =
  attached_at :: instant
  dropped_at :: "instant option"
  ao_handle :: reattach_handle

definition drop_delta :: "attach_outcome \<Rightarrow> duration option" where
  "drop_delta e = map_option (\<lambda>d. saturating_duration_since d (attached_at e)) (dropped_at e)"

record anti_thrash_threshold =
  successful_attaches :: nat
  th_window :: duration
  drop_within :: duration

definition th_recommended :: anti_thrash_threshold where
  "th_recommended = \<lparr>successful_attaches = 5, th_window = from_secs 2, drop_within = from_millis 50\<rparr>"

datatype disposition = Normal | Cooldown instant

record anti_thrash =
  th_threshold :: "anti_thrash_threshold option"
  th_cooldown :: duration
  th_ring :: "attach_outcome list"
  th_cooldown_until :: "instant option"
  th_pending_first_op :: bool

definition th_disabled :: anti_thrash where
  "th_disabled = \<lparr>th_threshold = None, th_cooldown = from_secs 30, th_ring = [],
     th_cooldown_until = None, th_pending_first_op = False\<rparr>"

definition ring_cap :: "anti_thrash_threshold \<Rightarrow> nat" where
  "ring_cap th = max (sat_mul USIZE_MAX (successful_attaches th) 2) 2"

text \<open>\<open>while ring.len() > cap { ring.pop_front() }\<close>\<close>

function trim_ring :: "nat \<Rightarrow> 'a list \<Rightarrow> 'a list" where
  "trim_ring cap r = (if length r > cap then trim_ring cap (tl r) else r)"
  by pat_completeness auto
termination by (relation "measure (\<lambda>(cap, r). length r)") auto

declare trim_ring.simps [simp del]

definition th_set_threshold ::
    "anti_thrash \<Rightarrow> anti_thrash_threshold option \<Rightarrow> duration \<Rightarrow> anti_thrash" where
  "th_set_threshold s t cd =
     (let s = s\<lparr>th_threshold := t, th_cooldown := cd\<rparr> in
      case t of
        None \<Rightarrow> s\<lparr>th_ring := [], th_cooldown_until := None, th_pending_first_op := False\<rparr>
      | Some th \<Rightarrow> s\<lparr>th_ring := trim_ring (ring_cap th) (th_ring s)\<rparr>)"

definition last_reattach_at :: "anti_thrash \<Rightarrow> instant option" where
  "last_reattach_at s = (if th_ring s = [] then None else Some (attached_at (last (th_ring s))))"

text \<open>
  The loop of \<open>evaluate\<close> over the newest \<open>needed\<close> entries, newest first: \<open>None\<close> is its early
  return, otherwise the earliest attach, the latest drop and the count.
\<close>

fun scan_tail :: "duration \<Rightarrow> attach_outcome list \<Rightarrow> instant option \<Rightarrow> instant option \<Rightarrow> nat \<Rightarrow>
    (instant option \<times> instant option \<times> nat) option" where
  "scan_tail within [] earliest latest count = Some (earliest, latest, count)"
| "scan_tail within (e # es) earliest latest count =
     (case dropped_at e of
        None \<Rightarrow> None
      | Some dropped \<Rightarrow>
          if saturating_duration_since dropped (attached_at e) > within then None
          else scan_tail within es
            (Some (case earliest of Some x \<Rightarrow> if x < attached_at e then x else attached_at e
                   | None \<Rightarrow> attached_at e))
            (Some (case latest of Some l \<Rightarrow> if l > dropped then l else dropped | None \<Rightarrow> dropped))
            (count + 1))"

definition th_evaluate :: "anti_thrash \<Rightarrow> instant \<Rightarrow> anti_thrash" where
  "th_evaluate s now =
     (case th_threshold s of
        None \<Rightarrow> s
      | Some th \<Rightarrow>
          if (case th_cooldown_until s of Some u \<Rightarrow> u > now | None \<Rightarrow> False) then s
          else let needed = successful_attaches th in
            if length (th_ring s) < needed then s
            else case scan_tail (drop_within th) (take needed (rev (th_ring s))) None None 0 of
                None \<Rightarrow> s
              | Some (earliest, latest, count) \<Rightarrow>
                  if count < needed then s
                  else case (earliest, latest) of
                      (Some e, Some l) \<Rightarrow>
                        if saturating_duration_since l e > th_window th then s
                        else s\<lparr>th_cooldown_until := Some (deadline_with_clamp now (th_cooldown s))\<rparr>
                    | _ \<Rightarrow> s)"

text \<open>
  The pairing loop of \<open>record\<close>, newest first: the newest entry without a drop takes this one if it
  is close enough; \<open>None\<close> when nothing was paired.
\<close>

fun pair_drop :: "instant \<Rightarrow> duration \<Rightarrow> attach_outcome list \<Rightarrow> attach_outcome list option" where
  "pair_drop now within [] = None"
| "pair_drop now within (e # es) =
     (if dropped_at e = None
      then if saturating_duration_since now (attached_at e) \<le> within
           then Some (e\<lparr>dropped_at := Some now\<rparr> # es) else None
      else map_option ((#) e) (pair_drop now within es))"

definition th_record :: "anti_thrash \<Rightarrow> instant \<Rightarrow> reattach_kind \<Rightarrow> reattach_handle \<Rightarrow> anti_thrash" where
  "th_record s now kind h =
     (case th_threshold s of
        None \<Rightarrow> s
      | Some th \<Rightarrow>
          (case kind of
             ReAttachOk \<Rightarrow>
               s\<lparr>th_ring := trim_ring (ring_cap th)
                    (th_ring s @ [\<lparr>attached_at = now, dropped_at = None, ao_handle = h\<rparr>]),
                 th_pending_first_op := True\<rparr>
           | TcpDropAfterReAttach \<Rightarrow>
               (case pair_drop now (drop_within th) (rev (th_ring s)) of
                  None \<Rightarrow> s
                | Some r \<Rightarrow> th_evaluate (s\<lparr>th_ring := rev r, th_pending_first_op := False\<rparr>) now)))"

definition record_first_op_success :: "anti_thrash \<Rightarrow> anti_thrash" where
  "record_first_op_success s =
     (if th_threshold s = None then s
      else if \<not> th_pending_first_op s \<and> th_cooldown_until s = None \<and> th_ring s = [] then s
      else s\<lparr>th_ring := [], th_cooldown_until := None, th_pending_first_op := False\<rparr>)"

definition clear_cooldown :: "anti_thrash \<Rightarrow> anti_thrash" where
  "clear_cooldown s = s\<lparr>th_cooldown_until := None\<rparr>"

definition th_tick :: "anti_thrash \<Rightarrow> instant \<Rightarrow> disposition" where
  "th_tick s now =
     (case th_cooldown_until s of Some until \<Rightarrow> if until > now then Cooldown until else Normal
      | None \<Rightarrow> Normal)"

lemmas th_defs [op_defs] = th_disabled_def th_set_threshold_def last_reattach_at_def th_evaluate_def
  th_record_def record_first_op_success_def clear_cooldown_def th_tick_def

section \<open>Invariant\<close>

text \<open>The ring is bounded by twice the threshold, and a disabled detector holds nothing.\<close>

definition th_inv :: "anti_thrash \<Rightarrow> bool" where
  "th_inv s \<longleftrightarrow> (case th_threshold s of
      None \<Rightarrow> th_ring s = [] \<and> th_cooldown_until s = None
    | Some th \<Rightarrow> length (th_ring s) \<le> ring_cap th)"

lemma trim_ring_eq: "trim_ring cap r = drop (length r - cap) r"
proof (induction cap r rule: trim_ring.induct)
  case (1 cap r)
  show ?case
  proof (cases "length r > cap")
    case True
    then have "trim_ring cap r = drop (length (tl r) - cap) (tl r)"
      using 1 by (subst trim_ring.simps) simp
    also have "\<dots> = drop (length r - cap) r"
      using True by (simp add: drop_Suc [symmetric] Suc_diff_Suc)
    finally show ?thesis .
  next
    case False
    then show ?thesis by (subst trim_ring.simps) simp
  qed
qed

lemma pair_drop_length: "pair_drop now w es = Some r \<Longrightarrow> length r = length es"
  by (induction es arbitrary: r) (auto split: if_splits)

lemma th_evaluate_keeps:
  "th_threshold (th_evaluate s now) = th_threshold s" "th_ring (th_evaluate s now) = th_ring s"
  "th_cooldown (th_evaluate s now) = th_cooldown s"
  by (auto simp: th_evaluate_def Let_def split: option.splits)

lemma th_inv_ops [inv_rules]:
  "th_inv th_disabled"
  "th_inv s \<Longrightarrow> th_inv (th_set_threshold s t cd)"
  "th_inv s \<Longrightarrow> th_inv (th_record s now kind h)"
  "th_inv s \<Longrightarrow> th_inv (record_first_op_success s)"
  "th_inv s \<Longrightarrow> th_inv (clear_cooldown s)"
  by (auto simp: th_inv_def th_disabled_def th_set_threshold_def th_record_def Let_def trim_ring_eq
      record_first_op_success_def clear_cooldown_def th_evaluate_keeps
      dest!: pair_drop_length split: option.splits reattach_kind.splits)

section \<open>When the cooldown is armed\<close>

text \<open>
  The documented condition: the newest \<open>successful_attaches\<close> re-attaches were each followed by a
  drop within \<open>drop_within\<close>, and all of them lie inside one window.
\<close>

definition thrashing :: "anti_thrash_threshold \<Rightarrow> attach_outcome list \<Rightarrow> bool" where
  "thrashing th ring \<longleftrightarrow>
     (let tail = take (successful_attaches th) (rev ring) in
      0 < successful_attaches th \<and> successful_attaches th \<le> length ring \<and>
      (\<forall>e\<in>set tail. \<exists>d. dropped_at e = Some d \<and> d - attached_at e \<le> drop_within th) \<and>
      Max (set (map (the \<circ> dropped_at) tail)) - Min (set (map attached_at tail)) \<le> th_window th)"

lemma scan_tail_spec:
  "scan_tail w es (Some a) (Some b) n =
     (if \<forall>e\<in>set es. \<exists>d. dropped_at e = Some d \<and> d - attached_at e \<le> w
      then Some (Some (Min (insert a (attached_at ` set es))),
                 Some (Max (insert b ((the \<circ> dropped_at) ` set es))), n + length es)
      else None)"
proof (induction es arbitrary: a b n)
  case Nil
  then show ?case by simp
next
  case (Cons e es)
  have mn: "Min (insert (if a < x then a else x) A) = Min (insert a (insert x A))" if "finite A" for x and A :: "nat set"
    using that by (cases "A = {}") (auto simp: min_def)
  have mx: "Max (insert (if b > x then b else x) A) = Max (insert b (insert x A))" if "finite A" for x and A :: "nat set"
    using that by (cases "A = {}") (auto simp: max_def)
  show ?case
    by (auto simp: Cons.IH saturating_duration_since_def mn mx split: option.splits)
qed

lemma scan_tail_start:
  "es \<noteq> [] \<Longrightarrow> scan_tail w es None None 0 =
     (if \<forall>e\<in>set es. \<exists>d. dropped_at e = Some d \<and> d - attached_at e \<le> w
      then Some (Some (Min (set (map attached_at es))), Some (Max (set (map (the \<circ> dropped_at) es))), length es)
      else None)"
  by (cases es) (auto simp: scan_tail_spec saturating_duration_since_def split: option.splits)

lemma th_evaluate_scan_None:
  assumes "th_threshold s = Some th"
    and "scan_tail (drop_within th) (take (successful_attaches th) (rev (th_ring s))) None None 0 = None"
  shows "th_evaluate s now = s"
  using assms by (simp add: th_evaluate_def Let_def)

lemma th_evaluate_scan_Some:
  assumes "th_threshold s = Some th" and "successful_attaches th \<le> length (th_ring s)"
    and "scan_tail (drop_within th) (take (successful_attaches th) (rev (th_ring s))) None None 0 =
           Some (Some e, Some l, successful_attaches th)"
  shows "th_evaluate s now =
    (if th_tick s now = Normal \<and> l - e \<le> th_window th
     then s\<lparr>th_cooldown_until := Some (deadline_with_clamp now (th_cooldown s))\<rparr> else s)"
  using assms by (simp add: th_evaluate_def th_tick_def saturating_duration_since_def split: option.split)

lemma th_evaluate_spec:
  assumes "th_threshold s = Some th"
  shows "th_evaluate s now =
    (if th_tick s now = Normal \<and> thrashing th (th_ring s)
     then s\<lparr>th_cooldown_until := Some (deadline_with_clamp now (th_cooldown s))\<rparr> else s)"
proof (cases "successful_attaches th = 0 \<or> length (th_ring s) < successful_attaches th")
  case True
  then have "\<not> thrashing th (th_ring s)"
    unfolding thrashing_def Let_def by linarith
  moreover have "th_evaluate s now = s"
    using assms True by (auto simp: th_evaluate_def)
  ultimately show ?thesis by (simp only: simp_thms if_False)
next
  case False
  let ?t = "take (successful_attaches th) (rev (th_ring s))"
  have ne: "?t \<noteq> []" "length ?t = successful_attaches th" using False by auto
  have pos: "0 < successful_attaches th" "successful_attaches th \<le> length (th_ring s)" using False by auto
  let ?good = "\<forall>e\<in>set ?t. \<exists>d. dropped_at e = Some d \<and> d - attached_at e \<le> drop_within th"
  note scan = scan_tail_start [OF ne(1), of "drop_within th", unfolded ne(2)]
  have thr: "thrashing th (th_ring s) \<longleftrightarrow> ?good \<and>
      Max (set (map (the \<circ> dropped_at) ?t)) - Min (set (map attached_at ?t)) \<le> th_window th"
    unfolding thrashing_def Let_def by (simp only: pos simp_thms)
  show ?thesis
  proof (cases ?good)
    case True
    have "thrashing th (th_ring s) \<longleftrightarrow>
        Max (set (map (the \<circ> dropped_at) ?t)) - Min (set (map attached_at ?t)) \<le> th_window th"
      unfolding thr by (rule iffI) (erule conjunct2, rule conjI [OF True])
    then show ?thesis
      unfolding th_evaluate_scan_Some [OF assms pos(2) trans [OF scan if_P [OF True]]]
      by (simp only:)
  next
    case bad: False
    have "\<not> thrashing th (th_ring s)"
      unfolding thr by (rule contrapos_nn [OF bad]) (erule conjunct1)
    then show ?thesis
      unfolding th_evaluate_scan_None [OF assms trans [OF scan if_not_P [OF bad]]]
      by (simp only: simp_thms if_False)
  qed
qed

text \<open>
  C33. The detector arms its cooldown exactly when the documented pattern is complete: with no
  cooldown running, a transport drop puts the detector into cooldown, until the configured time
  after the drop, if and only if the drop pairs with the newest open re-attach and the newest
  \<open>successful_attaches\<close> re-attaches were all dropped within \<open>drop_within\<close> and inside one window.
\<close>

theorem cooldown_armed_iff_thrashing:
  assumes "th_threshold s = Some th" and "th_tick s now = Normal" and "0 < th_cooldown s"
  shows "th_tick (th_record s now TcpDropAfterReAttach h) now =
    (case pair_drop now (drop_within th) (rev (th_ring s)) of
       Some r \<Rightarrow> if thrashing th (rev r) then Cooldown (deadline_with_clamp now (th_cooldown s)) else Normal
     | None \<Rightarrow> Normal)"
proof (cases "pair_drop now (drop_within th) (rev (th_ring s))")
  case None
  then show ?thesis using assms by (simp add: th_record_def)
next
  case (Some r)
  let ?s = "s\<lparr>th_ring := rev r, th_pending_first_op := False\<rparr>"
  have "th_tick ?s now = Normal" using assms(2) by (simp add: th_tick_def)
  then show ?thesis
    using assms Some th_evaluate_spec [of ?s th now] deadline_gt_base [OF assms(3), of now]
    by (auto simp: th_record_def th_tick_def)
qed

section \<open>A reconnect storm\<close>

text \<open>Re-attaches at the first instants of the pairs, each followed by a drop at the second.\<close>

definition reattach_storm ::
    "reattach_handle \<Rightarrow> (instant \<times> instant) list \<Rightarrow> anti_thrash \<Rightarrow> anti_thrash" where
  "reattach_storm h ps s =
     fold (\<lambda>(a, d) s. th_record (th_record s a ReAttachOk h) d TcpDropAfterReAttach h) ps s"

abbreviation storm_ring :: "reattach_handle \<Rightarrow> (instant \<times> instant) list \<Rightarrow> attach_outcome list" where
  "storm_ring h ps \<equiv> map (\<lambda>(a, d). \<lparr>attached_at = a, dropped_at = Some d, ao_handle = h\<rparr>) ps"

lemma storm_step:
  assumes "th_threshold s = Some th" and "th_ring s = storm_ring h ps" and "th_cooldown_until s = None"
    and "Suc (length ps) \<le> successful_attaches th" "successful_attaches th \<le> U32_MAX"
    and "d - a \<le> drop_within th"
  shows "th_record (th_record s a ReAttachOk h) d TcpDropAfterReAttach h =
    th_evaluate (s\<lparr>th_ring := storm_ring h (ps @ [(a, d)]), th_pending_first_op := False\<rparr>) d"
proof -
  have "trim_ring (ring_cap th) (th_ring s @ [x]) = th_ring s @ [x]" for x
    using assms(2,4,5) by (simp add: trim_ring_eq ring_cap_def sat_mul_def)
  then show ?thesis
    using assms(1,2,6) by (simp add: th_record_def saturating_duration_since_def)
qed

lemma storm_state:
  assumes "th_threshold s = Some th" and "th_ring s = []" and "th_cooldown_until s = None"
    and "successful_attaches th \<le> U32_MAX" "\<forall>(a, d)\<in>set ps. d - a \<le> drop_within th"
    and "length ps < successful_attaches th"
  shows "th_ring (reattach_storm h ps s) = storm_ring h ps \<and>
    th_threshold (reattach_storm h ps s) = Some th \<and>
    th_cooldown (reattach_storm h ps s) = th_cooldown s \<and>
    th_cooldown_until (reattach_storm h ps s) = None"
  using assms(5,6)
proof (induction ps rule: rev_induct)
  case Nil
  then show ?case using assms by (simp add: reattach_storm_def)
next
  case (snoc p ps)
  obtain a d where p: "p = (a, d)" by (cases p)
  let ?s = "reattach_storm h ps s"
  have IH: "th_ring ?s = storm_ring h ps" "th_threshold ?s = Some th" "th_cooldown_until ?s = None"
      "th_cooldown ?s = th_cooldown s"
    using snoc by auto
  have step: "reattach_storm h (ps @ [p]) s =
      th_evaluate (?s\<lparr>th_ring := storm_ring h (ps @ [(a, d)]), th_pending_first_op := False\<rparr>) d"
    using storm_step [OF IH(2,1,3)] snoc.prems assms(4) by (simp add: reattach_storm_def p)
  have "\<not> thrashing th (storm_ring h (ps @ [(a, d)]))"
    using snoc.prems by (simp add: thrashing_def Let_def)
  then show ?case
    using IH by (simp add: step [unfolded p] p th_evaluate_spec)
qed

text \<open>
  A reconnect storm trips the detector and nothing shorter does: from a detector with a threshold
  of \<open>n\<close>, after \<open>n\<close> re-attaches that are each dropped within \<open>drop_within\<close>, all inside one window,
  the supervisor is told to cool down until the configured time after the last drop, while before
  the last pair no cooldown was armed.
\<close>

theorem reattach_storm_trips:
  assumes "th_threshold s = Some th" and "th_ring s = []" and "th_cooldown_until s = None"
    and "0 < th_cooldown s" and "successful_attaches th \<le> U32_MAX"
    and "successful_attaches th = Suc (length ps)"
    and "\<forall>(a, d)\<in>set (ps @ [(a0, d0)]). d - a \<le> drop_within th"
    and "Max (snd ` set (ps @ [(a0, d0)])) - Min (fst ` set (ps @ [(a0, d0)])) \<le> th_window th"
  shows "th_tick (reattach_storm h ps s) d0 = Normal \<and>
    th_tick (reattach_storm h (ps @ [(a0, d0)]) s) d0 = Cooldown (deadline_with_clamp d0 (th_cooldown s))"
proof -
  let ?s = "reattach_storm h ps s" and ?ps = "ps @ [(a0, d0)]"
  have st: "th_ring ?s = storm_ring h ps" "th_threshold ?s = Some th" "th_cooldown_until ?s = None"
      "th_cooldown ?s = th_cooldown s"
    using storm_state [OF assms(1-3,5), of ps h] assms(6,7) by auto
  have step: "reattach_storm h ?ps s =
      th_evaluate (?s\<lparr>th_ring := storm_ring h ?ps, th_pending_first_op := False\<rparr>) d0"
    using storm_step [OF st(2,1,3), of d0 a0] assms(5-7) by (simp add: reattach_storm_def)
  have "set (map attached_at (storm_ring h ?ps)) = fst ` set ?ps"
      "set (map (the \<circ> dropped_at) (storm_ring h ?ps)) = snd ` set ?ps"
    by force+
  then have "thrashing th (storm_ring h ?ps)"
    using assms(6-8) unfolding thrashing_def Let_def by (auto simp: image_image case_prod_beta)
  then show ?thesis
    using st deadline_gt_base [OF assms(4), of d0] by (simp add: step th_evaluate_spec th_tick_def)
qed

theorem cooldown_armed_iff_thrashing_witness:
  "let th = \<lparr>successful_attaches = 5, th_window = 100, drop_within = 10\<rparr>;
       s = th_record (th_set_threshold th_disabled (Some th) 70) 20 ReAttachOk (HProducer 3)
   in th_tick (th_record s 25 TcpDropAfterReAttach (HProducer 3)) 25 = Normal"
  using cooldown_armed_iff_thrashing [of
      "th_record (th_set_threshold th_disabled (Some \<lparr>successful_attaches = 5, th_window = 100, drop_within = 10\<rparr>) 70)
         20 ReAttachOk (HProducer 3)"
      "\<lparr>successful_attaches = 5, th_window = 100, drop_within = 10\<rparr>" 25 "HProducer 3"]
  by (simp add: th_defs trim_ring_eq ring_cap_def sat_mul_def saturating_duration_since_def thrashing_def)

end
