(* ===== verification/Supervisor.thy ===== *)
theory Supervisor
  imports Backoff_Policy Anti_Thrash
begin

text \<open>
  The reconnect supervisor: the policy gates of \<open>crates/magnetar-proto/src/supervisor.rs\<close> and the
  loop of \<open>crates/magnetar-runtime-tokio/src/driver.rs\<close> that uses them. One pass of that loop starts
  when a session ended and runs to the next dialled socket; what it observes (clock readings, the
  life of the socket, the results of the dials) is an explicit argument.
\<close>

section \<open>Policy\<close>

record supervisor_config =
  su_initial_backoff :: duration
  su_max_backoff :: duration
  su_mandatory_stop :: duration
  su_max_attempts :: "nat option"
  su_anti_thrash_threshold :: "anti_thrash_threshold option"
  su_drop_grace :: duration
  su_max_backoff_after_thrash :: duration

definition su_default :: supervisor_config where
  "su_default = \<lparr>su_initial_backoff = from_millis 100, su_max_backoff = from_secs 60,
     su_mandatory_stop = from_secs 3600, su_max_attempts = None, su_anti_thrash_threshold = None,
     su_drop_grace = from_millis 500, su_max_backoff_after_thrash = from_secs 30\<rparr>"

definition build_backoff :: "supervisor_config \<Rightarrow> 64 word \<Rightarrow> backoff" where
  "build_backoff c seed =
     bo_new (su_initial_backoff c) (su_max_backoff c) (su_mandatory_stop c) seed"

definition should_reset_backoff :: "supervisor_config \<Rightarrow> duration \<Rightarrow> bool" where
  "should_reset_backoff c socket_alive \<longleftrightarrow> socket_alive > su_drop_grace c"

definition should_give_up :: "supervisor_config \<Rightarrow> nat \<Rightarrow> bool" where
  "should_give_up c attempts = (case su_max_attempts c of None \<Rightarrow> False | Some mx \<Rightarrow> attempts > mx)"

section \<open>The loop\<close>

text \<open>
  The variables of the loop, with a trace of what it did: the delays it slept and the number of
  sockets it dialled.
\<close>

record supervisor =
  sv_backoff :: "backoff option"
  sv_attempts :: nat
  sv_thrash :: anti_thrash
  sv_sleeps :: "duration list"
  sv_dials :: nat

datatype sup_outcome = UserClosed | NoSupervisor | GaveUp | Waiting | Dialled | HandshakeError

text \<open>What one dial attempt sees: whether the user closed during the sleep, and the dial result.\<close>

record dial_obs =
  ob_closed :: bool
  ob_connected :: bool

text \<open>
  What the session before the pass told the anti-thrash detector: re-attached handles, and the
  first operation that succeeded.
\<close>

datatype session_event = Attached instant reattach_handle | FirstOpOk

definition session_event :: "session_event \<Rightarrow> anti_thrash \<Rightarrow> anti_thrash" where
  "session_event e t =
     (case e of Attached now h \<Rightarrow> th_record t now ReAttachOk h | FirstOpOk \<Rightarrow> record_first_op_success t)"

record pass_obs =
  ps_session :: "session_event list"
  ps_closed :: bool
  ps_config :: "supervisor_config option"
  ps_drop_now :: instant
  ps_tick_now :: instant
  ps_sleep_now :: instant
  ps_pending_rebuild :: bool
  ps_socket_alive :: duration
  ps_dials :: "dial_obs list"
  ps_handshake_ok :: bool

definition sv_init :: "anti_thrash \<Rightarrow> supervisor" where
  "sv_init th = \<lparr>sv_backoff = None, sv_attempts = 0, sv_thrash = th, sv_sleeps = [], sv_dials = 0\<rparr>"

text \<open>The inner loop: sleep, count, give up or dial, until a socket connects.\<close>

fun redial :: "supervisor_config \<Rightarrow> backoff \<Rightarrow> dial_obs list \<Rightarrow> supervisor \<Rightarrow>
    backoff \<times> supervisor \<times> sup_outcome" where
  "redial cfg b [] s = (b, s, Waiting)"
| "redial cfg b (ob # obs) s =
     (let (b, delay) = bo_next id b;
          s = s\<lparr>sv_sleeps := sv_sleeps s @ [delay], sv_attempts := sat_add U32_MAX (sv_attempts s) 1\<rparr>
      in if should_give_up cfg (sv_attempts s) then (b, s, GaveUp)
         else if ob_closed ob then (b, s, UserClosed)
         else let s = s\<lparr>sv_dials := sv_dials s + 1\<rparr> in
           if ob_connected ob then (b, s, Dialled) else redial cfg b obs s)"

text \<open>The attribution of the drop to a recent re-attach, and the cooldown sleep.\<close>

definition note_drop :: "supervisor_config \<Rightarrow> instant \<Rightarrow> supervisor \<Rightarrow> supervisor" where
  "note_drop cfg now s =
     (if su_anti_thrash_threshold cfg \<noteq> None \<and>
         (case last_reattach_at (sv_thrash s) of
            Some t \<Rightarrow> saturating_duration_since now t \<le> su_drop_grace cfg | None \<Rightarrow> False)
      then s\<lparr>sv_thrash := th_record (sv_thrash s) now TcpDropAfterReAttach (HProducer 0)\<rparr>
      else s)"

definition cool_down :: "instant \<Rightarrow> instant \<Rightarrow> supervisor \<Rightarrow> supervisor" where
  "cool_down tick_now now s =
     (case th_tick (sv_thrash s) tick_now of
        Normal \<Rightarrow> s
      | Cooldown until \<Rightarrow>
          let s = (if until > now
                   then s\<lparr>sv_sleeps := sv_sleeps s @ [saturating_duration_since until now]\<rparr> else s)
          in s\<lparr>sv_thrash := clear_cooldown (sv_thrash s)\<rparr>)"

definition supervise_pass :: "64 word \<Rightarrow> pass_obs \<Rightarrow> supervisor \<Rightarrow> supervisor \<times> sup_outcome" where
  "supervise_pass seed ob s =
     (let s = s\<lparr>sv_thrash := fold session_event (ps_session ob) (sv_thrash s)\<rparr> in
      if ps_closed ob then (s, UserClosed)
      else case ps_config ob of
        None \<Rightarrow> (s, NoSupervisor)
      | Some cfg \<Rightarrow>
          let s = note_drop cfg (ps_drop_now ob) s;
              s = cool_down (ps_tick_now ob) (ps_sleep_now ob) s;
              b = (case sv_backoff s of Some b \<Rightarrow> b | None \<Rightarrow> build_backoff cfg seed);
              (b, s) = (if \<not> ps_pending_rebuild ob \<and> should_reset_backoff cfg (ps_socket_alive ob)
                        then (bo_reset b, s\<lparr>sv_attempts := 0\<rparr>) else (b, s));
              (b, s, out) = redial cfg b (ps_dials ob) s;
              s = s\<lparr>sv_backoff := Some b\<rparr>
          in if out = Dialled \<and> \<not> ps_handshake_ok ob then (s, HandshakeError) else (s, out))"

fun supervise :: "64 word \<Rightarrow> pass_obs list \<Rightarrow> supervisor \<Rightarrow> supervisor \<times> sup_outcome" where
  "supervise seed [] s = (s, Dialled)"
| "supervise seed (ob # obs) s =
     (let (s, out) = supervise_pass seed ob s in if out = Dialled then supervise seed obs s else (s, out))"

lemmas su_defs [op_defs] = build_backoff_def should_reset_backoff_def should_give_up_def sv_init_def
  note_drop_def cool_down_def supervise_pass_def

section \<open>The dial budget\<close>

text \<open>The budget left under \<open>max_attempts = n\<close>.\<close>

abbreviation budget :: "nat \<Rightarrow> supervisor \<Rightarrow> nat" where
  "budget n s \<equiv> n - sv_attempts s"

lemma redial_budget:
  "su_max_attempts cfg = Some n \<Longrightarrow> n < U32_MAX \<Longrightarrow> sv_attempts s \<le> n \<Longrightarrow>
   redial cfg b obs s = (b', s', out) \<Longrightarrow>
     sv_dials s' + budget n s' \<le> sv_dials s + budget n s \<and> (out \<noteq> GaveUp \<longrightarrow> sv_attempts s' \<le> n)"
proof (induction obs arbitrary: b s)
  case Nil
  then show ?case by simp
next
  case (Cons ob obs)
  obtain b1 d where n: "bo_next id b = (b1, d)" by fastforce
  let ?s2 = "s\<lparr>sv_sleeps := sv_sleeps s @ [d], sv_attempts := Suc (sv_attempts s), sv_dials := sv_dials s + 1\<rparr>"
  show ?case
  proof (cases "Suc (sv_attempts s) \<le> n \<and> \<not> ob_closed ob \<and> \<not> ob_connected ob")
    case True
    have "redial cfg b1 obs ?s2 = (b', s', out)"
      using Cons.prems True by (simp add: n sat_add_def should_give_up_def)
    from Cons.IH [OF Cons.prems(1,2) _ this] True show ?thesis by auto
  next
    case False
    then show ?thesis
      using Cons.prems by (auto simp: n Let_def sat_add_def should_give_up_def split: if_splits)
  qed
qed

lemma note_drop_keeps [simp]:
  "sv_attempts (note_drop cfg now s) = sv_attempts s" "sv_dials (note_drop cfg now s) = sv_dials s"
  "sv_backoff (note_drop cfg now s) = sv_backoff s" "sv_sleeps (note_drop cfg now s) = sv_sleeps s"
  by (simp_all add: note_drop_def)

lemma cool_down_keeps [simp]:
  "sv_attempts (cool_down t now s) = sv_attempts s" "sv_dials (cool_down t now s) = sv_dials s"
  "sv_backoff (cool_down t now s) = sv_backoff s"
  by (simp_all add: cool_down_def Let_def split: disposition.split)

text \<open>A pass that the policy does not count as stable: neither budget nor schedule is reset.\<close>

definition unstable :: "supervisor_config \<Rightarrow> pass_obs \<Rightarrow> bool" where
  "unstable cfg ob \<longleftrightarrow> ps_config ob = Some cfg \<and>
     (ps_pending_rebuild ob \<or> ps_socket_alive ob \<le> su_drop_grace cfg)"

lemma supervise_pass_budget:
  assumes "su_max_attempts cfg = Some n" "n < U32_MAX" "sv_attempts s \<le> n" "unstable cfg ob"
    and "supervise_pass seed ob s = (s', out)"
  shows "sv_dials s' + budget n s' \<le> sv_dials s + budget n s \<and> (out = Dialled \<longrightarrow> sv_attempts s' \<le> n)"
proof (cases "ps_closed ob")
  case True
  then show ?thesis using assms by (auto simp: supervise_pass_def)
next
  case False
  define s0 where "s0 = cool_down (ps_tick_now ob) (ps_sleep_now ob)
      (note_drop cfg (ps_drop_now ob) (s\<lparr>sv_thrash := fold session_event (ps_session ob) (sv_thrash s)\<rparr>))"
  define b0 where "b0 = (case sv_backoff s of Some b \<Rightarrow> b | None \<Rightarrow> build_backoff cfg seed)"
  obtain b1 s1 out1 where r: "redial cfg b0 (ps_dials ob) s0 = (b1, s1, out1)" by (metis prod_cases3)
  have "supervise_pass seed ob s =
      (let (b, s, out) = redial cfg b0 (ps_dials ob) s0; s = s\<lparr>sv_backoff := Some b\<rparr>
       in if out = Dialled \<and> \<not> ps_handshake_ok ob then (s, HandshakeError) else (s, out))"
    using assms(4) False unfolding supervise_pass_def s0_def b0_def
    by (auto simp: Let_def unstable_def should_reset_backoff_def)
  then have "s' = s1\<lparr>sv_backoff := Some b1\<rparr> \<and> (out = Dialled \<longrightarrow> out1 = Dialled)"
    using assms(5) by (auto simp: r Let_def split: if_splits)
  moreover have "sv_attempts s0 = sv_attempts s" "sv_dials s0 = sv_dials s" by (simp_all add: s0_def)
  ultimately show ?thesis
    using redial_budget [OF assms(1,2) _ r] assms(3) by auto
qed

text \<open>
  C34. The reconnect budget holds: with \<open>max_attempts = n\<close>, as long as no session outlives the drop
  grace, the supervisor dials at most \<open>n\<close> sockets in all, however the failures are spread over
  dial failures and sessions that die at once, and over however many passes of the loop.
\<close>

theorem supervisor_dials_within_budget:
  assumes "su_max_attempts cfg = Some n" "n < U32_MAX" and "\<forall>ob\<in>set obs. unstable cfg ob"
  shows "sv_dials (fst (supervise seed obs (sv_init th))) \<le> n"
proof -
  have "sv_attempts s \<le> n \<Longrightarrow> sv_dials (fst (supervise seed obs s)) \<le> sv_dials s + budget n s" for s
    using assms(3)
  proof (induction obs arbitrary: s)
    case Nil
    then show ?case by simp
  next
    case (Cons ob obs)
    obtain s' out where p: "supervise_pass seed ob s = (s', out)" by fastforce
    note b = supervise_pass_budget [OF assms(1,2) Cons.prems(1) _ p]
    have "sv_dials (fst (supervise seed obs s')) \<le> sv_dials s' + budget n s'" if "out = Dialled"
      using Cons.IH Cons.prems b that by auto
    then show ?case using b Cons.prems(2) p by auto
  qed
  from this [of "sv_init th"] show ?thesis by (simp add: sv_init_def)
qed

theorem supervisor_dials_within_budget_witness:
  "let cfg = su_default\<lparr>su_max_attempts := Some 3\<rparr>;
       fail = \<lparr>ob_closed = False, ob_connected = False\<rparr>;
       ob = \<lparr>ps_session = [], ps_closed = False, ps_config = Some cfg, ps_drop_now = 5, ps_tick_now = 5,
             ps_sleep_now = 5, ps_pending_rebuild = False, ps_socket_alive = 7,
             ps_dials = [fail, \<lparr>ob_closed = False, ob_connected = True\<rparr>], ps_handshake_ok = True\<rparr>
   in sv_dials (fst (supervise 9 [ob, ob, ob] (sv_init th_disabled))) \<le> 3"
  unfolding Let_def
  by (rule supervisor_dials_within_budget [where cfg = "su_default\<lparr>su_max_attempts := Some 3\<rparr>"])
    (simp_all add: unstable_def su_default_def from_millis_def)

section \<open>Giving up\<close>

lemma redial_all_fail:
  "su_max_attempts cfg = Some n \<Longrightarrow> n < U32_MAX \<Longrightarrow> sv_attempts s \<le> n \<Longrightarrow> budget n s < length obs \<Longrightarrow>
   \<forall>ob\<in>set obs. \<not> ob_closed ob \<and> \<not> ob_connected ob \<Longrightarrow> bo_inv b \<Longrightarrow>
   \<exists>b' s' ds. redial cfg b obs s = (b', s', GaveUp) \<and> sv_dials s' = sv_dials s + budget n s \<and>
     sv_sleeps s' = sv_sleeps s @ ds \<and> length ds = Suc (budget n s) \<and> (\<forall>d\<in>set ds. d \<le> bo_max b)"
proof (induction obs arbitrary: b s)
  case Nil
  then show ?case by simp
next
  case (Cons ob obs)
  obtain b1 d where n: "bo_next id b = (b1, d)" by fastforce
  note c = bo_next_cases [OF Cons.prems(6) n]
  let ?s2 = "s\<lparr>sv_sleeps := sv_sleeps s @ [d], sv_attempts := Suc (sv_attempts s), sv_dials := sv_dials s + 1\<rparr>"
  show ?case
  proof (cases "sv_attempts s = n")
    case True
    have "redial cfg b (ob # obs) s =
        (b1, s\<lparr>sv_sleeps := sv_sleeps s @ [d], sv_attempts := Suc n\<rparr>, GaveUp)"
      using Cons.prems(1,2) by (simp add: n True sat_add_def should_give_up_def)
    then show ?thesis
    proof (intro exI conjI)
      show "sv_sleeps (s\<lparr>sv_sleeps := sv_sleeps s @ [d], sv_attempts := Suc n\<rparr>) = sv_sleeps s @ [d]" by simp
    qed (use c(4) True in auto)
  next
    case False
    have "sv_attempts ?s2 \<le> n" "budget n ?s2 < length obs" "\<forall>ob\<in>set obs. \<not> ob_closed ob \<and> \<not> ob_connected ob"
      using Cons.prems(3-5) False by auto
    from Cons.IH [OF Cons.prems(1,2) this c(7)]
    have "\<exists>b' s' ds. redial cfg b1 obs ?s2 = (b', s', GaveUp) \<and>
        sv_dials s' = sv_dials ?s2 + budget n ?s2 \<and> sv_sleeps s' = sv_sleeps ?s2 @ ds \<and>
        length ds = Suc (budget n ?s2) \<and> (\<forall>d\<in>set ds. d \<le> bo_max b1)" .
    then obtain b' s' ds where r: "redial cfg b1 obs ?s2 = (b', s', GaveUp)"
        "sv_dials s' = sv_dials ?s2 + budget n ?s2" "sv_sleeps s' = sv_sleeps ?s2 @ ds"
        "length ds = Suc (budget n ?s2)" "\<forall>d\<in>set ds. d \<le> bo_max b1" by auto
    show ?thesis
    proof (intro exI conjI)
      show "redial cfg b (ob # obs) s = (b', s', GaveUp)"
        using r(1) Cons.prems False by (simp add: n sat_add_def should_give_up_def)
      show "sv_sleeps s' = sv_sleeps s @ (d # ds)" using r(3) by simp
      show "\<forall>x\<in>set (d # ds). x \<le> bo_max b" using r(5) c(2,4) by simp
    qed (use r(2,4) False Cons.prems(3) in auto)
  qed
qed

text \<open>
  C35. The supervisor does give up: with \<open>max_attempts = n\<close> and a broker that never accepts a dial,
  the first pass ends with \<open>GaveUp\<close> after exactly \<open>n\<close> dials and \<open>n + 1\<close> sleeps, none longer than
  \<open>max_backoff\<close>. It does not wait for a further event.
\<close>

theorem supervisor_gives_up:
  assumes "su_max_attempts cfg = Some n" "n < U32_MAX" and "su_initial_backoff cfg \<le> su_max_backoff cfg"
    and "su_max_backoff cfg \<le> DURATION_MAX" and "su_anti_thrash_threshold cfg = None"
    and "\<not> ps_closed ob" "ps_config ob = Some cfg" "ps_session ob = []" "n < length (ps_dials ob)"
    and "\<forall>d\<in>set (ps_dials ob). \<not> ob_closed d \<and> \<not> ob_connected d"
  shows "\<exists>s'. supervise_pass seed ob (sv_init th_disabled) = (s', GaveUp) \<and> sv_dials s' = n \<and>
    length (sv_sleeps s') = n + 1 \<and> (\<forall>d\<in>set (sv_sleeps s'). d \<le> su_max_backoff cfg)"
proof -
  let ?b = "build_backoff cfg seed"
  have i: "bo_inv ?b" unfolding build_backoff_def by (rule bo_inv_new [OF assms(3,4)])
  have m: "bo_max ?b = su_max_backoff cfg" "bo_reset ?b = ?b"
    by (simp_all add: build_backoff_def bo_new_def bo_reset_def)
  obtain b' s' ds where r: "redial cfg ?b (ps_dials ob) (sv_init th_disabled) = (b', s', GaveUp)"
      "sv_dials s' = n" "sv_sleeps s' = ds" "length ds = Suc n" "\<forall>d\<in>set ds. d \<le> bo_max ?b"
    using redial_all_fail [OF assms(1,2), of "sv_init th_disabled" "ps_dials ob" ?b] assms(9,10) i
    by (auto simp: sv_init_def)
  have "(sv_init th_disabled)\<lparr>sv_thrash := th_disabled\<rparr> = sv_init th_disabled" by (simp add: sv_init_def)
  then have "supervise_pass seed ob (sv_init th_disabled) = (s'\<lparr>sv_backoff := Some b'\<rparr>, GaveUp)"
    using r(1) assms(5-8) m(2)
    by (auto simp: supervise_pass_def Let_def note_drop_def cool_down_def th_tick_def th_disabled_def sv_init_def)
  then show ?thesis using r m(1) by simp
qed

theorem supervisor_gives_up_witness:
  "let cfg = su_default\<lparr>su_max_attempts := Some 2\<rparr>; fail = \<lparr>ob_closed = False, ob_connected = False\<rparr>;
       ob = \<lparr>ps_session = [], ps_closed = False, ps_config = Some cfg, ps_drop_now = 5, ps_tick_now = 5,
             ps_sleep_now = 5, ps_pending_rebuild = False, ps_socket_alive = 7,
             ps_dials = [fail, fail, fail], ps_handshake_ok = True\<rparr>
   in \<exists>s'. supervise_pass 9 ob (sv_init th_disabled) = (s', GaveUp) \<and> sv_dials s' = 2 \<and>
      length (sv_sleeps s') = 2 + 1 \<and> (\<forall>d\<in>set (sv_sleeps s'). d \<le> su_max_backoff cfg)"
  unfolding Let_def
  by (rule supervisor_gives_up)
    (simp_all add: su_default_def from_millis_def from_secs_def DURATION_MAX_def)

end
