(* ===== verification/Send_Conn.thy ===== *)
theory Send_Conn
  imports Producer_Ops
begin

text \<open>
  The publish side of one connection, \<open>crates/magnetar-proto/src/conn.rs\<close>, for one producer: the
  producer's slot, the bucket of sends saved by a reset, the outcomes and wakers that the send
  futures use, the open requests in flight, and the frames handed to the socket. Observational
  events, logging and the tables of other requests are left out.
\<close>

section \<open>State\<close>

datatype op_outcome =
    SendReceiptOutcome nat message_id
  | SendErrorOutcome nat int string
  | TerminalOutcome string

text \<open>
  What happened to the send futures, in order. The code keeps no such log; it records the sequence
  ids returned by \<open>send_reserved\<close> and the calls to \<open>register_waker\<close>, \<open>unregister_waker\<close>,
  \<open>outcomes.insert\<close> and \<open>wake\<close> with the key they are made for.
\<close>

datatype send_event =
    Accepted nat
  | Registered nat waker
  | Unregistered nat
  | Resolved nat op_outcome
  | Woke nat waker

record send_conn =
  sc_slot :: "producer option"
  sc_snapshots :: "op_send list"
  sc_outcomes :: "(nat, op_outcome) hashmap"
  sc_wakers :: "(nat, waker) hashmap"
  sc_opens :: "nat list"
  sc_connected :: bool
  sc_wire :: "outbound_frame list"
  sc_log :: "send_event list"

definition SEND_TIMEOUT_CODE :: int where "SEND_TIMEOUT_CODE = -1"

definition SEND_TIMEOUT_MESSAGE :: string where "SEND_TIMEOUT_MESSAGE = ''send timeout''"

definition BATCH_RESET_ERROR_CODE :: int where "BATCH_RESET_ERROR_CODE = -1"

definition BATCH_RESET_ERROR_MESSAGE :: string where
  "BATCH_RESET_ERROR_MESSAGE = ''batched send cannot be replayed after connection reset''"

definition PRODUCER_CLOSED_REASON :: string where
  "PRODUCER_CLOSED_REASON = ''producer closed before the send was acknowledged''"

record create_producer_request =
  cp_topic :: string
  cp_producer_name :: "string option"
  cp_initial_sequence_id :: "nat option"
  cp_compression :: compression_kind
  cp_enable_batching :: bool
  cp_enable_chunking :: bool
  cp_max_batch_size_bytes :: nat
  cp_max_messages_in_batch :: nat
  cp_send_timeout :: "duration option"
  cp_batching_max_publish_delay :: "duration option"
  cp_access_mode :: int

text \<open>The slot \<open>create_producer\<close> installs.\<close>

definition create_slot :: "producer_handle \<Rightarrow> nat \<Rightarrow> nat \<Rightarrow> create_producer_request \<Rightarrow> producer" where
  "create_slot handle max_size reattach_epoch req =
     (let p = pr_new handle (cp_topic req) (cp_compression req) max_size;
          p = p\<lparr>pr_batching_enabled := cp_enable_batching req, pr_chunking_enabled := cp_enable_chunking req,
                pr_max_batch_size_bytes := cp_max_batch_size_bytes req,
                pr_max_messages_in_batch := cp_max_messages_in_batch req, pr_name := cp_producer_name req\<rparr>;
          p = (case cp_initial_sequence_id req of Some i \<Rightarrow> set_initial_sequence_id p i | None \<Rightarrow> p)
      in p\<lparr>pr_send_timeout := cp_send_timeout req,
           pr_batching_max_publish_delay := cp_batching_max_publish_delay req,
           pr_access_mode := cp_access_mode req, pr_epoch := reattach_epoch\<rparr>)"

text \<open>The connection after \<open>create_producer\<close>, with the id of the open request.\<close>

definition sc_init :: "producer \<Rightarrow> nat \<Rightarrow> send_conn" where
  "sc_init p request_id = \<lparr>sc_slot = Some (p\<lparr>pr_open_request_id := Some request_id\<rparr>), sc_snapshots = [], sc_outcomes = [], sc_wakers = [],
     sc_opens = [request_id], sc_connected = False, sc_wire = [], sc_log = []\<rparr>"

section \<open>Outcomes and wakers\<close>

definition sc_wake :: "nat \<Rightarrow> waker \<Rightarrow> send_conn \<Rightarrow> send_conn" where
  "sc_wake seq w c = c\<lparr>sc_log := sc_log c @ [Woke seq w]\<rparr>"

definition insert_outcome :: "nat \<Rightarrow> op_outcome \<Rightarrow> send_conn \<Rightarrow> send_conn" where
  "insert_outcome seq out c =
     c\<lparr>sc_outcomes := hm_insert seq out (sc_outcomes c), sc_log := sc_log c @ [Resolved seq out]\<rparr>"

text \<open>\<open>if let Some(w) = self.wakers.remove(&key) \<open>{\<close> w.wake(); \<open>}\<close>\<close>\<close>

definition wake_slab :: "nat \<Rightarrow> send_conn \<Rightarrow> send_conn" where
  "wake_slab seq c =
     (case hm_get (sc_wakers c) seq of
        Some w \<Rightarrow> sc_wake seq w (c\<lparr>sc_wakers := hm_remove seq (sc_wakers c)\<rparr>)
      | None \<Rightarrow> c)"

definition conn_register_waker :: "nat \<Rightarrow> waker \<Rightarrow> send_conn \<Rightarrow> send_conn" where
  "conn_register_waker seq w c =
     (let c = c\<lparr>sc_log := sc_log c @ [Registered seq w]\<rparr> in
      if hm_get (sc_outcomes c) seq \<noteq> None then sc_wake seq w c
      else case sc_slot c of
        Some p \<Rightarrow>
          (case register_waker p seq w of
             (p', True) \<Rightarrow> c\<lparr>sc_slot := Some p'\<rparr>
           | (p', False) \<Rightarrow> c\<lparr>sc_wakers := hm_insert seq w (sc_wakers c)\<rparr>)
      | None \<Rightarrow> c\<lparr>sc_wakers := hm_insert seq w (sc_wakers c)\<rparr>)"

definition conn_unregister_waker :: "nat \<Rightarrow> send_conn \<Rightarrow> send_conn" where
  "conn_unregister_waker seq c =
     c\<lparr>sc_wakers := hm_remove seq (sc_wakers c), sc_slot := map_option (\<lambda>p. clear_waker p seq) (sc_slot c),
       sc_log := sc_log c @ [Unregistered seq]\<rparr>"

definition take_outcome :: "nat \<Rightarrow> send_conn \<Rightarrow> send_conn \<times> op_outcome option" where
  "take_outcome seq c =
     (c\<lparr>sc_outcomes := hm_remove seq (sc_outcomes c)\<rparr>, hm_get (sc_outcomes c) seq)"

definition resolve_send_error :: "nat \<Rightarrow> int \<Rightarrow> string \<Rightarrow> waker option \<Rightarrow> send_conn \<Rightarrow> send_conn" where
  "resolve_send_error seq code msg w c =
     (let c = insert_outcome seq (SendErrorOutcome seq code msg) c;
          slab_waker = hm_get (sc_wakers c) seq;
          c = c\<lparr>sc_wakers := hm_remove seq (sc_wakers c)\<rparr>
      in case w of
           Some w \<Rightarrow> sc_wake seq w c
         | None \<Rightarrow> (case slab_waker of Some w \<Rightarrow> sc_wake seq w c | None \<Rightarrow> c))"

definition terminalize_drained_send :: "string \<Rightarrow> op_send \<Rightarrow> send_conn \<Rightarrow> send_conn" where
  "terminalize_drained_send reason op c =
     (let seq = op_sequence_id op;
          c = insert_outcome seq (TerminalOutcome reason) c;
          slab_waker = hm_get (sc_wakers c) seq;
          c = c\<lparr>sc_wakers := hm_remove seq (sc_wakers c)\<rparr>
      in case (case op_waker op of Some w \<Rightarrow> Some w | None \<Rightarrow> slab_waker) of
           Some w \<Rightarrow> sc_wake seq w c
         | None \<Rightarrow> c)"

definition terminalize_drained_sends :: "op_send list \<Rightarrow> string \<Rightarrow> send_conn \<Rightarrow> send_conn" where
  "terminalize_drained_sends drained reason c = fold (terminalize_drained_send reason) drained c"

definition terminalize_snapshot :: "string \<Rightarrow> op_send \<Rightarrow> send_conn \<Rightarrow> send_conn" where
  "terminalize_snapshot reason op c =
     (let seq = op_sequence_id op; c = insert_outcome seq (TerminalOutcome reason) c
      in case op_waker op of
           Some w \<Rightarrow> sc_wake seq w (c\<lparr>sc_wakers := hm_remove seq (sc_wakers c)\<rparr>)
         | None \<Rightarrow> wake_slab seq c)"

definition terminalize_snapshot_bucket :: "string \<Rightarrow> send_conn \<Rightarrow> send_conn" where
  "terminalize_snapshot_bucket reason c =
     fold (terminalize_snapshot reason) (sc_snapshots c) (c\<lparr>sc_snapshots := []\<rparr>)"

section \<open>Sending\<close>

text \<open>\<open>drain_producer_outbound\<close>: frames leave a slot only once the broker has acked the attachment.\<close>

function drain_slot :: "producer \<Rightarrow> producer \<times> outbound_frame list" where
  "drain_slot p =
     (if \<not> pr_broker_ready p then (p, [])
      else case next_outbound_frame p of
        (p', None) \<Rightarrow> (p', [])
      | (p', Some f) \<Rightarrow> let (q, fs) = drain_slot p' in (q, f # fs))"
  by pat_completeness auto
termination
  by (relation "measure (\<lambda>p. length (pr_outbound p))") (auto simp: next_outbound_frame_def split: list.splits)

definition drain_producer_outbound :: "send_conn \<Rightarrow> send_conn" where
  "drain_producer_outbound c =
     (if \<not> sc_connected c then c
      else case sc_slot c of
        None \<Rightarrow> c
      | Some p \<Rightarrow> (case drain_slot p of (p', fs) \<Rightarrow> c\<lparr>sc_slot := Some p', sc_wire := sc_wire c @ fs\<rparr>))"

datatype send_result = UnknownProducer | RejectedSend | SentAs nat

definition send_reserved ::
    "prod_env \<Rightarrow> string \<Rightarrow> outgoing_message \<Rightarrow> reservation \<Rightarrow> nat \<Rightarrow> instant \<Rightarrow> send_conn \<Rightarrow> send_conn \<times> send_result" where
  "send_reserved env uuid msg r publish_time now c =
     (case sc_slot c of
        None \<Rightarrow> (c, UnknownProducer)
      | Some p \<Rightarrow>
          (case queue_send_reserved env uuid p msg r publish_time now of
             (p, _, Inl e) \<Rightarrow> (c\<lparr>sc_slot := Some p\<rparr>, RejectedSend)
           | (p, _, Inr d) \<Rightarrow>
               let seq = nat (max (pr_last_sequence_id_pushed p) 0)
               in (drain_producer_outbound (c\<lparr>sc_slot := Some p, sc_log := sc_log c @ [Accepted seq]\<rparr>),
                   SentAs seq)))"

definition flush_producer :: "prod_env \<Rightarrow> nat \<Rightarrow> instant \<Rightarrow> send_conn \<Rightarrow> send_conn" where
  "flush_producer env publish_time now c =
     drain_producer_outbound
       (c\<lparr>sc_slot := map_option (\<lambda>p. fst (flush_batch env p publish_time now)) (sc_slot c)\<rparr>)"

section \<open>Responses of the broker\<close>

definition resolve_receipt :: "op_send \<times> message_id \<Rightarrow> send_conn \<Rightarrow> send_conn" where
  "resolve_receipt = (\<lambda>(op, mid) c.
     let seq = op_sequence_id op; c = insert_outcome seq (SendReceiptOutcome seq mid) c
     in case op_waker op of Some w \<Rightarrow> sc_wake seq w c | None \<Rightarrow> wake_slab seq c)"

definition on_send_receipt :: "send_receipt \<Rightarrow> instant \<Rightarrow> send_conn \<Rightarrow> send_conn" where
  "on_send_receipt receipt now c =
     (case sc_slot c of
        None \<Rightarrow> c
      | Some p \<Rightarrow>
          (case handle_send_receipt p receipt now of
             (p, resolved) \<Rightarrow> fold resolve_receipt resolved (c\<lparr>sc_slot := Some p\<rparr>)))"

definition on_send_error :: "send_error \<Rightarrow> send_conn \<Rightarrow> send_conn" where
  "on_send_error err c =
     (case sc_slot c of
        None \<Rightarrow> c
      | Some p \<Rightarrow>
          (case handle_send_error p err of
             (p, None) \<Rightarrow> c\<lparr>sc_slot := Some p\<rparr>
           | (p, Some (op, code, msg)) \<Rightarrow>
               let seq = op_sequence_id op;
                   c = insert_outcome seq (SendErrorOutcome seq code msg) (c\<lparr>sc_slot := Some p\<rparr>)
               in case op_waker op of Some w \<Rightarrow> sc_wake seq w c | None \<Rightarrow> wake_slab seq c))"

definition attach_slot :: "string \<Rightarrow> int option \<Rightarrow> op_send list \<Rightarrow> producer \<Rightarrow> producer" where
  "attach_slot name last_sequence_id snapshots p =
     (let p = p\<lparr>pr_open_request_id := None, pr_name := Some name,
                pr_last_sequence_id_published := unwrap_or (-1) last_sequence_id\<rparr>;
          p = replay_pending_outbound p;
          p = (if snapshots \<noteq> [] then replay_snapshots p snapshots else p)
      in p\<lparr>pr_broker_ready := True, pr_has_ever_attached := True, pr_transient_open_attempts := 0,
           pr_last_open_error := None\<rparr>)"

definition on_producer_success :: "nat \<Rightarrow> string \<Rightarrow> int option \<Rightarrow> send_conn \<Rightarrow> send_conn" where
  "on_producer_success request_id name last_sequence_id c =
     (if request_id \<notin> set (sc_opens c) then c
      else
        let c = c\<lparr>sc_opens := removeAll request_id (sc_opens c)\<rparr> in
        case sc_slot c of
          Some p \<Rightarrow>
            if pr_open_request_id p = Some request_id
            then c\<lparr>sc_slot := Some (attach_slot name last_sequence_id (sc_snapshots c) p), sc_snapshots := []\<rparr>
            else c
        | None \<Rightarrow> c)"

text \<open>\<open>CloseProducer\<close> on a live socket: the in-place re-attachment, with the id of its open request.\<close>

definition producer_reattach_in_place_is_eligible :: "producer \<Rightarrow> bool" where
  "producer_reattach_in_place_is_eligible p \<longleftrightarrow>
     \<not> pr_closed p \<and> pr_has_ever_attached p \<and> pr_open_request_id p = None"

definition on_close_producer :: "nat \<Rightarrow> send_conn \<Rightarrow> send_conn" where
  "on_close_producer request_id c =
     (case sc_slot c of
        None \<Rightarrow> c
      | Some p \<Rightarrow>
          if producer_reattach_in_place_is_eligible p
          then c\<lparr>sc_slot := Some (p\<lparr>pr_broker_ready := False, pr_epoch := sat_add U64_MAX (pr_epoch p) 1,
                                  pr_open_request_id := Some request_id\<rparr>),
                 sc_opens := request_id # sc_opens c\<rparr>
          else c\<lparr>sc_slot := Some (p\<lparr>pr_broker_ready := False\<rparr>)\<rparr>)"

section \<open>Reset, give-up and close\<close>

definition wake_replayed :: "nat \<times> waker option \<Rightarrow> send_conn \<Rightarrow> send_conn" where
  "wake_replayed = (\<lambda>(seq, w) c.
     case w of
       Some w \<Rightarrow> sc_wake seq w (c\<lparr>sc_wakers := hm_remove seq (sc_wakers c)\<rparr>)
     | None \<Rightarrow> wake_slab seq c)"

definition reset_slot :: "producer \<Rightarrow> send_conn \<Rightarrow> send_conn" where
  "reset_slot p c =
     (case snapshot_pending_sends p of
        (p, replay_wakers, dropped, snapshots) \<Rightarrow>
          let c = fold wake_replayed replay_wakers (c\<lparr>sc_slot := Some p\<rparr>);
              c = fold (\<lambda>op. resolve_send_error (op_sequence_id op) BATCH_RESET_ERROR_CODE
                           BATCH_RESET_ERROR_MESSAGE (op_waker op)) dropped c
          in c\<lparr>sc_snapshots := sc_snapshots c @ snapshots\<rparr>)"

definition conn_reset :: "send_conn \<Rightarrow> send_conn" where
  "conn_reset c =
     (let c = (case sc_slot c of Some p \<Rightarrow> reset_slot p c | None \<Rightarrow> c);
          leftover_keys = map fst (sc_wakers c)
      in (fold wake_slab leftover_keys c)\<lparr>sc_connected := False, sc_opens := []\<rparr>)"

text \<open>\<open>rebuild_producers\<close>: a closed producer is not opened again, and its saved sends are dropped.\<close>

definition rebuild_producers :: "nat \<Rightarrow> send_conn \<Rightarrow> send_conn" where
  "rebuild_producers request_id c =
     (case sc_slot c of
        Some p \<Rightarrow>
          if \<not> pr_closed p
          then c\<lparr>sc_slot := Some (p\<lparr>pr_epoch := sat_add U64_MAX (pr_epoch p) 1,
                                  pr_open_request_id := Some request_id\<rparr>),
                 sc_opens := request_id # sc_opens c\<rparr>
          else c\<lparr>sc_snapshots := []\<rparr>
      | None \<Rightarrow> c\<lparr>sc_snapshots := []\<rparr>)"

definition on_connected :: "send_conn \<Rightarrow> send_conn" where
  "on_connected c = c\<lparr>sc_connected := True\<rparr>"

definition sweep_terminal :: "string \<Rightarrow> nat \<Rightarrow> send_conn \<Rightarrow> send_conn" where
  "sweep_terminal reason seq c = wake_slab seq (insert_outcome seq (TerminalOutcome reason) c)"

definition fail_slot :: "string \<Rightarrow> send_conn \<Rightarrow> send_conn" where
  "fail_slot reason c =
     (case sc_slot c of
        None \<Rightarrow> c
      | Some p \<Rightarrow>
          (case drain_pending_sends (p\<lparr>pr_closed := True\<rparr>) of
             (p, drained) \<Rightarrow> terminalize_drained_sends drained reason (c\<lparr>sc_slot := Some p\<rparr>)))"

definition fail_all_pending :: "string \<Rightarrow> send_conn \<Rightarrow> send_conn" where
  "fail_all_pending reason c =
     (let c = fail_slot reason c;
          c = terminalize_snapshot_bucket reason c;
          leftover_keys = map fst (sc_wakers c)
      in (fold (sweep_terminal reason) leftover_keys c)\<lparr>sc_opens := []\<rparr>)"

definition fail_producer_open :: "string \<Rightarrow> send_conn \<Rightarrow> send_conn" where
  "fail_producer_open reason c =
     (let c = fail_slot reason c in (terminalize_snapshot_bucket reason c)\<lparr>sc_slot := None\<rparr>)"

definition close_producer :: "nat \<Rightarrow> send_conn \<Rightarrow> send_conn" where
  "close_producer request_id c =
     c\<lparr>sc_slot := map_option (\<lambda>p. (pr_close p)\<lparr>pr_close_request := Some request_id\<rparr>) (sc_slot c)\<rparr>"

definition fail_sends_of_closed_producer :: "nat \<Rightarrow> send_conn \<Rightarrow> send_conn" where
  "fail_sends_of_closed_producer acked c =
     (case sc_slot c of
        None \<Rightarrow> c
      | Some p \<Rightarrow>
          if pr_close_request p = Some acked
          then (case drain_pending_sends p of
                  (p, drained) \<Rightarrow>
                    terminalize_snapshot_bucket PRODUCER_CLOSED_REASON
                      (terminalize_drained_sends drained PRODUCER_CLOSED_REASON (c\<lparr>sc_slot := Some p\<rparr>)))
          else c)"

section \<open>The send timeouts of \<open>handle_timeout\<close>\<close>

definition sweep_live_sends :: "instant \<Rightarrow> send_conn \<Rightarrow> send_conn" where
  "sweep_live_sends now c =
     (case sc_slot c of
        None \<Rightarrow> c
      | Some p \<Rightarrow>
          (case drain_timed_out_sends p now of
             (p, ops) \<Rightarrow>
               let p = p\<lparr>pr_total_send_failed :=
                     foldl (\<lambda>t _. sat_add U64_MAX t 1) (pr_total_send_failed p) ops\<rparr>
               in fold (\<lambda>op. resolve_send_error (op_sequence_id op) SEND_TIMEOUT_CODE
                           SEND_TIMEOUT_MESSAGE (op_waker op)) ops (c\<lparr>sc_slot := Some p\<rparr>)))"

definition sweep_snapshot_sends :: "instant \<Rightarrow> send_conn \<Rightarrow> send_conn" where
  "sweep_snapshot_sends now c =
     (case sc_slot c of
        None \<Rightarrow> c
      | Some p \<Rightarrow>
          (case pr_send_timeout p of
             None \<Rightarrow> c
           | Some timeout \<Rightarrow>
               let elapsed = (\<lambda>op. \<not> now < deadline_with_clamp (op_enqueued_at op) timeout);
                   expired = takeWhile elapsed (sc_snapshots c);
                   p = p\<lparr>pr_total_send_failed :=
                         foldl (\<lambda>t _. sat_add U64_MAX t 1) (pr_total_send_failed p) expired\<rparr>
               in fold (\<lambda>op. resolve_send_error (op_sequence_id op) SEND_TIMEOUT_CODE
                           SEND_TIMEOUT_MESSAGE (op_waker op)) expired
                    (c\<lparr>sc_slot := Some p, sc_snapshots := drop (length expired) (sc_snapshots c)\<rparr>)))"

definition sweep_send_timeouts :: "instant \<Rightarrow> send_conn \<Rightarrow> send_conn" where
  "sweep_send_timeouts now c = sweep_snapshot_sends now (sweep_live_sends now c)"

end
