(* ===== verification/Send_Session.thy ===== *)
theory Send_Session
  imports Send_Conn
begin

text \<open>
  The publish side of a connection as a state machine: every event the connection handles is a step,
  and the reachable states keep every accepted send in exactly one place until it is resolved.
\<close>

section \<open>Steps\<close>

fun accepted_of :: "send_event \<Rightarrow> nat list" where
  "accepted_of (Accepted s) = [s]"
| "accepted_of _ = []"

fun resolved_of :: "send_event \<Rightarrow> nat set" where
  "resolved_of (Resolved s _) = {s}"
| "resolved_of _ = {}"

definition accepted :: "send_conn \<Rightarrow> nat list" where
  "accepted c = concat (map accepted_of (sc_log c))"

definition resolved :: "send_conn \<Rightarrow> nat set" where
  "resolved c = \<Union> (set (map resolved_of (sc_log c)))"

definition pend_ops :: "send_conn \<Rightarrow> op_send list" where
  "pend_ops c = (case sc_slot c of Some p \<Rightarrow> pr_pending p | None \<Rightarrow> [])"

definition live :: "send_conn \<Rightarrow> nat list" where
  "live c = map op_sequence_id (sc_snapshots c @ pend_ops c)"

text \<open>
  Futures register only for ids they were given, and not after they consumed the outcome; the
  sequence ids stay below \<open>2 ^ 63\<close>; a producer is not rebuilt closed with sends saved for it.
\<close>

inductive sc_step :: "prod_env \<Rightarrow> send_conn \<Rightarrow> send_conn \<Rightarrow> bool" for env where
  send: "(\<And>p. sc_slot c = Some p \<Longrightarrow> pr_next_sequence_id p < 2 ^ 63) \<Longrightarrow>
    sc_step env c (fst (send_reserved env uuid msg r t now c))"
| flush: "sc_step env c (flush_producer env t now c)"
| receipt: "sc_step env c (on_send_receipt rc now c)"
| send_error: "sc_step env c (on_send_error err c)"
| success: "sc_step env c (on_producer_success rid name lid c)"
| closed_by_broker: "sc_step env c (on_close_producer rid c)"
| reset: "sc_step env c (conn_reset c)"
| connected: "sc_step env c (on_connected c)"
| rebuild: "(\<And>p. sc_slot c = Some p \<Longrightarrow> pr_closed p \<Longrightarrow> sc_snapshots c = []) \<Longrightarrow>
    sc_step env c (rebuild_producers rid c)"
| give_up: "sc_step env c (fail_all_pending reason c)"
| open_failed: "sc_step env c (fail_producer_open reason c)"
| close: "sc_step env c (close_producer rid c)"
| close_acked: "sc_step env c (fail_sends_of_closed_producer rid c)"
| timeouts: "sc_step env c (sweep_send_timeouts now c)"
| register: "s \<in> set (accepted c) \<Longrightarrow> s \<in> resolved c \<longrightarrow> hm_get (sc_outcomes c) s \<noteq> None \<Longrightarrow>
    sc_step env c (conn_register_waker s w c)"
| unregister: "sc_step env c (conn_unregister_waker s c)"
| consume: "sc_step env c (fst (take_outcome s c))"

inductive sc_reach :: "prod_env \<Rightarrow> send_conn \<Rightarrow> send_conn \<Rightarrow> bool" for env c0 where
  start: "sc_reach env c0 c0"
| more: "sc_reach env c0 c \<Longrightarrow> sc_step env c c' \<Longrightarrow> sc_reach env c0 c'"

section \<open>Resolving\<close>

lemma dom_hm_insert: "dom (hm_get (hm_insert k v m)) = insert k (dom (hm_get m))"
  by (auto split: if_splits)

lemma dom_hm_remove: "dom (hm_get (hm_remove k m)) = dom (hm_get m) - {k}"
  by (auto split: if_splits)

text \<open>\<open>resolves S c c'\<close>: the sends \<open>S\<close> get an outcome, and no send moves.\<close>

definition resolves :: "nat set \<Rightarrow> send_conn \<Rightarrow> send_conn \<Rightarrow> bool" where
  "resolves S c c' \<longleftrightarrow> sc_slot c' = sc_slot c \<and> sc_snapshots c' = sc_snapshots c \<and>
     accepted c' = accepted c \<and> resolved c' = resolved c \<union> S \<and>
     dom (hm_get (sc_wakers c')) \<subseteq> dom (hm_get (sc_wakers c))"

lemma resolves_refl: "resolves {} c c"
  by (simp add: resolves_def)

lemma resolves_trans: "resolves S c c1 \<Longrightarrow> resolves T c1 c2 \<Longrightarrow> resolves (S \<union> T) c c2"
  unfolding resolves_def by (metis Un_assoc order_trans)

lemma resolves_fold:
  assumes "\<And>x c. resolves (k x) c (f x c)"
  shows "resolves (\<Union> (k ` set xs)) c (fold f xs c)"
proof (induction xs arbitrary: c)
  case Nil
  show ?case by (simp add: resolves_refl)
next
  case (Cons x xs)
  show ?case using resolves_trans [OF assms [of x c] Cons.IH [of "f x c"]] by simp
qed

lemmas log_simps = accepted_def resolved_def sc_wake_def insert_outcome_def

lemma resolves_wake_slab: "resolves {} c (wake_slab s c)"
  by (auto simp: resolves_def log_simps wake_slab_def split: option.splits if_splits)

lemma resolves_error: "resolves {s} c (resolve_send_error s code m w c)"
  by (auto simp: resolves_def log_simps resolve_send_error_def Let_def split: option.splits if_splits)

lemma resolves_terminal: "resolves {op_sequence_id op} c (terminalize_drained_send reason op c)"
  by (auto simp: resolves_def log_simps terminalize_drained_send_def Let_def split: option.splits if_splits)

lemma resolves_insert: "resolves {s} c (insert_outcome s out c)"
  by (auto simp: resolves_def log_simps)

lemma resolves_wake: "resolves {} c (sc_wake s w c)"
  by (auto simp: resolves_def log_simps)

lemma resolves_insert_slab: "resolves {s} c (wake_slab s' (insert_outcome s out c))"
  using resolves_trans [OF resolves_insert resolves_wake_slab] by (metis Un_empty_right)

lemma resolves_insert_wake: "resolves {s} c (sc_wake s' w (insert_outcome s out c))"
  using resolves_trans [OF resolves_insert resolves_wake] by (metis Un_empty_right)

lemma resolves_snapshot: "resolves {op_sequence_id op} c (terminalize_snapshot reason op c)"
  by (cases "op_waker op")
     (auto simp: terminalize_snapshot_def Let_def resolves_insert_slab,
      auto simp: resolves_def log_simps split: if_splits)

lemma resolves_sweep: "resolves {s} c (sweep_terminal reason s c)"
  by (simp add: sweep_terminal_def resolves_insert_slab)

lemma resolves_receipt: "resolves {op_sequence_id (fst x)} c (resolve_receipt x c)"
  by (simp add: resolve_receipt_def Let_def case_prod_beta resolves_insert_slab resolves_insert_wake
      split: option.split)

lemma resolves_replayed: "resolves {} c (wake_replayed x c)"
  using resolves_wake_slab [of c "fst x"]
  by (auto simp: wake_replayed_def case_prod_beta resolves_def log_simps split: option.split if_splits)

section \<open>The specification and the invariant\<close>

text \<open>
  The contract of the publish side: a send is accepted once, is then live, and is resolved at some
  point by an outcome.
\<close>

inductive send_spec :: "nat set \<times> nat set \<Rightarrow> nat set \<times> nat set \<Rightarrow> bool" where
  accept: "s \<notin> L \<Longrightarrow> s \<notin> D \<Longrightarrow> send_spec (L, D) (insert s L, D)"
| resolve: "S \<subseteq> L \<Longrightarrow> send_spec (L, D) (L - S, D \<union> S)"

definition sc_abs :: "send_conn \<Rightarrow> nat set \<times> nat set" where
  "sc_abs c = (set (live c), resolved c)"

definition slot_ok :: "send_conn \<Rightarrow> bool" where
  "slot_ok c \<longleftrightarrow> (sc_slot c = None \<longrightarrow> sc_snapshots c = []) \<and> (\<forall>p. sc_slot c = Some p \<longrightarrow> pr_ok p \<and> (\<forall>s\<in>set (accepted c). s < pr_next_sequence_id p))"

definition sc_inv :: "send_conn \<Rightarrow> bool" where
  "sc_inv c \<longleftrightarrow> distinct (live c) \<and> set (live c) \<inter> resolved c = {} \<and> distinct (accepted c) \<and>
     set (accepted c) = set (live c) \<union> resolved c \<and> dom (hm_get (sc_wakers c)) \<subseteq> set (accepted c) \<and> slot_ok c"

definition settles :: "nat set \<Rightarrow> send_conn \<Rightarrow> send_conn \<Rightarrow> bool" where
  "settles S c c' \<longleftrightarrow> accepted c' = accepted c \<and> distinct (live c') \<and> S \<subseteq> set (live c) \<and>
     set (live c') = set (live c) - S \<and> resolved c' = resolved c \<union> S \<and>
     dom (hm_get (sc_wakers c')) \<subseteq> set (accepted c) \<and> slot_ok c'"

lemma settles_step: "sc_inv c \<Longrightarrow> settles S c c' \<Longrightarrow> sc_inv c' \<and> send_spec (sc_abs c) (sc_abs c')"
  by (auto simp: sc_inv_def settles_def sc_abs_def intro: send_spec.resolve)

lemma settles_trans: "settles S c c1 \<Longrightarrow> settles T c1 c2 \<Longrightarrow> settles (S \<union> T) c c2"
  by (auto simp: settles_def)

lemma ex_settles_trans: "\<exists>S. settles S c c1 \<Longrightarrow> settles T c1 c2 \<Longrightarrow> \<exists>S. settles S c c2"
  by (blast intro: settles_trans)

text \<open>The usual shape of a handler: the slot and the bucket give up some sends, which are then resolved.\<close>

lemma settlesI:
  assumes inv: "sc_inv c" and S: "S \<subseteq> set (live c)" and l: "live c1 = filter (\<lambda>s. s \<notin> S) (live c)"
    and c1: "sc_log c1 = sc_log c" "dom (hm_get (sc_wakers c1)) \<subseteq> set (accepted c)"
      "sc_slot c1 = None \<Longrightarrow> sc_snapshots c1 = []"
    and slot: "\<And>p'. sc_slot c1 = Some p' \<Longrightarrow>
      pr_ok p' \<and> (\<exists>p. sc_slot c = Some p \<and> pr_next_sequence_id p' = pr_next_sequence_id p)"
    and r: "resolves S c1 c'"
  shows "settles S c c'"
proof -
  have a: "accepted c' = accepted c" "resolved c' = resolved c \<union> S" "live c' = live c1" "sc_slot c' = sc_slot c1"
    using r c1(1) by (auto simp: resolves_def accepted_def resolved_def live_def pend_ops_def)
  have "slot_ok c'"
    using inv slot c1(3) r unfolding sc_inv_def slot_ok_def a(1) a(4) resolves_def by metis
  moreover have "dom (hm_get (sc_wakers c')) \<subseteq> set (accepted c)"
    using r c1(2) unfolding resolves_def by (metis order_trans)
  moreover have "distinct (live c)" using inv by (simp add: sc_inv_def)
  moreover have "set (filter (\<lambda>s. s \<notin> S) (live c)) = set (live c) - S" by auto
  ultimately show ?thesis
    using S l a by (simp only: settles_def distinct_filter simp_thms)
qed

lemma sc_inv_slab: "sc_inv c \<Longrightarrow> dom (hm_get (sc_wakers c)) \<subseteq> set (accepted c)"
  unfolding sc_inv_def by blast

lemma sc_inv_no_slot: "sc_inv c \<Longrightarrow> sc_slot c = None \<Longrightarrow> sc_snapshots c = []"
  by (simp add: sc_inv_def slot_ok_def)

lemma settles_same:
  assumes "sc_inv c" and "live c' = live c" and "sc_log c' = sc_log c" and "sc_wakers c' = sc_wakers c"
    and "sc_slot c' = None \<Longrightarrow> sc_snapshots c' = []"
    and "\<And>p'. sc_slot c' = Some p' \<Longrightarrow>
      pr_ok p' \<and> (\<exists>p. sc_slot c = Some p \<and> pr_next_sequence_id p' = pr_next_sequence_id p)"
  shows "settles {} c c'"
  using settlesI [OF assms(1) _ _ assms(3) _ assms(5,6) resolves_refl] assms(2,4) sc_inv_slab [OF assms(1)] by simp

lemma sc_inv_slot: "sc_inv c \<Longrightarrow> sc_slot c = Some p \<Longrightarrow> pr_ok p"
  by (simp add: sc_inv_def slot_ok_def)

lemma live_slot: "sc_slot c = Some p \<Longrightarrow> live c = map op_sequence_id (sc_snapshots c) @ map op_sequence_id (pr_pending p)"
  by (simp add: live_def pend_ops_def)

lemma live_no_slot: "sc_slot c = None \<Longrightarrow> live c = map op_sequence_id (sc_snapshots c)"
  by (simp add: live_def pend_ops_def)

lemma filter_map_seq: "filter (\<lambda>s. s \<notin> S) (map op_sequence_id ops) = map op_sequence_id (filter (\<lambda>op. op_sequence_id op \<notin> S) ops)"
  by (simp add: filter_map comp_def)

lemma distinct_keep: "distinct (xs @ ys) \<Longrightarrow> S \<subseteq> set ys \<Longrightarrow> filter (\<lambda>s. s \<notin> S) xs = xs"
  by (auto simp: filter_id_conv)

section \<open>The steps keep the invariant\<close>

declare drain_slot.simps [simp del]

lemma drain_slot_spec: "drain_slot p = (if pr_broker_ready p then (p\<lparr>pr_outbound := []\<rparr>, pr_outbound p) else (p, []))"
proof (induction "pr_outbound p" arbitrary: p)
  case Nil
  then show ?case by (subst drain_slot.simps) (simp add: next_outbound_frame_def)
next
  case (Cons f fs)
  have "drain_slot (p\<lparr>pr_outbound := fs\<rparr>) =
      (if pr_broker_ready p then (p\<lparr>pr_outbound := []\<rparr>, fs) else (p\<lparr>pr_outbound := fs\<rparr>, []))"
    using Cons.hyps(1) [of "p\<lparr>pr_outbound := fs\<rparr>"] by simp
  then show ?case
    by (subst drain_slot.simps) (simp add: next_outbound_frame_def Cons.hyps(2) [symmetric])
qed

definition drained_slot :: "send_conn \<Rightarrow> producer \<Rightarrow> producer" where
  "drained_slot c p = (if sc_connected c \<and> pr_broker_ready p then p\<lparr>pr_outbound := []\<rparr> else p)"

lemma drain_producer_outbound_spec:
  "sc_slot (drain_producer_outbound c) = map_option (drained_slot c) (sc_slot c)"
  "sc_log (drain_producer_outbound c) = sc_log c"
  "sc_snapshots (drain_producer_outbound c) = sc_snapshots c"
  "sc_wakers (drain_producer_outbound c) = sc_wakers c"
  "sc_outcomes (drain_producer_outbound c) = sc_outcomes c"
  by (simp_all add: drain_producer_outbound_def drain_slot_spec drained_slot_def split: option.split)

lemma drained_slot_keeps [simp]:
  "pr_pending (drained_slot c p) = pr_pending p" "pr_next_sequence_id (drained_slot c p) = pr_next_sequence_id p"
  "pr_pending_index (drained_slot c p) = pr_pending_index p" "pr_batch (drained_slot c p) = pr_batch p"
  "pr_send_timeout (drained_slot c p) = pr_send_timeout p" "pr_ok (drained_slot c p) = pr_ok p"
  by (simp_all add: drained_slot_def pr_ok_def fresh_def batch_ok_def)

lemma flush_settles: "sc_inv c \<Longrightarrow> settles {} c (flush_producer env t now c)"
  by (rule settles_same)
     (auto simp: flush_producer_def drain_producer_outbound_spec live_def pend_ops_def pr_ok_flush
       dest: sc_inv_slot sc_inv_no_slot split: option.splits)

lemma connected_settles: "sc_inv c \<Longrightarrow> settles {} c (on_connected c)"
  by (rule settles_same) (auto simp: on_connected_def live_def pend_ops_def dest: sc_inv_slot sc_inv_no_slot)

lemma pr_ok_quiet [simp]:
  "pr_ok (p\<lparr>pr_broker_ready := b\<rparr>) = pr_ok p" "pr_ok (p\<lparr>pr_epoch := e\<rparr>) = pr_ok p"
  "pr_ok (p\<lparr>pr_open_request_id := i\<rparr>) = pr_ok p" "pr_ok (p\<lparr>pr_close_request := i\<rparr>) = pr_ok p"
  "pr_ok (p\<lparr>pr_closed := b\<rparr>) = pr_ok p" "pr_ok (p\<lparr>pr_outbound := fs\<rparr>) = pr_ok p"
  "pr_ok (p\<lparr>pr_name := n\<rparr>) = pr_ok p" "pr_ok (p\<lparr>pr_last_sequence_id_published := x\<rparr>) = pr_ok p"
  "pr_ok (p\<lparr>pr_has_ever_attached := b\<rparr>) = pr_ok p" "pr_ok (p\<lparr>pr_transient_open_attempts := n'\<rparr>) = pr_ok p"
  "pr_ok (p\<lparr>pr_last_open_error := le\<rparr>) = pr_ok p" "pr_ok (p\<lparr>pr_total_send_failed := t\<rparr>) = pr_ok p"
  by (simp_all add: pr_ok_def fresh_def batch_ok_def)

lemma close_by_broker_settles: "sc_inv c \<Longrightarrow> settles {} c (on_close_producer rid c)"
  by (rule settles_same)
     (auto simp: on_close_producer_def live_def pend_ops_def dest: sc_inv_slot sc_inv_no_slot split: option.splits if_splits)

lemma close_settles: "sc_inv c \<Longrightarrow> settles {} c (close_producer rid c)"
  by (rule settles_same)
     (auto simp: close_producer_def pr_close_def live_def pend_ops_def dest: sc_inv_slot sc_inv_no_slot split: option.splits)

lemma consume_settles: "sc_inv c \<Longrightarrow> settles {} c (fst (take_outcome s c))"
  by (rule settles_same) (auto simp: take_outcome_def live_def pend_ops_def dest: sc_inv_slot sc_inv_no_slot)

lemma rebuild_settles:
  assumes "sc_inv c" and "\<And>p. sc_slot c = Some p \<Longrightarrow> pr_closed p \<Longrightarrow> sc_snapshots c = []"
  shows "settles {} c (rebuild_producers rid c)"
  by (rule settles_same [OF assms(1)])
     (use assms(2) sc_inv_no_slot [OF assms(1)] sc_inv_slot [OF assms(1)] in \<open>auto simp: rebuild_producers_def
        live_def pend_ops_def split: option.splits if_splits\<close>)

lemma slot_only [simp]:
  "live (c\<lparr>sc_slot := Some p\<rparr>) = map op_sequence_id (sc_snapshots c) @ map op_sequence_id (pr_pending p)"
  by (simp add: live_def pend_ops_def)

text \<open>A slot that gives up the sends \<open>S\<close>, which are then resolved.\<close>

lemma slot_settles:
  assumes inv: "sc_inv c" and p: "sc_slot c = Some p"
    and S: "S \<subseteq> op_sequence_id ` set (pr_pending p)"
    and pend: "map op_sequence_id (pr_pending p') = filter (\<lambda>s. s \<notin> S) (map op_sequence_id (pr_pending p))"
    and p': "pr_ok p'" "pr_next_sequence_id p' = pr_next_sequence_id p"
    and r: "resolves S (c\<lparr>sc_slot := Some p'\<rparr>) c'"
  shows "settles S c c'"
proof (rule settlesI [OF inv _ _ _ _ _ _ r])
  have d: "distinct (map op_sequence_id (sc_snapshots c) @ map op_sequence_id (pr_pending p))"
    using inv live_slot [OF p] by (simp add: sc_inv_def)
  show "S \<subseteq> set (live c)" using S live_slot [OF p] by auto
  show "live (c\<lparr>sc_slot := Some p'\<rparr>) = filter (\<lambda>s. s \<notin> S) (live c)"
    using distinct_keep [OF d] S pend by (simp add: live_slot [OF p])
qed (use p p' sc_inv_slab [OF inv] in auto)

lemma receipt_settles: "sc_inv c \<Longrightarrow> \<exists>S. settles S c (on_send_receipt receipt now c)"
proof (cases "sc_slot c")
  case None
  moreover assume "sc_inv c"
  ultimately show ?thesis using settles_same [of c c] sc_inv_no_slot by (auto simp: on_send_receipt_def)
next
  case (Some p)
  assume inv: "sc_inv c"
  obtain p' rs where h: "handle_send_receipt p receipt now = (p', rs)" by fastforce
  note sp = handle_send_receipt_spec [OF sc_inv_slot [OF inv Some] h]
  let ?I = "{sr_sequence_id receipt..receipt_highest receipt}"
  have S: "(\<Union>x\<in>set rs. {op_sequence_id (fst x)}) = set (map (\<lambda>(op, mid). op_sequence_id op) rs)"
    by (auto simp: case_prod_beta)
  have S2: "set (map (\<lambda>(op, mid). op_sequence_id op) rs) = op_sequence_id ` set (pr_pending p) \<inter> ?I"
    unfolding sp(3) by (auto simp del: upt_Suc)
  have "settles (\<Union>x\<in>set rs. {op_sequence_id (fst x)}) c (on_send_receipt receipt now c)"
  proof (rule slot_settles [OF inv Some])
    show "(\<Union>x\<in>set rs. {op_sequence_id (fst x)}) \<subseteq> op_sequence_id ` set (pr_pending p)"
      unfolding S S2 by blast
    show "map op_sequence_id (pr_pending p') =
        filter (\<lambda>s. s \<notin> (\<Union>x\<in>set rs. {op_sequence_id (fst x)})) (map op_sequence_id (pr_pending p))"
      unfolding S S2 filter_map_seq sp(2) by (intro arg_cong [of _ _ "map op_sequence_id"] filter_cong) auto
    show "resolves (\<Union>x\<in>set rs. {op_sequence_id (fst x)}) (c\<lparr>sc_slot := Some p'\<rparr>) (on_send_receipt receipt now c)"
      using resolves_fold [of "\<lambda>x. {op_sequence_id (fst x)}" resolve_receipt, OF resolves_receipt]
      by (simp add: on_send_receipt_def Some h)
  qed (rule sp)+
  then show ?thesis ..
qed

lemma error_settles: "sc_inv c \<Longrightarrow> \<exists>S. settles S c (on_send_error err c)"
proof (cases "sc_slot c")
  case None
  moreover assume "sc_inv c"
  ultimately show ?thesis using settles_same [of c c] sc_inv_no_slot by (auto simp: on_send_error_def)
next
  case (Some p)
  assume inv: "sc_inv c"
  obtain p' r where h: "handle_send_error p err = (p', r)" by fastforce
  note sp = handle_send_error_spec [OF sc_inv_slot [OF inv Some] h]
  let ?S = "if r = None then {} else {se_sequence_id err}"
  have "settles ?S c (on_send_error err c)"
  proof (rule slot_settles [OF inv Some])
    show "?S \<subseteq> op_sequence_id ` set (pr_pending p)" using sp(3) by (auto split: if_splits)
    show "map op_sequence_id (pr_pending p') = filter (\<lambda>s. s \<notin> ?S) (map op_sequence_id (pr_pending p))"
      using sp(3) unfolding filter_map_seq sp(2)
      by (intro arg_cong [of _ _ "map op_sequence_id"] filter_cong) (auto simp: image_iff split: if_splits)
    show "resolves ?S (c\<lparr>sc_slot := Some p'\<rparr>) (on_send_error err c)"
      using sp(3) by (auto simp: on_send_error_def Some h Let_def resolves_refl resolves_insert_slab
          resolves_insert_wake split: if_splits option.split)
  qed (rule sp)+
  then show ?thesis ..
qed

lemma success_other:
  "\<not> (rid \<in> set (sc_opens c) \<and> (\<exists>p. sc_slot c = Some p \<and> pr_open_request_id p = Some rid)) \<Longrightarrow>
     \<exists>ids. on_producer_success rid name lid c = c\<lparr>sc_opens := ids\<rparr>"
  by (cases "sc_slot c"; cases "rid \<in> set (sc_opens c)")
     (auto simp: on_producer_success_def Let_def intro: exI [of _ "sc_opens c"])

lemma success_settles: "sc_inv c \<Longrightarrow> settles {} c (on_producer_success rid name lid c)"
proof (cases "rid \<in> set (sc_opens c) \<and> (\<exists>p. sc_slot c = Some p \<and> pr_open_request_id p = Some rid)")
  case False
  assume inv: "sc_inv c"
  obtain ids where "on_producer_success rid name lid c = c\<lparr>sc_opens := ids\<rparr>" using success_other [OF False] by blast
  then show ?thesis
    by (simp, intro settles_same [OF inv]) (use sc_inv_slot [OF inv] sc_inv_no_slot [OF inv] in \<open>auto simp: live_def pend_ops_def\<close>)
next
  case True
  then obtain p where p: "sc_slot c = Some p" "pr_open_request_id p = Some rid" "rid \<in> set (sc_opens c)" by blast
  assume inv: "sc_inv c"
  define q where "q = replay_pending_outbound (p\<lparr>pr_open_request_id := None, pr_name := Some name,
      pr_last_sequence_id_published := unwrap_or (-1) lid\<rparr>)"
  have q: "pr_pending q = pr_pending p" "pr_next_sequence_id q = pr_next_sequence_id p" "pr_ok q"
    using sc_inv_slot [OF inv p(1)] unfolding q_def
    by (subst replay_pending_outbound_spec(2), simp)+
  have d: "distinct (map op_sequence_id (sc_snapshots c @ pr_pending q))"
    using inv live_slot [OF p(1)] q(1) by (simp add: sc_inv_def)
  have fr: "\<forall>op\<in>set (sc_snapshots c). op_sequence_id op < pr_next_sequence_id q"
    using inv live_slot [OF p(1)] p(1) q(2) by (auto simp: sc_inv_def slot_ok_def)
  define q' where "q' = (if sc_snapshots c \<noteq> [] then replay_snapshots q (sc_snapshots c) else q)"
  have q': "pr_pending q' = sc_snapshots c @ pr_pending p" "pr_next_sequence_id q' = pr_next_sequence_id p" "pr_ok q'"
    using replay_snapshots_ok(1) [OF q(3) d fr] q by (auto simp: q'_def replay_snapshots_spec)
  have e: "on_producer_success rid name lid c = c\<lparr>sc_opens := removeAll rid (sc_opens c),
      sc_slot := Some (q'\<lparr>pr_broker_ready := True, pr_has_ever_attached := True,
        pr_transient_open_attempts := 0, pr_last_open_error := None\<rparr>), sc_snapshots := []\<rparr>"
    by (simp add: on_producer_success_def p attach_slot_def Let_def q_def [symmetric] q'_def)
  show ?thesis
    unfolding e by (rule settles_same [OF inv]) (use p q' live_slot [OF p(1)] in \<open>auto simp: live_def pend_ops_def\<close>)
qed

lemma register_slot: "register_waker p s w = (p', b) \<Longrightarrow> wakers_only p p'"
  using register_waker_only [of p s w] by simp

lemma settles_register:
  assumes inv: "sc_inv c" and s: "s \<in> set (accepted c)"
  shows "settles {} c (conn_register_waker s w c)"
proof -
  have "settles {} c c'"
    if l: "sc_log c' = sc_log c @ [Registered s w] \<or> sc_log c' = sc_log c @ [Registered s w, Woke s w]"
      and w: "sc_wakers c' = sc_wakers c \<or> sc_wakers c' = hm_insert s w (sc_wakers c)"
      and sn: "sc_snapshots c' = sc_snapshots c"
      and slot: "sc_slot c' = sc_slot c \<or> (\<exists>p p'. sc_slot c = Some p \<and> sc_slot c' = Some p' \<and> wakers_only p p')"
    for c'
  proof -
    have a: "accepted c' = accepted c" "resolved c' = resolved c" using l by (auto simp: accepted_def resolved_def)
    have "live c' = live c"
      using slot sn wakers_only_spec(1) by (auto simp: live_def pend_ops_def)
    moreover have "slot_ok c'"
      using slot
    proof (elim disjE exE conjE)
      assume "sc_slot c' = sc_slot c"
      then show ?thesis using inv a(1) sn by (simp add: sc_inv_def slot_ok_def)
    next
      fix p p' assume "sc_slot c = Some p" "sc_slot c' = Some p'" and wo: "wakers_only p p'"
      then show ?thesis
        using inv a(1) wakers_only_spec(3) [OF wo] wakers_only_spec(4) [OF wo] by (simp add: sc_inv_def slot_ok_def)
    qed
    moreover have "dom (hm_get (sc_wakers c')) \<subseteq> set (accepted c)"
      using w s sc_inv_slab [OF inv] by (elim disjE) (simp_all only: dom_hm_insert insert_subset simp_thms)
    moreover have "distinct (live c)" using inv by (simp add: sc_inv_def)
    ultimately show ?thesis using a by (simp add: settles_def)
  qed
  then show ?thesis
    by (auto simp: conn_register_waker_def Let_def sc_wake_def split: option.split prod.split bool.split
        dest!: register_slot)
qed

lemma settles_unregister:
  assumes inv: "sc_inv c"
  shows "settles {} c (conn_unregister_waker s c)"
proof -
  let ?c = "conn_unregister_waker s c"
  have a: "accepted ?c = accepted c" "resolved ?c = resolved c"
    by (simp_all add: conn_unregister_waker_def accepted_def resolved_def)
  have "live ?c = live c"
    using wakers_only_spec(1) [OF clear_waker_only]
    by (simp add: conn_unregister_waker_def live_def pend_ops_def split: option.split)
  moreover have "slot_ok ?c"
    using inv wakers_only_spec(3,4) [OF clear_waker_only] unfolding sc_inv_def slot_ok_def a
    by (auto simp: conn_unregister_waker_def)
  moreover have "dom (hm_get (sc_wakers ?c)) \<subseteq> set (accepted c)"
  proof -
    have "sc_wakers ?c = hm_remove s (sc_wakers c)" by (simp add: conn_unregister_waker_def)
    then show ?thesis using sc_inv_slab [OF inv] by (simp only: dom_hm_remove) blast
  qed
  moreover have "distinct (live c)" using inv by (simp add: sc_inv_def)
  ultimately show ?thesis using a by (simp add: settles_def)
qed

section \<open>Reset, give-up, close and timeouts\<close>

lemma resolves_snapshots_upd:
  "resolves S c c' \<Longrightarrow> resolves S (c\<lparr>sc_snapshots := x\<rparr>) (c'\<lparr>sc_snapshots := x\<rparr>)"
  by (auto simp: resolves_def accepted_def resolved_def)

lemma resolves_fold_none:
  assumes "\<And>x c. resolves {} c (f x c)"
  shows "resolves {} c (fold f xs c)"
  using resolves_fold [of "\<lambda>_. {}" f xs c] assms by simp

lemma resolves_fold_seq:
  assumes "\<And>x c. resolves {op_sequence_id x} c (f x c)"
  shows "resolves (op_sequence_id ` set xs) c (fold f xs c)"
  using resolves_fold [of "\<lambda>x. {op_sequence_id x}" f xs c] assms by (simp add: UNION_singleton_eq_range)

lemma reset_slot_settles:
  assumes inv: "sc_inv c" and p: "sc_slot c = Some p"
  shows "\<exists>S. settles S c (reset_slot p c)"
proof -
  obtain p' ws dropped snaps where h: "snapshot_pending_sends p = (p', ws, dropped, snaps)" by (metis prod.exhaust)
  note sp = snapshot_pending_sends_spec [OF sc_inv_slot [OF inv p] h]
  let ?S = "op_sequence_id ` set dropped" and ?sn = "sc_snapshots c @ snaps"
  define c1 where "c1 = fold wake_replayed ws (c\<lparr>sc_slot := Some p'\<rparr>)"
  define c2 where "c2 = fold (\<lambda>op. resolve_send_error (op_sequence_id op) BATCH_RESET_ERROR_CODE
    BATCH_RESET_ERROR_MESSAGE (op_waker op)) dropped c1"
  have r: "resolves ?S (c\<lparr>sc_slot := Some p'\<rparr>) c2"
    using resolves_trans [OF resolves_fold_none [of wake_replayed, OF resolves_replayed]
        resolves_fold_seq [of "\<lambda>op. resolve_send_error (op_sequence_id op) BATCH_RESET_ERROR_CODE
          BATCH_RESET_ERROR_MESSAGE (op_waker op)", OF resolves_error]]
    by (simp add: c1_def c2_def)
  have e: "reset_slot p c = c2\<lparr>sc_snapshots := ?sn\<rparr>"
    using r by (simp add: reset_slot_def h c1_def [symmetric] c2_def [symmetric] Let_def resolves_def)
  have d: "distinct (map op_sequence_id (sc_snapshots c) @ map op_sequence_id (pr_pending p))"
    using inv live_slot [OF p] by (simp add: sc_inv_def)
  have "settles ?S c (c2\<lparr>sc_snapshots := ?sn\<rparr>)"
  proof (rule settlesI [OF inv _ _ _ _ _ _ resolves_snapshots_upd [OF r]])
    show "?S \<subseteq> set (live c)" using live_slot [OF p] sp(2) by auto
    have "op_sequence_id op \<notin> ?S \<longleftrightarrow> op_replay_frames op \<noteq> []" if "op \<in> set (pr_pending p)" for op
      using that d unfolding sp(2) by (auto simp: distinct_map dest: inj_onD)
    then have "filter (\<lambda>op. op_sequence_id op \<notin> ?S) (pr_pending p) = filter (\<lambda>op. op_replay_frames op \<noteq> []) (pr_pending p)"
      by (rule filter_cong [OF refl])
    moreover have "filter (\<lambda>s. s \<notin> ?S) (map op_sequence_id (sc_snapshots c)) = map op_sequence_id (sc_snapshots c)"
      by (rule distinct_keep [OF d]) (auto simp: sp(2))
    ultimately show "live (c\<lparr>sc_slot := Some p', sc_snapshots := ?sn\<rparr>) = filter (\<lambda>s. s \<notin> ?S) (live c)"
      by (simp add: p live_def pend_ops_def sp(3,4) filter_map_seq comp_def)
  qed (use p sp sc_inv_slab [OF inv] in auto)
  then show ?thesis using e by auto
qed

lemma settles_resolves_none: "sc_inv c \<Longrightarrow> resolves {} c c' \<Longrightarrow> settles {} c c'"
  by (rule settlesI [of c "{}" c]) (simp_all add: sc_inv_slot sc_inv_no_slot sc_inv_slab)

lemma opens_only:
  "live (c\<lparr>sc_connected := b, sc_opens := ids\<rparr>) = live c" "accepted (c\<lparr>sc_connected := b, sc_opens := ids\<rparr>) = accepted c"
  "resolved (c\<lparr>sc_connected := b, sc_opens := ids\<rparr>) = resolved c" "slot_ok (c\<lparr>sc_connected := b, sc_opens := ids\<rparr>) = slot_ok c"
  by (simp_all add: live_def pend_ops_def accepted_def resolved_def slot_ok_def)

lemma settles_opens: "settles S c c' \<Longrightarrow> settles S c (c'\<lparr>sc_connected := b, sc_opens := ids\<rparr>)"
  by (simp add: settles_def opens_only)

lemma reset_settles:
  assumes inv: "sc_inv c"
  shows "\<exists>S. settles S c (conn_reset c)"
proof -
  define c1 where "c1 = (case sc_slot c of Some p \<Rightarrow> reset_slot p c | None \<Rightarrow> c)"
  obtain S where S: "settles S c c1"
    using reset_slot_settles [OF inv] settles_resolves_none [OF inv resolves_refl]
    by (cases "sc_slot c") (auto simp: c1_def)
  have "resolves {} c1 (fold wake_slab (map fst (sc_wakers c1)) c1)"
    by (rule resolves_fold_none [OF resolves_wake_slab])
  then have "settles {} c1 (fold wake_slab (map fst (sc_wakers c1)) c1)"
    using settles_resolves_none settles_step [OF inv S] by blast
  from settles_opens [OF settles_trans [OF S this], of "[]" False]
  show ?thesis unfolding conn_reset_def Let_def c1_def [symmetric] by blast
qed

lemma filter_drop_front: "distinct (xs @ ys) \<Longrightarrow> filter (\<lambda>s. s \<notin> set xs) (xs @ ys) = ys"
  by (auto simp: filter_id_conv)

lemma drained_settles:
  assumes inv: "sc_inv c" and p: "sc_slot c = Some p" and q: "pr_ok q" "pr_pending q = pr_pending p"
      "pr_next_sequence_id q = pr_next_sequence_id p"
    and d: "drain_pending_sends q = (p', drained)"
  shows "settles (op_sequence_id ` set drained) c (terminalize_drained_sends drained reason (c\<lparr>sc_slot := Some p'\<rparr>))"
proof (rule slot_settles [OF inv p])
  note sp = drain_pending_sends_spec [OF q(1) d]
  show "op_sequence_id ` set drained \<subseteq> op_sequence_id ` set (pr_pending p)" using sp(1) q(2) by simp
  show "map op_sequence_id (pr_pending p') =
      filter (\<lambda>s. s \<notin> op_sequence_id ` set drained) (map op_sequence_id (pr_pending p))"
    using sp(1,2) q(2) by (auto simp: filter_empty_conv)
  show "pr_ok p'" "pr_next_sequence_id p' = pr_next_sequence_id p" using sp(3,6) q(3) by simp_all
  show "resolves (op_sequence_id ` set drained) (c\<lparr>sc_slot := Some p'\<rparr>)
      (terminalize_drained_sends drained reason (c\<lparr>sc_slot := Some p'\<rparr>))"
    unfolding terminalize_drained_sends_def by (rule resolves_fold_seq [OF resolves_terminal])
qed

lemma fail_slot_settles: "sc_inv c \<Longrightarrow> (\<exists>S. settles S c (fail_slot reason c)) \<and> pend_ops (fail_slot reason c) = []"
proof (cases "sc_slot c")
  case None
  moreover assume "sc_inv c"
  ultimately show ?thesis
    using settles_resolves_none [OF _ resolves_refl] by (auto simp: fail_slot_def pend_ops_def)
next
  case (Some p)
  assume inv: "sc_inv c"
  obtain p' drained where d: "drain_pending_sends (p\<lparr>pr_closed := True\<rparr>) = (p', drained)" by fastforce
  have ok: "pr_ok (p\<lparr>pr_closed := True\<rparr>)" using sc_inv_slot [OF inv Some] by simp
  have s: "settles (op_sequence_id ` set drained) c (fail_slot reason c)"
    using drained_settles [OF inv Some ok _ _ d] by (simp add: fail_slot_def Some d)
  have "resolves (op_sequence_id ` set drained) (c\<lparr>sc_slot := Some p'\<rparr>)
      (terminalize_drained_sends drained reason (c\<lparr>sc_slot := Some p'\<rparr>))"
    unfolding terminalize_drained_sends_def by (rule resolves_fold_seq [OF resolves_terminal])
  then have "pend_ops (fail_slot reason c) = []"
    using drain_pending_sends_spec(2) [OF ok d] by (simp add: fail_slot_def Some d pend_ops_def resolves_def)
  then show ?thesis using s by blast
qed

lemma bucket_settles:
  assumes inv: "sc_inv c"
  shows "settles (op_sequence_id ` set (sc_snapshots c)) c (terminalize_snapshot_bucket reason c)"
proof (rule settlesI [OF inv])
  let ?c1 = "c\<lparr>sc_snapshots := []\<rparr>"
  show "op_sequence_id ` set (sc_snapshots c) \<subseteq> set (live c)" by (auto simp: live_def)
  have "distinct (map op_sequence_id (sc_snapshots c) @ map op_sequence_id (pend_ops c))"
    using inv by (simp add: sc_inv_def live_def)
  from filter_drop_front [OF this]
  show "live ?c1 = filter (\<lambda>s. s \<notin> op_sequence_id ` set (sc_snapshots c)) (live c)"
    by (simp add: live_def pend_ops_def)
  show "resolves (op_sequence_id ` set (sc_snapshots c)) ?c1 (terminalize_snapshot_bucket reason c)"
    unfolding terminalize_snapshot_bucket_def by (rule resolves_fold_seq [OF resolves_snapshot])
qed (use inv sc_inv_slab [OF inv] sc_inv_slot [OF inv] in simp_all)

lemma bucket_slot: "sc_slot (terminalize_snapshot_bucket reason c) = sc_slot c"
    "sc_snapshots (terminalize_snapshot_bucket reason c) = []"
  using resolves_fold_seq [of "terminalize_snapshot reason", OF resolves_snapshot,
      of "sc_snapshots c" "c\<lparr>sc_snapshots := []\<rparr>"]
  by (simp_all add: terminalize_snapshot_bucket_def resolves_def)

lemma fail_slot_bucket:
  assumes "sc_inv c" and c1_def: "c1 = terminalize_snapshot_bucket reason (fail_slot reason c)"
  shows "\<exists>S. settles S c c1" and "sc_inv c1" and "live c1 = []"
proof -
  obtain S where S: "settles S c (fail_slot reason c)" using fail_slot_settles [OF assms(1)] by blast
  have i: "sc_inv (fail_slot reason c)" using settles_step [OF assms(1) S] by blast
  from settles_trans [OF S bucket_settles [OF i]] show "\<exists>S. settles S c c1" unfolding c1_def by blast
  then show "sc_inv c1" using settles_step [OF assms(1)] by blast
  show "live c1 = []"
    using fail_slot_settles [OF assms(1), of reason] by (simp add: c1_def live_def pend_ops_def bucket_slot)
qed

lemma give_up_settles:
  assumes inv: "sc_inv c"
  shows "\<exists>S. settles S c (fail_all_pending reason c)"
proof -
  define c1 where "c1 = terminalize_snapshot_bucket reason (fail_slot reason c)"
  note f = fail_slot_bucket [OF inv c1_def]
  let ?K = "map fst (sc_wakers c1)"
  have r: "resolves (\<Union>s\<in>set ?K. {s}) c1 (fold (sweep_terminal reason) ?K c1)"
    by (rule resolves_fold [OF resolves_sweep])
  have "set ?K = dom (hm_get (sc_wakers c1))" by (simp add: dom_map_of_conv_image_fst)
  then have K: "set ?K \<subseteq> resolved c1" using f(2,3) unfolding sc_inv_def by (metis Un_empty_left empty_set)
  have "settles {} c1 (fold (sweep_terminal reason) ?K c1)"
  proof (rule settles_resolves_none [OF f(2)])
    show "resolves {} c1 (fold (sweep_terminal reason) ?K c1)" using r K unfolding resolves_def by blast
  qed
  from ex_settles_trans [OF f(1) settles_opens [OF this, of "[]" "sc_connected (fold (sweep_terminal reason) ?K c1)"]]
  show ?thesis by (simp add: fail_all_pending_def Let_def c1_def [symmetric])
qed

lemma open_failed_settles:
  assumes inv: "sc_inv c"
  shows "\<exists>S. settles S c (fail_producer_open reason c)"
proof -
  define c1 where "c1 = terminalize_snapshot_bucket reason (fail_slot reason c)"
  note f = fail_slot_bucket [OF inv c1_def]
  have "settles {} c1 (c1\<lparr>sc_slot := None\<rparr>)"
    by (rule settles_same [OF f(2)]) (use f(3) in \<open>auto simp: live_def pend_ops_def\<close>)
  from ex_settles_trans [OF f(1) this]
  show ?thesis by (simp add: fail_producer_open_def Let_def c1_def [symmetric])
qed

lemma close_acked_settles:
  assumes inv: "sc_inv c"
  shows "\<exists>S. settles S c (fail_sends_of_closed_producer rid c)"
proof (cases "\<exists>p. sc_slot c = Some p \<and> pr_close_request p = Some rid")
  case False
  then show ?thesis
    using settles_resolves_none [OF inv resolves_refl]
    by (auto simp: fail_sends_of_closed_producer_def split: option.split)
next
  case True
  then obtain p where p: "sc_slot c = Some p" "pr_close_request p = Some rid" by blast
  obtain p' drained where d: "drain_pending_sends p = (p', drained)" by fastforce
  note s = drained_settles [OF inv p(1) sc_inv_slot [OF inv p(1)] refl refl d, of PRODUCER_CLOSED_REASON]
  note b = bucket_settles [OF conjunct1 [OF settles_step [OF inv s]], of PRODUCER_CLOSED_REASON]
  show ?thesis using settles_trans [OF s b] by (auto simp: fail_sends_of_closed_producer_def p d)
qed

lemma live_sweep_settles:
  assumes inv: "sc_inv c"
  shows "\<exists>S. settles S c (sweep_live_sends now c)"
proof (cases "sc_slot c")
  case None
  then show ?thesis using settles_resolves_none [OF inv resolves_refl] by (auto simp: sweep_live_sends_def)
next
  case (Some p)
  obtain p' out where d: "drain_timed_out_sends p now = (p', out)" by fastforce
  note sp = drain_timed_out_sends_spec [OF sc_inv_slot [OF inv Some] d]
  define q where "q = p'\<lparr>pr_total_send_failed := foldl (\<lambda>t _. sat_add U64_MAX t 1) (pr_total_send_failed p') out\<rparr>"
  have "settles (op_sequence_id ` set out) c (sweep_live_sends now c)"
  proof (rule slot_settles [OF inv Some])
    show "op_sequence_id ` set out \<subseteq> op_sequence_id ` set (pr_pending p)" using sp(1) by auto
    have "distinct (map op_sequence_id out @ map op_sequence_id (pr_pending p'))"
      using inv live_slot [OF Some] sp(1) by (simp add: sc_inv_def)
    from filter_drop_front [OF this]
    show "map op_sequence_id (pr_pending q) =
        filter (\<lambda>s. s \<notin> op_sequence_id ` set out) (map op_sequence_id (pr_pending p))"
      by (simp add: sp(1) q_def)
    show "pr_ok q" "pr_next_sequence_id q = pr_next_sequence_id p" using sp by (simp_all add: q_def)
    show "resolves (op_sequence_id ` set out) (c\<lparr>sc_slot := Some q\<rparr>) (sweep_live_sends now c)"
      using resolves_fold_seq [of "\<lambda>op. resolve_send_error (op_sequence_id op) SEND_TIMEOUT_CODE
          SEND_TIMEOUT_MESSAGE (op_waker op)", OF resolves_error]
      by (simp add: sweep_live_sends_def Some d q_def Let_def)
  qed
  then show ?thesis ..
qed

lemma snapshot_sweep_settles:
  assumes inv: "sc_inv c"
  shows "\<exists>S. settles S c (sweep_snapshot_sends now c)"
proof (cases "\<exists>p t. sc_slot c = Some p \<and> pr_send_timeout p = Some t")
  case False
  then show ?thesis
    using settles_resolves_none [OF inv resolves_refl] by (auto simp: sweep_snapshot_sends_def split: option.split)
next
  case True
  then obtain p t where p: "sc_slot c = Some p" "pr_send_timeout p = Some t" by blast
  define expired where "expired = takeWhile (\<lambda>op. \<not> now < deadline_with_clamp (op_enqueued_at op) t) (sc_snapshots c)"
  define rest where "rest = drop (length expired) (sc_snapshots c)"
  have split: "sc_snapshots c = expired @ rest"
    by (metis expired_def rest_def append_take_drop_id takeWhile_eq_take length_takeWhile_le)
  define q where "q = p\<lparr>pr_total_send_failed := foldl (\<lambda>t _. sat_add U64_MAX t 1) (pr_total_send_failed p) expired\<rparr>"
  let ?c1 = "c\<lparr>sc_slot := Some q, sc_snapshots := rest\<rparr>"
  have "settles (op_sequence_id ` set expired) c (sweep_snapshot_sends now c)"
  proof (rule settlesI [OF inv])
    show "op_sequence_id ` set expired \<subseteq> set (live c)" using split by (auto simp: live_def)
    have "distinct (map op_sequence_id expired @ (map op_sequence_id rest @ map op_sequence_id (pr_pending p)))"
      using inv live_slot [OF p(1)] split by (simp add: sc_inv_def)
    from filter_drop_front [OF this]
    show "live ?c1 = filter (\<lambda>s. s \<notin> op_sequence_id ` set expired) (live c)"
      by (simp add: live_slot [OF p(1)] split) (simp add: live_def pend_ops_def q_def)
    show "resolves (op_sequence_id ` set expired) ?c1 (sweep_snapshot_sends now c)"
      using resolves_fold_seq [of "\<lambda>op. resolve_send_error (op_sequence_id op) SEND_TIMEOUT_CODE
          SEND_TIMEOUT_MESSAGE (op_waker op)", OF resolves_error, of expired ?c1]
      by (simp add: sweep_snapshot_sends_def p Let_def expired_def [symmetric] rest_def q_def)
  qed (use p sc_inv_slot [OF inv p(1)] sc_inv_slab [OF inv] in \<open>auto simp: q_def\<close>)
  then show ?thesis ..
qed

lemma timeouts_settles: "sc_inv c \<Longrightarrow> \<exists>S. settles S c (sweep_send_timeouts now c)"
  unfolding sweep_send_timeouts_def
  by (meson live_sweep_settles snapshot_sweep_settles settles_step settles_trans)

section \<open>Sending\<close>

lemma send_step:
  assumes inv: "sc_inv c" and bound: "\<And>p. sc_slot c = Some p \<Longrightarrow> pr_next_sequence_id p < 2 ^ 63"
    and c'_def: "c' = fst (send_reserved env uuid msg r t now c)"
  shows "sc_inv c' \<and> send_spec (sc_abs c) (sc_abs c')"
proof (cases "sc_slot c")
  case None
  then show ?thesis
    using settles_step [OF inv settles_resolves_none [OF inv resolves_refl]] by (simp add: c'_def send_reserved_def)
next
  case (Some p)
  note ok = sc_inv_slot [OF inv Some] and b = bound [OF Some]
  show ?thesis
  proof (cases rule: queue_send_cases [of env uuid p msg r t now])
    case (refused p1 e)
    have "pr_ok p1" "map op_sequence_id (pr_pending p1) = map op_sequence_id (pr_pending p)"
        "pr_next_sequence_id p1 = pr_next_sequence_id p"
      using refused(2) ok pr_ok_flush by auto
    then have "settles {} c (c\<lparr>sc_slot := Some p1\<rparr>)"
      using Some by (intro slot_settles [OF inv Some _ _ _ _ resolves_refl]) auto
    then show ?thesis using settles_step [OF inv] by (simp add: c'_def send_reserved_def Some refused(1))
  next
    case (queued p1 op d)
    let ?n = "pr_next_sequence_id p"
    have ps: "op_sequence_id op = ?n" "pr_pending p1 = pr_pending p @ [op]"
        "pr_last_sequence_id_pushed p1 = u64_as_i64 ?n" "pr_next_sequence_id p1 = ?n + 1"
      using queued(2) b by (simp_all add: pushed_def wrap_add64_def)
    have seq: "nat (max (pr_last_sequence_id_pushed p1) 0) = ?n"
      using b by (simp add: ps(3) u64_as_i64_def)
    have ok1: "pr_ok p1" using queued(4) [OF ok] b by simp
    let ?c1 = "c\<lparr>sc_slot := Some p1, sc_log := sc_log c @ [Accepted ?n]\<rparr>"
    have c': "c' = drain_producer_outbound ?c1"
      by (simp add: c'_def send_reserved_def Some queued(1) seq Let_def)
    have a: "accepted c' = accepted c @ [?n]" "resolved c' = resolved c" "live c' = live c @ [?n]"
        "sc_wakers c' = sc_wakers c" "sc_slot c' = Some (drained_slot ?c1 p1)"
      by (simp_all add: c' accepted_def resolved_def drain_producer_outbound_spec live_def pend_ops_def ps Some)
    have new: "?n \<notin> set (accepted c)" using inv Some by (auto simp: sc_inv_def slot_ok_def)
    have "slot_ok c'"
      using inv Some ok1 ps(4) by (auto simp: slot_ok_def a sc_inv_def less_Suc_eq)
    moreover have "dom (hm_get (sc_wakers c')) \<subseteq> set (accepted c')"
      using sc_inv_slab [OF inv] unfolding a by auto
    ultimately have "sc_inv c'" using inv new unfolding sc_inv_def a by simp
    moreover have "send_spec (sc_abs c) (sc_abs c')"
      using inv new send_spec.accept [of ?n "set (live c)" "resolved c"]
      by (simp add: sc_abs_def a sc_inv_def)
    ultimately show ?thesis ..
  qed
qed

section \<open>Every step\<close>

lemma sc_step_inv:
  assumes "sc_step env c c'" and inv: "sc_inv c"
  shows "sc_inv c' \<and> send_spec (sc_abs c) (sc_abs c')"
proof -
  have ok: "\<exists>S. settles S c x \<Longrightarrow> c' = x \<Longrightarrow> ?thesis" for x using settles_step [OF inv] by auto
  have ok0: "settles {} c x \<Longrightarrow> c' = x \<Longrightarrow> ?thesis" for x using settles_step [OF inv] by auto
  show ?thesis
    using assms(1)
  proof cases
    case (send uuid msg r t now)
    show ?thesis by (rule send_step [OF inv send(2,1)])
  next
    case flush
    show ?thesis by (rule ok0 [OF flush_settles [OF inv] flush])
  next
    case receipt
    show ?thesis by (rule ok [OF receipt_settles [OF inv] receipt])
  next
    case send_error
    show ?thesis by (rule ok [OF error_settles [OF inv] send_error])
  next
    case success
    show ?thesis by (rule ok0 [OF success_settles [OF inv] success])
  next
    case closed_by_broker
    show ?thesis by (rule ok0 [OF close_by_broker_settles [OF inv] closed_by_broker])
  next
    case reset
    show ?thesis by (rule ok [OF reset_settles [OF inv] reset])
  next
    case connected
    show ?thesis by (rule ok0 [OF connected_settles [OF inv] connected])
  next
    case (rebuild rid)
    show ?thesis by (rule ok0 [OF rebuild_settles [OF inv rebuild(2)] rebuild(1)])
  next
    case give_up
    show ?thesis by (rule ok [OF give_up_settles [OF inv] give_up])
  next
    case open_failed
    show ?thesis by (rule ok [OF open_failed_settles [OF inv] open_failed])
  next
    case close
    show ?thesis by (rule ok0 [OF close_settles [OF inv] close])
  next
    case close_acked
    show ?thesis by (rule ok [OF close_acked_settles [OF inv] close_acked])
  next
    case timeouts
    show ?thesis by (rule ok [OF timeouts_settles [OF inv] timeouts])
  next
    case (register s w)
    show ?thesis by (rule ok0 [OF settles_register [OF inv register(2)] register(1)])
  next
    case unregister
    show ?thesis by (rule ok0 [OF settles_unregister [OF inv] unregister])
  next
    case consume
    show ?thesis by (rule ok0 [OF consume_settles [OF inv] consume])
  qed
qed

lemma sc_inv_init:
  assumes "pr_ok p" and "pr_pending p = []"
  shows "sc_inv (sc_init p rid)"
  using assms by (auto simp: sc_inv_def sc_init_def live_def pend_ops_def accepted_def resolved_def slot_ok_def)

lemma sc_reach_inv: "sc_reach env c0 c \<Longrightarrow> sc_inv c0 \<Longrightarrow> sc_inv c"
  by (induction rule: sc_reach.induct) (auto dest: sc_step_inv)

section \<open>Properties\<close>

lemma create_slot_ok: "pr_ok (create_slot h m ep req)" "pr_pending (create_slot h m ep req) = []"
    "pr_pending_index (create_slot h m ep req) = []"
    "pr_send_timeout (create_slot h m ep req) = cp_send_timeout req"
  by (simp_all add: create_slot_def pr_new_def set_initial_sequence_id_def Let_def pr_ok_def keyed_def fresh_def
      batch_ok_def bc_default_def split: option.split)

lemma reach_created: "sc_reach env (sc_init (create_slot h m ep req) rid) c \<Longrightarrow> sc_inv c"
  using sc_reach_inv sc_inv_init create_slot_ok(1,2) by blast

definition env0 :: prod_env where
  "env0 = \<lparr>pe_compress = (\<lambda>_ _. None), pe_enc_single = (\<lambda>_. [])\<rparr>"

definition req0 :: create_producer_request where
  "req0 = \<lparr>cp_topic = ''t'', cp_producer_name = None, cp_initial_sequence_id = None, cp_compression = CkNone,
     cp_enable_batching = False, cp_enable_chunking = False, cp_max_batch_size_bytes = 1000,
     cp_max_messages_in_batch = 10, cp_send_timeout = None, cp_batching_max_publish_delay = None,
     cp_access_mode = 0\<rparr>"

definition msg0 :: outgoing_message where
  "msg0 = \<lparr>om_payload = [1, 2, 3], om_metadata = default_metadata, om_uncompressed_size = 3, om_num_messages = 1,
     om_txn_id = None, om_source_message_id = None\<rparr>"

abbreviation conn0 :: send_conn where
  "conn0 \<equiv> sc_init (create_slot 1 100 0 req0) 1"

text \<open>A send, a lost session, and the reconnect.\<close>

definition conn1 :: send_conn where
  "conn1 = conn_reset (fst (send_reserved env0 [] msg0 no_reservation 5 7 conn0))"

lemma conn1_reach: "sc_reach env0 conn0 conn1"
  unfolding conn1_def
  by (rule sc_reach.more [OF sc_reach.more [OF sc_reach.start sc_step.send] sc_step.reset])
     (simp add: sc_init_def create_slot_def req0_def pr_new_def Let_def)

lemmas run_defs = conn_reset_def send_reserved_def sc_init_def create_slot_def pr_new_def
  Let_def queue_send_reserved_def select_path_def bc_is_empty_def bc_default_def can_add_to_batch_def
  compress_unbatched_def msg0_def emit_single_def assign_sequence_id_def push_pending_def new_op_def
  drained_slot_def drain_producer_outbound_def reset_slot_def snapshot_pending_sends_def
  wrap_add64_def u64_as_i64_def accepted_def resolved_def live_def pend_ops_def wake_replayed_def wake_slab_def

lemma conn1_state: "live conn1 = [0]" "accepted conn1 = [0]" "resolved conn1 = {}"
  by (simp_all add: conn1_def run_defs req0_def drain_producer_outbound_spec)

lemma conn1_slot: "\<exists>p op. sc_slot conn1 = Some p \<and> sc_snapshots conn1 = [op] \<and> op_sequence_id op = 0"
  by (simp add: conn1_def run_defs req0_def drain_producer_outbound_spec)





text \<open>
  C5. A send saved by a reset is lost when its producer was closed before the reconnect:
  \<open>rebuild_producers\<close> drops the bucket, after which the send is neither live nor resolved.
\<close>

theorem rebuild_drops_closed_sends:
  assumes "sc_reach env (sc_init (create_slot h max_size epoch req) rid) c"
    and "sc_slot c = Some p" and "pr_closed p" and "op \<in> set (sc_snapshots c)"
  shows "op_sequence_id op \<in> set (accepted (rebuild_producers rid' c)) \<and>
    op_sequence_id op \<notin> set (live (rebuild_producers rid' c)) \<and>
    op_sequence_id op \<notin> resolved (rebuild_producers rid' c)"
proof -
  have i: "sc_inv c" by (rule reach_created [OF assms(1)])
  have e: "rebuild_producers rid' c = c\<lparr>sc_snapshots := []\<rparr>" using assms(2,3) by (simp add: rebuild_producers_def)
  have s: "op_sequence_id op \<in> set (live c)" using assms(4) by (simp add: live_def)
  have "op_sequence_id op \<notin> op_sequence_id ` set (pr_pending p)"
    using i assms(4) unfolding sc_inv_def live_slot [OF assms(2)] by auto
  moreover have "accepted (c\<lparr>sc_snapshots := []\<rparr>) = accepted c" "resolved (c\<lparr>sc_snapshots := []\<rparr>) = resolved c"
      "live (c\<lparr>sc_snapshots := []\<rparr>) = map op_sequence_id (pr_pending p)"
    using assms(2) by (simp_all add: accepted_def resolved_def live_def pend_ops_def)
  ultimately show ?thesis using i s by (auto simp: e sc_inv_def)
qed

theorem rebuild_drops_closed_sends_witness:
  "0 \<in> set (accepted (rebuild_producers 8 (close_producer 7 conn1))) \<and>
   0 \<notin> set (live (rebuild_producers 8 (close_producer 7 conn1))) \<and>
   0 \<notin> resolved (rebuild_producers 8 (close_producer 7 conn1))"
proof -
  obtain p op where s: "sc_slot conn1 = Some p" "sc_snapshots conn1 = [op]" "op_sequence_id op = 0"
    using conn1_slot by blast
  have r: "sc_reach env0 conn0 (close_producer 7 conn1)"
    by (rule sc_reach.more [OF conn1_reach sc_step.close])
  show ?thesis
    using rebuild_drops_closed_sends [OF r, of "(pr_close p)\<lparr>pr_close_request := Some 7\<rparr>" op 8] s
    by (simp add: close_producer_def pr_close_def)
qed

end
