(* ===== verification/Send_Wakeups.thy ===== *)
theory Send_Wakeups
  imports Send_Session
begin

text \<open>
  Wake-ups of the send futures. A future parks a waker, on its pending send or in the connection's
  slab; this theory shows that the waker is woken by the time the send is resolved, as long as no
  send timeout is configured, and that a send timeout can break this.
\<close>

section \<open>Parked futures\<close>

text \<open>
  The wakers registered and not yet woken, from the log: a wake counts only when it reaches the
  waker that was registered last.
\<close>

fun wait_step :: "send_event \<Rightarrow> (nat \<Rightarrow> waker option) \<Rightarrow> nat \<Rightarrow> waker option" where
  "wait_step (Accepted s) W = W"
| "wait_step (Registered s w) W = W(s := Some w)"
| "wait_step (Unregistered s) W = W(s := None)"
| "wait_step (Resolved s out) W = W"
| "wait_step (Woke s w) W = (if W s = Some w then W(s := None) else W)"

definition waiting :: "send_conn \<Rightarrow> nat \<Rightarrow> waker option" where
  "waiting c = fold wait_step (sc_log c) (\<lambda>_. None)"

definition parks :: "op_send \<Rightarrow> (nat, waker) hashmap \<Rightarrow> waker \<Rightarrow> bool" where
  "parks op slab w \<longleftrightarrow> op_waker op = Some w \<or> op_waker op = None \<and> hm_get slab (op_sequence_id op) = Some w"

text \<open>The live sends of the connection, and the sends \<open>X\<close> a handler has taken out to resolve.\<close>

definition pool :: "op_send list \<Rightarrow> send_conn \<Rightarrow> op_send list" where
  "pool X c = sc_snapshots c @ pend_ops c @ X"

definition parked :: "op_send list \<Rightarrow> send_conn \<Rightarrow> bool" where
  "parked X c \<longleftrightarrow> distinct (map op_sequence_id (pool X c)) \<and>
     (\<forall>s w. waiting c s = Some w \<longrightarrow> (\<exists>op\<in>set (pool X c). op_sequence_id op = s \<and> parks op (sc_wakers c) w))"

lemma waiting_append: "sc_log c' = sc_log c @ evs \<Longrightarrow> waiting c' = fold wait_step evs (waiting c)"
  by (simp add: waiting_def)

lemma parkedE:
  assumes "parked X c" and "waiting c s = Some w"
  obtains op where "op \<in> set (pool X c)" "op_sequence_id op = s" "parks op (sc_wakers c) w"
  using assms by (auto simp: parked_def)

text \<open>Moving sends between the slot, the bucket and the handler keeps them parked.\<close>

lemma parked_move:
  assumes "parked X c" and "sc_log c' = sc_log c" and "sc_wakers c' = sc_wakers c"
    and "distinct (map op_sequence_id (pool Y c'))"
    and "\<And>op. op \<in> set (pool X c) \<Longrightarrow> \<exists>op'\<in>set (pool Y c'). op_sequence_id op' = op_sequence_id op \<and> op_waker op' = op_waker op"
  shows "parked Y c'"
proof -
  have w: "waiting c' = waiting c" using assms(2) by (simp add: waiting_def)
  have "\<exists>op\<in>set (pool Y c'). op_sequence_id op = s \<and> parks op (sc_wakers c') w" if "waiting c' s = Some w" for s w
  proof -
    obtain op where op: "op \<in> set (pool X c)" "op_sequence_id op = s" "parks op (sc_wakers c) w"
      using parkedE [OF assms(1)] \<open>waiting c' s = Some w\<close> w by metis
    obtain op' where "op' \<in> set (pool Y c')" "op_sequence_id op' = op_sequence_id op" "op_waker op' = op_waker op"
      using assms(5) [OF op(1)] by blast
    then show ?thesis using op(2,3) assms(3) by (auto simp: parks_def)
  qed
  then show ?thesis using assms(4) by (simp add: parked_def)
qed

section \<open>Waking\<close>

text \<open>\<open>wakes op c c'\<close>: whoever is parked on \<open>op\<close> is woken, and nobody else is touched.\<close>

definition wakes :: "op_send \<Rightarrow> send_conn \<Rightarrow> send_conn \<Rightarrow> bool" where
  "wakes op c c' \<longleftrightarrow> sc_slot c' = sc_slot c \<and> sc_snapshots c' = sc_snapshots c \<and>
     (\<forall>s. s \<noteq> op_sequence_id op \<longrightarrow> waiting c' s = waiting c s \<and> hm_get (sc_wakers c') s = hm_get (sc_wakers c) s) \<and>
     (\<forall>w. waiting c (op_sequence_id op) = Some w \<longrightarrow> parks op (sc_wakers c) w \<longrightarrow> waiting c' (op_sequence_id op) = None) \<and>
     (waiting c (op_sequence_id op) = None \<longrightarrow> waiting c' (op_sequence_id op) = None)"

lemma wakes_parked:
  assumes p: "parked (op # X) c" and k: "wakes op c c'"
  shows "parked X c'"
proof -
  let ?s = "op_sequence_id op"
  have d: "distinct (map op_sequence_id (pool (op # X) c))" using p by (simp add: parked_def)
  have pool: "pool X c' = sc_snapshots c @ pend_ops c @ X"
    using k by (simp add: pool_def pend_ops_def wakes_def)
  have inj: "inj_on op_sequence_id (set (pool (op # X) c))" using d by (simp add: distinct_map)
  have "op \<in> set (pool (op # X) c)" by (simp add: pool_def)
  have none: "waiting c' ?s = None"
  proof (cases "waiting c ?s")
    case None
    then show ?thesis using k by (simp add: wakes_def)
  next
    case (Some w)
    obtain x where x: "x \<in> set (pool (op # X) c)" "op_sequence_id x = ?s" "parks x (sc_wakers c) w"
      using parkedE [OF p Some] by blast
    have "x = op" by (rule inj_onD [OF inj x(2) x(1) \<open>op \<in> set (pool (op # X) c)\<close>])
    then show ?thesis using k Some x(3) by (simp add: wakes_def)
  qed
  have "\<exists>x\<in>set (pool X c'). op_sequence_id x = s \<and> parks x (sc_wakers c') w" if w: "waiting c' s = Some w" for s w
  proof -
    have s: "s \<noteq> ?s" using none w by auto
    then have "waiting c s = Some w" using w k by (simp add: wakes_def)
    then obtain x where x: "x \<in> set (pool (op # X) c)" "op_sequence_id x = s" "parks x (sc_wakers c) w"
      using parkedE [OF p] by blast
    have "x \<in> set (pool X c')" using x(1,2) s by (simp add: pool) (auto simp: pool_def)
    moreover have "hm_get (sc_wakers c') s = hm_get (sc_wakers c) s" using k s by (simp add: wakes_def)
    ultimately show ?thesis using x(2,3) by (auto simp: parks_def)
  qed
  moreover have "distinct (map op_sequence_id (pool X c'))" using d by (simp add: pool) (simp add: pool_def)
  ultimately show ?thesis by (simp add: parked_def)
qed

lemma wakes_fold:
  assumes "\<And>op c. wakes (g op) c (f op c)"
  shows "parked (map g ops @ X) c \<Longrightarrow> parked X (fold f ops c)"
proof (induction ops arbitrary: c)
  case Nil
  then show ?case by simp
next
  case (Cons op ops)
  have "parked (map g ops @ X) (f op c)" using Cons.prems by (intro wakes_parked [OF _ assms]) simp
  then show ?case using Cons.IH by simp
qed

lemma wakes_slab_none: "op_waker op = None \<Longrightarrow> wakes op c (wake_slab (op_sequence_id op) c)"
  by (cases "hm_get (sc_wakers c) (op_sequence_id op)")
     (auto simp: wakes_def wake_slab_def parks_def sc_wake_def waiting_def)

lemma wakes_error: "wakes op c (resolve_send_error (op_sequence_id op) code m (op_waker op) c)"
  by (cases "hm_get (sc_wakers c) (op_sequence_id op)"; cases "op_waker op")
     (auto simp: wakes_def resolve_send_error_def Let_def insert_outcome_def parks_def sc_wake_def waiting_def)

lemma wakes_terminal: "wakes op c (terminalize_drained_send reason op c)"
  by (cases "hm_get (sc_wakers c) (op_sequence_id op)"; cases "op_waker op")
     (auto simp: wakes_def terminalize_drained_send_def Let_def insert_outcome_def parks_def sc_wake_def waiting_def)

lemma wakes_snapshot: "wakes op c (terminalize_snapshot reason op c)"
  by (cases "hm_get (sc_wakers c) (op_sequence_id op)"; cases "op_waker op")
     (auto simp: wakes_def terminalize_snapshot_def wake_slab_def Let_def insert_outcome_def parks_def sc_wake_def waiting_def)

lemma wakes_receipt: "wakes (fst x) c (resolve_receipt x c)"
  by (cases "hm_get (sc_wakers c) (op_sequence_id (fst x))"; cases "op_waker (fst x)")
     (auto simp: wakes_def resolve_receipt_def case_prod_beta wake_slab_def Let_def insert_outcome_def parks_def
       sc_wake_def waiting_def)

lemma wakes_replayed: "wakes op c (wake_replayed (op_sequence_id op, op_waker op) c)"
  by (cases "hm_get (sc_wakers c) (op_sequence_id op)"; cases "op_waker op")
     (auto simp: wakes_def wake_replayed_def wake_slab_def parks_def sc_wake_def waiting_def)

text \<open>Waking from the slab harms nobody.\<close>

lemma parked_wake_slab: "parked X c \<Longrightarrow> parked X (wake_slab s c)"
proof (cases "hm_get (sc_wakers c) s")
  case None
  moreover assume "parked X c"
  ultimately show ?thesis by (simp add: wake_slab_def)
next
  case (Some v)
  assume p: "parked X c"
  let ?c = "wake_slab s c"
  have pool: "pool X ?c = pool X c" by (simp add: pool_def pend_ops_def wake_slab_def Some sc_wake_def)
  have W: "waiting ?c = (if waiting c s = Some v then (waiting c)(s := None) else waiting c)"
    by (simp add: wake_slab_def Some sc_wake_def waiting_def)
  have slab: "hm_get (sc_wakers ?c) = (hm_get (sc_wakers c))(s := None)"
    by (rule ext) (simp add: wake_slab_def Some sc_wake_def)
  have "\<exists>op\<in>set (pool X c). op_sequence_id op = s' \<and> parks op (sc_wakers ?c) w" if w: "waiting ?c s' = Some w" for s' w
  proof -
    have w': "waiting c s' = Some w" and "s' = s \<Longrightarrow> w \<noteq> v" using w W by (auto split: if_splits)
    obtain op where op: "op \<in> set (pool X c)" "op_sequence_id op = s'" "parks op (sc_wakers c) w"
      using parkedE [OF p w'] by blast
    have "parks op (sc_wakers ?c) w" using op(2,3) Some \<open>s' = s \<Longrightarrow> w \<noteq> v\<close> by (auto simp: parks_def slab)
    then show ?thesis using op(1,2) by blast
  qed
  then show ?thesis using p pool by (simp add: parked_def)
qed

lemma parked_fold_slab: "parked X c \<Longrightarrow> parked X (fold wake_slab ks c)"
  by (induction ks arbitrary: c) (simp_all add: parked_wake_slab)

lemma parked_insert_outcome: "parked X c \<Longrightarrow> parked X (insert_outcome s out c)"
  by (simp add: parked_def waiting_def insert_outcome_def pool_def pend_ops_def)

section \<open>The invariant\<close>

definition slot_idx :: "send_conn \<Rightarrow> bool" where
  "slot_idx c \<longleftrightarrow> (\<forall>p. sc_slot c = Some p \<longrightarrow> pr_indexed p \<and> pr_send_timeout p = None)"

definition wk :: "send_conn \<Rightarrow> bool" where
  "wk c \<longleftrightarrow> parked [] c \<and> (\<forall>op\<in>set (sc_snapshots c). op_waker op = None) \<and> slot_idx c"

lemma pool_live: "map op_sequence_id (pool [] c) = live c"
  by (simp add: pool_def live_def)

lemma parked_same:
  "parked X c \<Longrightarrow> sc_log c' = sc_log c \<Longrightarrow> sc_wakers c' = sc_wakers c \<Longrightarrow> pool X c' = pool X c \<Longrightarrow> parked X c'"
  by (simp add: parked_def waiting_def)

lemma wk_same:
  "wk c \<Longrightarrow> sc_log c' = sc_log c \<Longrightarrow> sc_wakers c' = sc_wakers c \<Longrightarrow> sc_snapshots c' = sc_snapshots c \<Longrightarrow>
     pend_ops c' = pend_ops c \<Longrightarrow> slot_idx c' \<Longrightarrow> wk c'"
  by (auto simp: wk_def pool_def intro: parked_same)

lemma slot_idxD: "wk c \<Longrightarrow> sc_slot c = Some p \<Longrightarrow> pr_indexed p \<and> pr_send_timeout p = None"
  by (simp add: wk_def slot_idx_def)

lemma flush_wk: "wk c \<Longrightarrow> wk (flush_producer env t now c)"
  by (rule wk_same)
     (auto simp: flush_producer_def drain_producer_outbound_spec pend_ops_def slot_idx_def dest: slot_idxD split: option.splits)

lemma connected_wk: "wk c \<Longrightarrow> wk (on_connected c)"
  by (rule wk_same) (auto simp: on_connected_def pend_ops_def slot_idx_def dest: slot_idxD)

lemma consume_wk: "wk c \<Longrightarrow> wk (fst (take_outcome s c))"
  by (rule wk_same) (auto simp: take_outcome_def pend_ops_def slot_idx_def dest: slot_idxD)

lemma close_wk: "wk c \<Longrightarrow> wk (close_producer rid c)"
  by (rule wk_same)
     (auto simp: close_producer_def pr_close_def pend_ops_def slot_idx_def dest: slot_idxD split: option.splits)

lemma closed_by_broker_wk: "wk c \<Longrightarrow> wk (on_close_producer rid c)"
  by (rule wk_same [of c])
     (auto simp: on_close_producer_def pend_ops_def slot_idx_def dest: slot_idxD split: option.splits if_splits)

lemma rebuild_wk:
  assumes "wk c" and "\<And>p. sc_slot c = Some p \<Longrightarrow> pr_closed p \<Longrightarrow> sc_snapshots c = []"
    and "sc_slot c = None \<Longrightarrow> sc_snapshots c = []"
  shows "wk (rebuild_producers rid c)"
  by (rule wk_same [OF assms(1)])
     (use assms(2,3) slot_idxD [OF assms(1)] in
       \<open>auto simp: rebuild_producers_def pend_ops_def slot_idx_def split: option.splits if_splits\<close>)

lemma timeouts_wk: "wk c \<Longrightarrow> wk (sweep_send_timeouts now c)"
proof -
  assume w: "wk c"
  have l: "sweep_live_sends now c = c\<lparr>sc_slot := sc_slot c\<rparr>"
    using slot_idxD [OF w] by (auto simp: sweep_live_sends_def drain_timed_out_sends_def split: option.split)
  have "sweep_snapshot_sends now c = c"
    using slot_idxD [OF w] by (auto simp: sweep_snapshot_sends_def split: option.split)
  then show ?thesis using w l by (simp add: sweep_send_timeouts_def)
qed

lemma send_wk:
  assumes w: "wk c" and inv: "sc_inv c" and inv': "sc_inv c'"
    and c': "c' = fst (send_reserved env uuid msg r t now c)"
  shows "wk c'"
proof (cases "sc_slot c")
  case None
  then show ?thesis using w by (simp add: c' send_reserved_def)
next
  case (Some p)
  note i = slot_idxD [OF w Some] and ok = sc_inv_slot [OF inv Some]
  show ?thesis
  proof (cases rule: queue_send_cases [of env uuid p msg r t now])
    case (refused p1 e)
    have "pr_pending p1 = pr_pending p" "pr_pending_index p1 = pr_pending_index p" "pr_send_timeout p1 = pr_send_timeout p"
      using refused(2) by auto
    then show ?thesis
      using Some i by (intro wk_same [OF w]) (auto simp: c' send_reserved_def refused(1) pend_ops_def slot_idx_def)
  next
    case (queued p1 op d)
    have ps: "pr_pending p1 = pr_pending p @ [op]" "pr_send_timeout p1 = pr_send_timeout p" "pr_indexed p1"
      using queued(2) pushed_indexed [OF conjunct1 [OF i] _ queued(2)] ok by (simp_all add: pushed_def pr_ok_def)
    obtain n where log: "sc_log c' = sc_log c @ [Accepted n]"
      by (simp add: c' send_reserved_def Some queued(1) Let_def drain_producer_outbound_spec)
    have f: "sc_snapshots c' = sc_snapshots c" "sc_wakers c' = sc_wakers c" "pend_ops c' = pend_ops c @ [op]" "slot_idx c'"
      using ps i by (simp_all add: c' send_reserved_def Some queued(1) Let_def drain_producer_outbound_spec
          pend_ops_def slot_idx_def)
    have W: "waiting c' = waiting c" using log by (simp add: waiting_def)
    have pool: "pool [] c' = pool [] c @ [op]" by (simp add: pool_def f)
    have "distinct (map op_sequence_id (pool [] c'))" using inv' by (simp add: sc_inv_def pool_live)
    moreover have "parked [] c" using w by (simp add: wk_def)
    ultimately have "parked [] c'" unfolding parked_def W pool f by auto
    then show ?thesis using w f by (simp add: wk_def)
  qed
qed

section \<open>Resolving handlers\<close>

text \<open>A handler that takes sends out of the slot and wakes them.\<close>

lemma taken_parked:
  assumes w: "wk c" and p: "sc_slot c = Some p"
    and d: "distinct (map op_sequence_id (sc_snapshots c @ pr_pending p' @ X))"
    and m: "\<And>op. op \<in> set (pr_pending p) \<Longrightarrow>
      \<exists>op'\<in>set (pr_pending p' @ X). op_sequence_id op' = op_sequence_id op \<and> op_waker op' = op_waker op"
  shows "parked X (c\<lparr>sc_slot := Some p'\<rparr>)"
proof (rule parked_move [of "[]" c])
  show "parked [] c" using w by (simp add: wk_def)
  show "distinct (map op_sequence_id (pool X (c\<lparr>sc_slot := Some p'\<rparr>)))"
    using d by (simp add: pool_def pend_ops_def)
  fix op assume "op \<in> set (pool [] c)"
  then consider "op \<in> set (sc_snapshots c)" | "op \<in> set (pr_pending p)" by (auto simp: pool_def pend_ops_def p)
  then show "\<exists>op'\<in>set (pool X (c\<lparr>sc_slot := Some p'\<rparr>)). op_sequence_id op' = op_sequence_id op \<and> op_waker op' = op_waker op"
  proof cases
    case 1
    then show ?thesis by (auto simp: pool_def)
  next
    case 2
    then show ?thesis using m [OF 2] by (auto simp: pool_def pend_ops_def)
  qed
qed simp_all

lemma wk_resolved:
  assumes "parked [] c'" and "resolves S c1 c'" and "\<forall>op\<in>set (sc_snapshots c1). op_waker op = None" and "slot_idx c1"
  shows "wk c'"
  using assms by (simp add: wk_def resolves_def slot_idx_def)

lemma wk_snaps: "wk c \<Longrightarrow> \<forall>op\<in>set (sc_snapshots c). op_waker op = None"
  by (simp add: wk_def)

lemma receipt_wk:
  assumes w: "wk c" and inv: "sc_inv c"
  shows "wk (on_send_receipt receipt now c)"
proof (cases "sc_slot c")
  case None
  then show ?thesis using w by (simp add: on_send_receipt_def)
next
  case (Some p)
  obtain p' rs where h: "handle_send_receipt p receipt now = (p', rs)" by fastforce
  note sp = handle_send_receipt_spec [OF sc_inv_slot [OF inv Some] h]
  let ?I = "{sr_sequence_id receipt..receipt_highest receipt}"
  let ?c1 = "c\<lparr>sc_slot := Some p'\<rparr>"
  have e: "on_send_receipt receipt now c = fold resolve_receipt rs ?c1" by (simp add: on_send_receipt_def Some h)
  have m: "map op_sequence_id (map fst rs) =
      filter (\<lambda>k. k \<in> op_sequence_id ` set (pr_pending p)) [sr_sequence_id receipt..<receipt_highest receipt + 1]"
    using sp(3) by (simp add: case_prod_beta' comp_def del: upt_Suc)
  have S_aux: "set (filter (\<lambda>k. k \<in> op_sequence_id ` set (pr_pending p))
      [sr_sequence_id receipt..<receipt_highest receipt + 1]) = op_sequence_id ` set (pr_pending p) \<inter> ?I"
    by (auto simp del: upt_Suc)
  have S: "op_sequence_id ` set (map fst rs) = op_sequence_id ` set (pr_pending p) \<inter> ?I"
    using m by (metis (no_types, lifting) S_aux list.set_map)
  have dp: "distinct (map op_sequence_id (sc_snapshots c @ pr_pending p))"
    using inv live_slot [OF Some] by (simp add: sc_inv_def)
  have dr: "distinct (map op_sequence_id (map fst rs))" unfolding m by (simp del: upt_Suc)
  have dj: "op_sequence_id ` set (pr_pending p') \<inter> op_sequence_id ` set (map fst rs) = {}"
    unfolding S by (auto simp: sp(2))
  have dj2: "op_sequence_id ` set (sc_snapshots c) \<inter> op_sequence_id ` set (pr_pending p) = {}"
    using dp by simp
  have sub: "op_sequence_id ` set (pr_pending p') \<subseteq> op_sequence_id ` set (pr_pending p)"
      "op_sequence_id ` set (map fst rs) \<subseteq> op_sequence_id ` set (pr_pending p)"
    unfolding S by (auto simp: sp(2))
  have "op_sequence_id ` set (sc_snapshots c) \<inter>
      (op_sequence_id ` set (pr_pending p') \<union> op_sequence_id ` set (map fst rs)) = {}"
    using dj2 sub by blast
  moreover have "distinct (map op_sequence_id (pr_pending p'))" using dp by (simp add: sp(2) distinct_map_filter)
  ultimately have d: "distinct (map op_sequence_id (sc_snapshots c @ pr_pending p' @ map fst rs))"
    using dp dr dj by (simp only: map_append distinct_append set_append set_map simp_thms)
  have "parked (map fst rs) ?c1"
  proof (rule taken_parked [OF w Some d])
    fix op assume op: "op \<in> set (pr_pending p)"
    show "\<exists>op'\<in>set (pr_pending p' @ map fst rs). op_sequence_id op' = op_sequence_id op \<and> op_waker op' = op_waker op"
    proof (cases "op_sequence_id op \<in> ?I")
      case False
      then show ?thesis using op by (auto simp: sp(2))
    next
      case True
      then have "op_sequence_id op \<in> op_sequence_id ` set (map fst rs)" unfolding S using op by blast
      then obtain x where x: "x \<in> set rs" "op_sequence_id (fst x) = op_sequence_id op" by auto
      obtain op' where op': "op' \<in> set (pr_pending p)" "op_sequence_id (fst x) = op_sequence_id op'" "op_waker (fst x) = op_waker op'"
        using sp(7) x(1) by blast
      have "inj_on op_sequence_id (set (pr_pending p))" using dp by (simp add: distinct_map)
      then have "op' = op" by (rule inj_onD) (use op op' x(2) in simp_all)
      then have "op_waker (fst x) = op_waker op" using op'(3) by simp
      moreover have "fst x \<in> set (pr_pending p' @ map fst rs)" using x(1) by simp
      ultimately show ?thesis using x(2) by blast
    qed
  qed
  then have pk: "parked [] (fold resolve_receipt rs ?c1)"
    using wakes_fold [of fst resolve_receipt rs "[]", OF wakes_receipt] by simp
  have si: "slot_idx ?c1" using sp(4,5) slot_idxD [OF w Some] by (simp add: slot_idx_def)
  have sn: "\<forall>op\<in>set (sc_snapshots ?c1). op_waker op = None" using wk_snaps [OF w] by simp
  show ?thesis unfolding e by (rule wk_resolved [OF pk resolves_fold [OF resolves_receipt] sn si])
qed

text \<open>The error arm wakes like the receipt arm.\<close>

lemma wakes_insert_slab:
  "wakes op c (case op_waker op of Some w \<Rightarrow> sc_wake (op_sequence_id op) w (insert_outcome (op_sequence_id op) out c)
     | None \<Rightarrow> wake_slab (op_sequence_id op) (insert_outcome (op_sequence_id op) out c))"
  by (cases "hm_get (sc_wakers c) (op_sequence_id op)"; cases "op_waker op")
     (auto simp: wakes_def wake_slab_def insert_outcome_def parks_def sc_wake_def waiting_def)

lemma error_wk:
  assumes w: "wk c" and inv: "sc_inv c"
  shows "wk (on_send_error err c)"
proof (cases "sc_slot c")
  case None
  then show ?thesis using w by (simp add: on_send_error_def)
next
  case (Some p)
  obtain p' r where h: "handle_send_error p err = (p', r)" by fastforce
  note sp = handle_send_error_spec [OF sc_inv_slot [OF inv Some] h]
  let ?c1 = "c\<lparr>sc_slot := Some p'\<rparr>"
  have si: "slot_idx ?c1" using sp(4,5) slot_idxD [OF w Some] by (simp add: slot_idx_def)
  have sn: "\<forall>op\<in>set (sc_snapshots ?c1). op_waker op = None" using wk_snaps [OF w] by simp
  have dp: "distinct (map op_sequence_id (sc_snapshots c @ pr_pending p))"
    using inv live_slot [OF Some] by (simp add: sc_inv_def)
  show ?thesis
  proof (cases r)
    case None
    then have "se_sequence_id err \<notin> op_sequence_id ` set (pr_pending p)" using sp(3) by (auto split: if_splits)
    then have same: "pr_pending p' = pr_pending p" using sp(2) by (simp add: filter_absent)
    then have "parked [] ?c1" using taken_parked [OF w Some, of p' "[]"] dp by auto
    then show ?thesis using si sn by (simp add: on_send_error_def Some h None wk_def)
  next
    case r: (Some x)
    then obtain op code msg where op: "op \<in> set (pr_pending p)" "x = (op, code, msg)" "op_sequence_id op = se_sequence_id err"
      using sp(3) by (auto split: if_splits)
    have inj: "inj_on op_sequence_id (set (pr_pending p))" using dp by (simp add: distinct_map)
    have "parked [op] ?c1"
    proof (rule taken_parked [OF w Some])
      have "op_sequence_id ` set (sc_snapshots c) \<inter> op_sequence_id ` set (pr_pending p) = {}" using dp by simp
      then have "op_sequence_id op \<notin> op_sequence_id ` set (sc_snapshots c)" using op(1) by blast
      moreover have "distinct (map op_sequence_id (pr_pending p'))" using dp by (simp add: sp(2) distinct_map_filter)
      ultimately show "distinct (map op_sequence_id (sc_snapshots c @ pr_pending p' @ [op]))"
        using dp op(3) by (auto simp: sp(2))
      fix x assume x: "x \<in> set (pr_pending p)"
      show "\<exists>op'\<in>set (pr_pending p' @ [op]). op_sequence_id op' = op_sequence_id x \<and> op_waker op' = op_waker x"
      proof (cases "op_sequence_id x = se_sequence_id err")
        case True
        then have "x = op" using inj_onD [OF inj _ x op(1)] op(3) by simp
        then show ?thesis by simp
      next
        case False
        then show ?thesis using x by (auto simp: sp(2))
      qed
    qed
    then have "parked [] (on_send_error err c)"
      using wakes_parked [OF _ wakes_insert_slab, of op "[]"] by (simp add: on_send_error_def Some h r op(2) Let_def)
    moreover have "sc_slot (on_send_error err c) = sc_slot ?c1" "sc_snapshots (on_send_error err c) = sc_snapshots ?c1"
      by (simp_all add: on_send_error_def Some h r op(2) Let_def wake_slab_def sc_wake_def insert_outcome_def split: option.split)
    ultimately show ?thesis using si sn by (simp add: wk_def slot_idx_def)
  qed
qed

lemma drained_wk:
  assumes w: "wk c" and inv: "sc_inv c" and p: "sc_slot c = Some p" and q: "pr_ok q" "pr_pending q = pr_pending p"
      "pr_send_timeout q = None"
    and d: "drain_pending_sends q = (p', drained)"
  shows "wk (terminalize_drained_sends drained reason (c\<lparr>sc_slot := Some p'\<rparr>))"
proof -
  let ?c1 = "c\<lparr>sc_slot := Some p'\<rparr>"
  note sp = drain_pending_sends_spec [OF q(1) d]
  have "parked drained ?c1"
    using taken_parked [OF w p, of p' drained] sp(1,2) q(2) inv live_slot [OF p] by (auto simp: sc_inv_def)
  then have pk: "parked [] (fold (terminalize_drained_send reason) drained ?c1)"
    using wakes_fold [of "\<lambda>x. x" "terminalize_drained_send reason" drained "[]", OF wakes_terminal] by simp
  have si: "slot_idx ?c1" using sp(4,5) q(3) by (simp add: slot_idx_def)
  have sn: "\<forall>op\<in>set (sc_snapshots ?c1). op_waker op = None" using wk_snaps [OF w] by simp
  show ?thesis
    unfolding terminalize_drained_sends_def
    by (rule wk_resolved [OF pk resolves_fold_seq [OF resolves_terminal] sn si])
qed

lemma bucket_wk:
  assumes w: "wk c"
  shows "wk (terminalize_snapshot_bucket reason c)"
proof -
  let ?c1 = "c\<lparr>sc_snapshots := []\<rparr>"
  have "parked (sc_snapshots c) ?c1"
  proof (rule parked_move [of "[]" c])
    show "parked [] c" using w by (simp add: wk_def)
    then show "distinct (map op_sequence_id (pool (sc_snapshots c) ?c1))"
      by (auto simp: parked_def pool_def pend_ops_def)
  qed (auto simp: pool_def pend_ops_def)
  then have pk: "parked [] (fold (terminalize_snapshot reason) (sc_snapshots c) ?c1)"
    using wakes_fold [of "\<lambda>x. x" "terminalize_snapshot reason" "sc_snapshots c" "[]", OF wakes_snapshot] by simp
  have si: "slot_idx ?c1" using w by (simp add: slot_idx_def wk_def)
  show ?thesis
    unfolding terminalize_snapshot_bucket_def
    by (rule wk_resolved [OF pk resolves_fold_seq [OF resolves_snapshot] _ si]) simp
qed

lemma fail_slot_wk:
  assumes "wk c" and "sc_inv c"
  shows "wk (fail_slot reason c)"
proof (cases "sc_slot c")
  case None
  then show ?thesis using assms(1) by (simp add: fail_slot_def)
next
  case (Some p)
  obtain p' drained where d: "drain_pending_sends (p\<lparr>pr_closed := True\<rparr>) = (p', drained)" by fastforce
  show ?thesis
    using drained_wk [OF assms Some _ _ _ d] sc_inv_slot [OF assms(2) Some] slot_idxD [OF assms(1) Some]
    by (simp add: fail_slot_def Some d)
qed

lemma open_failed_wk:
  assumes "wk c" and "sc_inv c"
  shows "wk (fail_producer_open reason c)"
proof -
  define c1 where "c1 = terminalize_snapshot_bucket reason (fail_slot reason c)"
  have w1: "wk c1" unfolding c1_def by (rule bucket_wk [OF fail_slot_wk [OF assms]])
  have l: "live c1 = []" by (rule fail_slot_bucket(3) [OF assms(2) c1_def])
  have "wk (c1\<lparr>sc_slot := None\<rparr>)"
    by (rule wk_same [OF w1]) (use l in \<open>auto simp: live_def pend_ops_def slot_idx_def\<close>)
  then show ?thesis by (simp add: fail_producer_open_def Let_def c1_def [symmetric])
qed

lemma sweep_parked: "parked X c \<Longrightarrow> parked X (fold (sweep_terminal reason) ks c)"
  by (induction ks arbitrary: c) (simp_all add: sweep_terminal_def parked_wake_slab parked_insert_outcome)

lemma give_up_wk:
  assumes "wk c" and "sc_inv c"
  shows "wk (fail_all_pending reason c)"
proof -
  define c1 where "c1 = terminalize_snapshot_bucket reason (fail_slot reason c)"
  have w1: "wk c1" unfolding c1_def by (rule bucket_wk [OF fail_slot_wk [OF assms]])
  have "parked [] (fold (sweep_terminal reason) (map fst (sc_wakers c1)) c1)"
    using w1 by (intro sweep_parked) (simp add: wk_def)
  then have w2: "wk (fold (sweep_terminal reason) (map fst (sc_wakers c1)) c1)"
    by (rule wk_resolved [OF _ resolves_fold [OF resolves_sweep] wk_snaps [OF w1]]) (use w1 in \<open>simp add: wk_def\<close>)
  have "wk ((fold (sweep_terminal reason) (map fst (sc_wakers c1)) c1)\<lparr>sc_opens := []\<rparr>)"
    by (rule wk_same [OF w2]) (use slot_idxD [OF w2] in \<open>simp_all add: pend_ops_def slot_idx_def\<close>)
  then show ?thesis by (simp add: fail_all_pending_def Let_def c1_def [symmetric])
qed

lemma close_acked_wk:
  assumes "wk c" and "sc_inv c"
  shows "wk (fail_sends_of_closed_producer rid c)"
proof (cases "\<exists>p. sc_slot c = Some p \<and> pr_close_request p = Some rid")
  case False
  then show ?thesis using assms(1) by (auto simp: fail_sends_of_closed_producer_def split: option.split)
next
  case True
  then obtain p where p: "sc_slot c = Some p" "pr_close_request p = Some rid" by blast
  obtain p' drained where d: "drain_pending_sends p = (p', drained)" by fastforce
  show ?thesis
    using bucket_wk [OF drained_wk [OF assms p(1) sc_inv_slot [OF assms(2) p(1)] refl _ d]] slot_idxD [OF assms(1) p(1)]
    by (simp add: fail_sends_of_closed_producer_def p d)
qed

lemma success_wk:
  assumes w: "wk c" and inv: "sc_inv c"
  shows "wk (on_producer_success rid name lid c)"
proof (cases "rid \<in> set (sc_opens c) \<and> (\<exists>p. sc_slot c = Some p \<and> pr_open_request_id p = Some rid)")
  case False
  obtain ids where "on_producer_success rid name lid c = c\<lparr>sc_opens := ids\<rparr>" using success_other [OF False] by blast
  then show ?thesis
    by (simp, intro wk_same [OF w]) (use slot_idxD [OF w] in \<open>auto simp: pend_ops_def slot_idx_def\<close>)
next
  case True
  then obtain p where p: "sc_slot c = Some p" "pr_open_request_id p = Some rid" "rid \<in> set (sc_opens c)" by blast
  define p' where "p' = attach_slot name lid (sc_snapshots c) p"
  let ?c = "c\<lparr>sc_opens := removeAll rid (sc_opens c), sc_slot := Some p', sc_snapshots := []\<rparr>"
  have e: "on_producer_success rid name lid c = ?c" by (simp add: on_producer_success_def p p'_def)
  have r: "pr_pending (replay_pending_outbound q) = pr_pending q"
      "pr_pending_index (replay_pending_outbound q) = pr_pending_index q"
      "pr_send_timeout (replay_pending_outbound q) = pr_send_timeout q" for q
    by (subst replay_pending_outbound_spec(2), simp)+
  have p': "pr_pending p' = sc_snapshots c @ pr_pending p" "pr_send_timeout p' = pr_send_timeout p"
    by (simp_all add: p'_def attach_slot_def Let_def replay_snapshots_spec r)
  have "distinct (map op_sequence_id (sc_snapshots c @ pr_pending p))"
    using inv live_slot [OF p(1)] by (simp add: sc_inv_def)
  note ix = indexed_index_of_pending [OF this]
  have "pr_pending_index p' = (if sc_snapshots c \<noteq> [] then index_of_pending (sc_snapshots c @ pr_pending p) else pr_pending_index p)"
    by (simp add: p'_def attach_slot_def Let_def replay_snapshots_spec r)
  then have "pr_indexed p'"
    using slot_idxD [OF w p(1)] ix p'(1) by (cases "sc_snapshots c = []") simp_all
  then have "slot_idx ?c" using slot_idxD [OF w p(1)] p'(2) by (simp add: slot_idx_def)
  moreover have "parked [] ?c"
  proof (rule parked_same [of "[]" c])
    show "parked [] c" using w by (simp add: wk_def)
    show "pool [] ?c = pool [] c" by (simp add: pool_def pend_ops_def p(1) p'(1))
  qed simp_all
  ultimately show ?thesis unfolding e by (simp add: wk_def)
qed

lemma mset_map_split:
  "mset (map f (filter (\<lambda>x. g x \<noteq> []) xs)) + mset (map f (filter (\<lambda>x. g x = []) xs)) = mset (map f xs)"
  by (induction xs) auto

lemma reset_slot_parked:
  assumes w: "wk c" and inv: "sc_inv c" and p: "sc_slot c = Some p" and inv': "distinct (live (reset_slot p c))"
  shows "wk (reset_slot p c)"
proof -
  obtain p' ws dropped snaps where h: "snapshot_pending_sends p = (p', ws, dropped, snaps)" by (metis prod.exhaust)
  note sp = snapshot_pending_sends_spec [OF sc_inv_slot [OF inv p] h]
  let ?keep = "filter (\<lambda>op. op_replay_frames op \<noteq> []) (pr_pending p)"
  let ?err = "\<lambda>op. resolve_send_error (op_sequence_id op) BATCH_RESET_ERROR_CODE BATCH_RESET_ERROR_MESSAGE (op_waker op)"
  define c1 where "c1 = fold wake_replayed ws (c\<lparr>sc_slot := Some p'\<rparr>)"
  define c2 where "c2 = fold ?err dropped c1"
  have dp: "distinct (map op_sequence_id (sc_snapshots c @ pr_pending p))"
    using inv live_slot [OF p] by (simp add: sc_inv_def)
  have "mset (map op_sequence_id (sc_snapshots c @ ?keep @ dropped)) = mset (map op_sequence_id (sc_snapshots c @ pr_pending p))"
    unfolding sp(2) map_append mset_append mset_map_split ..
  then have d: "distinct (map op_sequence_id (sc_snapshots c @ pr_pending p' @ (?keep @ dropped)))"
    using dp by (simp only: sp(4) append_Nil) (metis mset_eq_imp_distinct_iff)
  have "parked (?keep @ dropped) (c\<lparr>sc_slot := Some p'\<rparr>)"
    by (rule taken_parked [OF w p d]) (auto simp: sp(2,4))
  then have "parked (map (\<lambda>x. x) ?keep @ dropped) (c\<lparr>sc_slot := Some p'\<rparr>)" by simp
  from wakes_fold [of "\<lambda>x. x" "\<lambda>op. wake_replayed (op_sequence_id op, op_waker op)", OF wakes_replayed this]
  have "parked dropped c1" by (simp add: c1_def sp(1) fold_map comp_def)
  then have pk: "parked [] c2"
    using wakes_fold [of "\<lambda>x. x" ?err dropped "[]" c1, OF wakes_error] by (simp add: c2_def)
  have r: "resolves (op_sequence_id ` set dropped) (c\<lparr>sc_slot := Some p'\<rparr>) c2"
    using resolves_trans [OF resolves_fold_none [of wake_replayed, OF resolves_replayed]
        resolves_fold_seq [of ?err, OF resolves_error]] by (simp add: c1_def c2_def)
  have e: "reset_slot p c = c2\<lparr>sc_snapshots := sc_snapshots c @ snaps\<rparr>"
    using r by (simp add: reset_slot_def h c1_def [symmetric] c2_def [symmetric] Let_def resolves_def)
  have "parked [] (reset_slot p c)"
  proof (rule parked_move [OF pk])
    show "distinct (map op_sequence_id (pool [] (reset_slot p c)))" using inv' by (simp add: pool_live)
  qed (use r in \<open>auto simp: e pool_def pend_ops_def resolves_def\<close>)
  moreover have "slot_idx (reset_slot p c)"
    using r sp(6,9) slot_idxD [OF w p] by (simp add: e slot_idx_def resolves_def)
  moreover have "\<forall>op\<in>set (sc_snapshots (reset_slot p c)). op_waker op = None"
    using wk_snaps [OF w] by (auto simp: e sp(3))
  ultimately show ?thesis by (simp add: wk_def)
qed

lemma reset_wk:
  assumes w: "wk c" and inv: "sc_inv c"
  shows "wk (conn_reset c)"
proof -
  define c1 where "c1 = (case sc_slot c of Some p \<Rightarrow> reset_slot p c | None \<Rightarrow> c)"
  have w1: "wk c1"
  proof (cases "sc_slot c")
    case None
    then show ?thesis using w by (simp add: c1_def)
  next
    case (Some p)
    obtain S where "settles S c (reset_slot p c)" using reset_slot_settles [OF inv Some] by blast
    then have "distinct (live (reset_slot p c))" by (simp add: settles_def)
    then show ?thesis using reset_slot_parked [OF w inv Some] by (simp add: c1_def Some)
  qed
  let ?c2 = "fold wake_slab (map fst (sc_wakers c1)) c1"
  have "wk ?c2"
    by (rule wk_resolved [OF parked_fold_slab resolves_fold_none [OF resolves_wake_slab] wk_snaps [OF w1]])
       (use w1 in \<open>simp_all add: wk_def\<close>)
  then have "wk (?c2\<lparr>sc_connected := False, sc_opens := []\<rparr>)"
    by (rule wk_same) (use slot_idxD [OF \<open>wk ?c2\<close>] in \<open>simp_all add: pend_ops_def slot_idx_def\<close>)
  then show ?thesis by (simp add: conn_reset_def Let_def c1_def [symmetric])
qed

section \<open>Registration\<close>

lemma parked_upd:
  assumes "parked [] c" and "distinct (map op_sequence_id (pool [] c'))"
    and W: "\<And>s'. s' \<noteq> s \<Longrightarrow> waiting c' s' = waiting c s'"
    and slab: "\<And>s'. s' \<noteq> s \<Longrightarrow> hm_get (sc_wakers c') s' = hm_get (sc_wakers c) s'"
    and others: "\<And>op. op \<in> set (pool [] c) \<Longrightarrow> op_sequence_id op \<noteq> s \<Longrightarrow>
      \<exists>op'\<in>set (pool [] c'). op_sequence_id op' = op_sequence_id op \<and> op_waker op' = op_waker op"
    and here: "\<And>w. waiting c' s = Some w \<Longrightarrow> \<exists>op\<in>set (pool [] c'). op_sequence_id op = s \<and> parks op (sc_wakers c') w"
  shows "parked [] c'"
proof -
  have "\<exists>op\<in>set (pool [] c'). op_sequence_id op = s' \<and> parks op (sc_wakers c') w" if w: "waiting c' s' = Some w" for s' w
  proof (cases "s' = s")
    case True
    then show ?thesis using here w by simp
  next
    case False
    have "waiting c s' = Some w" using W [OF False] w by simp
    then obtain op where op: "op \<in> set (pool [] c)" "op_sequence_id op = s'" "parks op (sc_wakers c) w"
      using parkedE [OF assms(1)] by blast
    obtain op' where op': "op' \<in> set (pool [] c')" "op_sequence_id op' = op_sequence_id op" "op_waker op' = op_waker op"
      using others [OF op(1)] op(2) False by blast
    have "parks op' (sc_wakers c') w" using op op' slab [OF False] by (simp add: parks_def)
    then show ?thesis using op'(1,2) op(2) by auto
  qed
  then show ?thesis using assms(2) by (simp add: parked_def)
qed

lemma set_waker_member:
  "op \<in> set ops \<Longrightarrow> op_sequence_id op \<noteq> s \<Longrightarrow> op \<in> set (set_waker s w ops)"
  "s \<in> op_sequence_id ` set ops \<Longrightarrow> \<exists>op\<in>set (set_waker s w ops). op_sequence_id op = s \<and> op_waker op = w"
proof -
  show "op \<in> set ops \<Longrightarrow> op_sequence_id op \<noteq> s \<Longrightarrow> op \<in> set (set_waker s w ops)"
    by (force simp: set_waker_def)
  assume "s \<in> op_sequence_id ` set ops"
  then obtain op where op: "op \<in> set ops" "op_sequence_id op = s" by auto
  then have "op\<lparr>op_waker := w\<rparr> \<in> set (set_waker s w ops)" by (force simp: set_waker_def)
  then show "\<exists>op\<in>set (set_waker s w ops). op_sequence_id op = s \<and> op_waker op = w"
    using op(2) by (intro bexI [of _ "op\<lparr>op_waker := w\<rparr>"]) simp_all
qed

lemma register_wk:
  assumes w: "wk c" and inv: "sc_inv c" and inv': "sc_inv (conn_register_waker s v c)"
    and s: "s \<in> set (accepted c)" "s \<in> resolved c \<longrightarrow> hm_get (sc_outcomes c) s \<noteq> None"
  shows "wk (conn_register_waker s v c)"
proof -
  let ?c = "conn_register_waker s v c"
  have pk: "parked [] c" using w by (simp add: wk_def)
  have d: "distinct (map op_sequence_id (pool [] ?c))" using inv' by (simp add: pool_live sc_inv_def)
  show ?thesis
  proof (cases "hm_get (sc_outcomes c) s")
    case (Some out)
    have f: "sc_slot ?c = sc_slot c" "sc_snapshots ?c = sc_snapshots c" "sc_wakers ?c = sc_wakers c"
        "waiting ?c = (waiting c)(s := None)"
      by (simp_all add: conn_register_waker_def Let_def Some sc_wake_def waiting_def)
    have pool: "pool [] ?c = pool [] c" by (simp add: pool_def pend_ops_def f)
    have "parked [] ?c" by (rule parked_upd [OF pk d, of s]) (auto simp: f pool)
    then show ?thesis using w by (simp add: wk_def slot_idx_def f)
  next
    case None
    have lv: "s \<in> set (live c)" using s None inv by (auto simp: sc_inv_def)
    show ?thesis
    proof (cases "s \<in> op_sequence_id ` set (pend_ops c)")
      case True
      then obtain p where p: "sc_slot c = Some p" by (cases "sc_slot c") (auto simp: pend_ops_def)
      have sp: "s \<in> op_sequence_id ` set (pr_pending p)" using True by (simp add: pend_ops_def p)
      let ?p = "p\<lparr>pr_pending := set_waker s (Some v) (pr_pending p)\<rparr>"
      have rw: "register_waker p s v = (?p, True)"
        using register_waker_indexed [OF conjunct1 [OF slot_idxD [OF w p]], of s v] sp by simp
      have f: "sc_slot ?c = Some ?p" "sc_snapshots ?c = sc_snapshots c" "sc_wakers ?c = sc_wakers c"
          "waiting ?c = (waiting c)(s := Some v)"
        by (simp_all add: conn_register_waker_def Let_def None p rw waiting_def)
      have pool: "pool [] ?c = sc_snapshots c @ set_waker s (Some v) (pr_pending p)" "pool [] c = sc_snapshots c @ pr_pending p"
        by (simp_all add: pool_def pend_ops_def f p)
      have "parked [] ?c"
        by (rule parked_upd [OF pk d, of s])
           (use set_waker_member(1) [of _ "pr_pending p" s "Some v"] set_waker_member(2) [OF sp, of "Some v"] in
             \<open>auto simp: f pool parks_def\<close>)
      moreover have "pr_indexed ?p"
        using wakers_only_spec(2) [OF register_slot [OF rw]] slot_idxD [OF w p] by blast
      ultimately show ?thesis using w slot_idxD [OF w p] by (simp add: wk_def slot_idx_def f)
    next
      case False
      have rw: "register_waker p s v = (p, False)" if "sc_slot c = Some p" for p
        using register_waker_indexed [OF conjunct1 [OF slot_idxD [OF w that]], of s v] False that
        by (simp add: pend_ops_def)
      have f: "sc_slot ?c = sc_slot c" "sc_snapshots ?c = sc_snapshots c" "sc_wakers ?c = hm_insert s v (sc_wakers c)"
          "waiting ?c = (waiting c)(s := Some v)"
        using rw by (cases "sc_slot c"; simp add: conn_register_waker_def Let_def None waiting_def)+
      have pool: "pool [] ?c = pool [] c" by (simp add: pool_def pend_ops_def f)
      obtain op where op: "op \<in> set (sc_snapshots c)" "op_sequence_id op = s"
        using lv False by (auto simp: live_def)
      have "op_waker op = None" using op(1) wk_snaps [OF w] by blast
      then have po: "parks op (sc_wakers ?c) v" using op(2) by (simp add: parks_def f)
      have opp: "op \<in> set (pool [] ?c)" using op(1) unfolding pool by (simp add: pool_def)
      have "parked [] ?c"
      proof (rule parked_upd [OF pk d, of s])
        fix u assume "waiting ?c s = Some u"
        then have "u = v" by (simp add: f)
        then show "\<exists>op\<in>set (pool [] ?c). op_sequence_id op = s \<and> parks op (sc_wakers ?c) u"
          using po opp op(2) by blast
      qed (auto simp: f pool)
      then show ?thesis using w by (simp add: wk_def slot_idx_def f)
    qed
  qed
qed

lemma unregister_wk:
  assumes w: "wk c" and inv': "sc_inv (conn_unregister_waker s c)"
  shows "wk (conn_unregister_waker s c)"
proof -
  let ?c = "conn_unregister_waker s c"
  have pk: "parked [] c" using w by (simp add: wk_def)
  have d: "distinct (map op_sequence_id (pool [] ?c))" using inv' by (simp add: pool_live sc_inv_def)
  have f: "sc_snapshots ?c = sc_snapshots c" "waiting ?c = (waiting c)(s := None)"
      "sc_wakers ?c = hm_remove s (sc_wakers c)" "sc_slot ?c = map_option (\<lambda>p. clear_waker p s) (sc_slot c)"
    by (simp_all add: conn_unregister_waker_def waiting_def)
  have "pend_ops ?c = set_waker s None (pend_ops c)"
    using clear_waker_indexed slot_idxD [OF w] by (cases "sc_slot c") (simp_all add: pend_ops_def f set_waker_def)
  then have pool: "pool [] ?c = sc_snapshots c @ set_waker s None (pend_ops c)" by (simp add: pool_def f)
  have "parked [] ?c"
    by (rule parked_upd [OF pk d, of s])
       (use set_waker_member(1) [of _ "pend_ops c" s None] in \<open>auto simp: f pool\<close>, auto simp: pool_def)
  moreover have "slot_idx ?c"
    using slot_idxD [OF w] wakers_only_spec(2,5) [OF clear_waker_only] by (auto simp: slot_idx_def f)
  ultimately show ?thesis using w by (simp add: wk_def f)
qed

section \<open>Every step\<close>

lemma sc_step_wk:
  assumes st: "sc_step env c c'" and inv: "sc_inv c" and w: "wk c"
  shows "wk c'"
proof -
  have inv': "sc_inv c'" using sc_step_inv [OF st inv] by blast
  show ?thesis
    using st
  proof cases
    case (send uuid msg r t now)
    show ?thesis by (rule send_wk [OF w inv inv' send(1)])
  next
    case (rebuild rid)
    show ?thesis unfolding rebuild(1) by (rule rebuild_wk [OF w rebuild(2) sc_inv_no_slot [OF inv]])
  next
    case (register s v)
    show ?thesis unfolding register(1) by (rule register_wk [OF w inv _ register(2,3)]) (use inv' register(1) in simp)
  next
    case (unregister s)
    show ?thesis unfolding unregister by (rule unregister_wk [OF w]) (use inv' unregister in simp)
  next
    case flush
    show ?thesis unfolding flush by (rule flush_wk [OF w])
  next
    case receipt
    show ?thesis unfolding receipt by (rule receipt_wk [OF w inv])
  next
    case send_error
    show ?thesis unfolding send_error by (rule error_wk [OF w inv])
  next
    case success
    show ?thesis unfolding success by (rule success_wk [OF w inv])
  next
    case closed_by_broker
    show ?thesis unfolding closed_by_broker by (rule closed_by_broker_wk [OF w])
  next
    case reset
    show ?thesis unfolding reset by (rule reset_wk [OF w inv])
  next
    case connected
    show ?thesis unfolding connected by (rule connected_wk [OF w])
  next
    case give_up
    show ?thesis unfolding give_up by (rule give_up_wk [OF w inv])
  next
    case open_failed
    show ?thesis unfolding open_failed by (rule open_failed_wk [OF w inv])
  next
    case close
    show ?thesis unfolding close by (rule close_wk [OF w])
  next
    case close_acked
    show ?thesis unfolding close_acked by (rule close_acked_wk [OF w inv])
  next
    case timeouts
    show ?thesis unfolding timeouts by (rule timeouts_wk [OF w])
  next
    case consume
    show ?thesis unfolding consume by (rule consume_wk [OF w])
  qed
qed

lemma sc_reach_wk: "sc_reach env c0 c \<Longrightarrow> sc_inv c0 \<Longrightarrow> wk c0 \<Longrightarrow> wk c"
  by (induction rule: sc_reach.induct) (auto dest: sc_step_wk sc_reach_inv)

lemma wk_init: "pr_pending p = [] \<Longrightarrow> pr_pending_index p = [] \<Longrightarrow> pr_send_timeout p = None \<Longrightarrow> wk (sc_init p rid)"
  by (simp add: wk_def sc_init_def parked_def pool_def pend_ops_def waiting_def slot_idx_def indexed_Nil)

text \<open>
  C3. No lost wake-up: on a producer without a send timeout, whatever the order of events, once a
  send is resolved no future is left asleep on it. Every waker registered for the send, on the
  pending send itself or in the connection's slab while the send waits for a reconnect, has been
  woken or replaced or withdrawn by then.
\<close>

theorem resolved_send_was_woken:
  assumes "sc_reach env (sc_init (create_slot h max_size epoch req) rid) c"
    and "cp_send_timeout req = None" and "s \<in> resolved c"
  shows "waiting c s = None"
proof (rule ccontr)
  assume "waiting c s \<noteq> None"
  then obtain w where w: "waiting c s = Some w" by blast
  have "wk (sc_init (create_slot h max_size epoch req) rid)"
    using create_slot_ok assms(2) by (intro wk_init) simp_all
  then have "parked [] c" using sc_reach_wk [OF assms(1) sc_inv_init] create_slot_ok by (simp add: wk_def)
  then have "s \<in> set (live c)" using parkedE [OF _ w] unfolding pool_live [symmetric] by (metis image_eqI list.set_map)
  then show False using reach_created [OF assms(1)] assms(3) by (auto simp: sc_inv_def)
qed

theorem resolved_send_was_woken_witness:
  "waiting (fail_all_pending ''gone'' (conn_register_waker 0 42 conn1)) 0 = None \<and>
   0 \<in> resolved (fail_all_pending ''gone'' (conn_register_waker 0 42 conn1))"
proof -
  have r: "sc_reach env0 conn0 (fail_all_pending ''gone'' (conn_register_waker 0 42 conn1))"
    by (rule sc_reach.more [OF sc_reach.more [OF conn1_reach sc_step.register] sc_step.give_up])
       (simp_all add: conn1_state)
  have "0 \<in> resolved (fail_all_pending ''gone'' (conn_register_waker 0 42 conn1))"
    by (simp add: conn1_def run_defs req0_def conn_register_waker_def register_waker_def fail_all_pending_def
        fail_slot_def drain_pending_sends_def terminalize_drained_sends_def terminalize_snapshot_bucket_def
        terminalize_snapshot_def insert_outcome_def sc_wake_def hm_remove_all_def sweep_terminal_def)
  then show ?thesis using resolved_send_was_woken [OF r] by (simp add: req0_def)
qed

section \<open>Send timeouts\<close>

definition req_timeout :: create_producer_request where
  "req_timeout = req0\<lparr>cp_send_timeout := Some 10\<rparr>"

definition receipt1 :: send_receipt where
  "receipt1 = \<lparr>sr_producer_id = 1, sr_sequence_id = 1, sr_message_id = None, sr_highest_sequence_id = None\<rparr>"

definition three_sends :: send_conn where
  "three_sends =
     fst (send_reserved env0 [] msg0 no_reservation 5 5 (fst (send_reserved env0 [] msg0 no_reservation 5 5
       (fst (send_reserved env0 [] msg0 no_reservation 5 0 (sc_init (create_slot 1 100 0 req_timeout) 1))))))"

definition stuck :: send_conn where
  "stuck = on_send_receipt receipt1 12 (conn_register_waker 1 99 (sweep_send_timeouts 10 three_sends))"

lemma three_sends_slot:
  "\<exists>p a b d. sc_slot three_sends = Some p \<and> pr_pending_index p = [(0, 0), (1, 1), (2, 2)] \<and>
   pr_pending p = [a, b, d] \<and> map op_sequence_id [a, b, d] = [0, 1, 2] \<and> map op_enqueued_at [a, b, d] = [0, 5, 5] \<and>
   map op_waker [a, b, d] = [None, None, None] \<and> pr_send_timeout p = Some 10"
  by (simp add: three_sends_def run_defs req_timeout_def req0_def)

lemma three_sends_rest:
  "sc_snapshots three_sends = []" "sc_outcomes three_sends = []" "sc_wakers three_sends = []"
  "sc_log three_sends = [Accepted 0, Accepted 1, Accepted 2]"
  by (simp_all add: three_sends_def run_defs req_timeout_def req0_def)

lemma stuck_run: "resolved stuck = {0, 1} \<and> waiting stuck 1 = Some 99 \<and>
  accepted (sweep_send_timeouts 10 three_sends) = [0, 1, 2] \<and> resolved (sweep_send_timeouts 10 three_sends) = {0}"
proof -
  obtain p a b d where p: "sc_slot three_sends = Some p" "pr_pending_index p = [(0, 0), (1, 1), (2, 2)]"
    "pr_pending p = [a, b, d]" "map op_sequence_id [a, b, d] = [0, 1, 2]" "map op_enqueued_at [a, b, d] = [0, 5, 5]"
    "map op_waker [a, b, d] = [None, None, None]" "pr_send_timeout p = Some 10"
    using three_sends_slot by (elim exE conjE) (rule that; assumption)
  have dl: "deadline_with_clamp 0 10 = 10" "deadline_with_clamp 5 10 = 15"
    by (simp_all add: deadline_exact INSTANT_MAX_def)
  define q where "q = p\<lparr>pr_pending := [b, d], pr_pending_index := [(1, 1), (2, 2)],
    pr_total_send_failed := sat_add U64_MAX (pr_total_send_failed p) 1\<rparr>"
  define c1 where "c1 = sweep_send_timeouts 10 three_sends"
  have c1: "sc_slot c1 = Some q" "sc_outcomes c1 = [(0, SendErrorOutcome 0 SEND_TIMEOUT_CODE SEND_TIMEOUT_MESSAGE)]"
      "sc_wakers c1 = []" "sc_log c1 = [Accepted 0, Accepted 1, Accepted 2, Resolved 0 (SendErrorOutcome 0 SEND_TIMEOUT_CODE SEND_TIMEOUT_MESSAGE)]"
    using p by (simp_all add: c1_def sweep_send_timeouts_def sweep_live_sends_def drain_timed_out_sends_def dl resolve_send_error_def insert_outcome_def sweep_snapshot_sends_def three_sends_rest q_def)
  define c2 where "c2 = conn_register_waker 1 99 c1"
  have c2: "sc_slot c2 = Some (q\<lparr>pr_pending := [b, d\<lparr>op_waker := Some 99\<rparr>]\<rparr>)" "sc_wakers c2 = []"
      "sc_log c2 = sc_log c1 @ [Registered 1 99]"
    by (simp_all add: c2_def conn_register_waker_def c1 Let_def register_waker_def q_def)
  have st: "stuck = on_send_receipt receipt1 12 c2" unfolding stuck_def c1_def c2_def ..
  have "sc_log stuck = sc_log c2 @ [Resolved 1 (SendReceiptOutcome 1 (MessageId 0 0 (-1) (-1) 0))]"
    using p(4,6) by (simp add: st on_send_receipt_def c2 handle_send_receipt_def
        receipt1_def receipt_highest_def apply_receipt_def take_pending_def q_def remove_at_def
        resolve_receipt_def wake_slab_def insert_outcome_def Let_def)
  then show ?thesis
    unfolding c1_def [symmetric] by (auto simp: resolved_def accepted_def waiting_def c2(3) c1(4))
qed

text \<open>
  C4. With a send timeout a wake-up can be lost. \<open>drain_timed_out_sends\<close> removes the expired sends
  from the front of the queue and leaves the positions in \<open>pending_index\<close> as they were, so the next
  \<open>register_waker\<close> reaches a later send: here the first of three sends times out, the future of the
  second one registers, and the receipt of the second send arrives, resolves it, and does not wake
  the future.
\<close>

theorem send_timeout_loses_wakeup:
  "\<exists>c. sc_reach env0 (sc_init (create_slot 1 100 0 req_timeout) 1) c \<and> 1 \<in> resolved c \<and> waiting c 1 = Some 99"
proof -
  have r3: "sc_reach env0 (sc_init (create_slot 1 100 0 req_timeout) 1) three_sends"
    unfolding three_sends_def
    by (rule sc_reach.more [OF sc_reach.more [OF sc_reach.more [OF sc_reach.start sc_step.send] sc_step.send] sc_step.send])
       (auto simp: run_defs req_timeout_def req0_def)
  have r4: "sc_reach env0 (sc_init (create_slot 1 100 0 req_timeout) 1) (sweep_send_timeouts 10 three_sends)"
    by (rule sc_reach.more [OF r3 sc_step.timeouts])
  have "sc_reach env0 (sc_init (create_slot 1 100 0 req_timeout) 1) stuck"
    unfolding stuck_def
    by (rule sc_reach.more [OF sc_reach.more [OF r4 sc_step.register] sc_step.receipt]) (simp_all add: stuck_run)
  then show ?thesis using stuck_run by auto
qed

end
