(* ===== verification/Spec2Isabelle.thy ===== *)
theory Spec2Isabelle
  imports Lookup_Route Request_Futures Auto_Growth Chunk_Path Ack_Path Ack_Tracker Nack_Tracker Unacked_Tracker Wire_Frame Supervisor Memory_Budget Receiver_Queue Send_Wakeups
begin

text \<open>
  A verification development of Magnetar, an Apache Pulsar client in Rust. The protocol core of the
  client, \<open>crates/magnetar-proto\<close>, does no input or output: bytes and clock readings are passed in,
  frames, events and deadlines come out. The engines (\<open>magnetar-runtime-tokio\<close> and
  \<open>magnetar-runtime-moonpool\<close>) drive it with sockets and timers. The development models the parts of
  the core on which delivery rests, and the reconnect loop of the tokio engine. All paths below are
  relative to \<open>crates/magnetar-proto/src\<close> unless they name a crate.

  \<^bold>\<open>Conventions.\<close> Structures are records, enums are datatypes, every operation is one function with
  the state passed and returned. Counters of type u32, u64 and usize are natural numbers whose
  saturation or wrap-around is written out where the source performs it; i32 and i64 are integers;
  bitsets are words. Hash maps are association lists with distinct keys, B-tree sets sorted lists.
  \<open>Instant\<close> and \<open>Duration\<close> are numbers of nanoseconds with their representable maximum. A panic or an
  error return is a value of an option or sum type. Wakers are numbers, and the wake-ups a component
  performs are recorded in its state. Logging, metrics events and floating-point rates are left out.
  Third-party code (the protobuf codec, CRC-32C, the compression codecs, the UUID generator) is a
  parameter of the definitions that use it; what is assumed of it is a named predicate.

  \<^bold>\<open>Parts and theories.\<close>

  \<^item> \<open>Magnetar_Prelude\<close>: machine integers, big-endian byte strings, maps, sets and list helpers.
    \<open>Clock\<close>: \<open>time.rs\<close>, and the interface \<open>timer_source\<close> of a component with a poll and a
    deadline. \<open>Msg_Types\<close>: message ids and metadata of \<open>types.rs\<close> and of the generated protobuf code.
  \<^item> \<open>Ack_Tracker\<close>, \<open>Nack_Tracker\<close>, \<open>Unacked_Tracker\<close>: the three trackers of \<open>trackers/\<close>. Shown: grouped
    acknowledgements are neither lost nor invented, the greatest cumulative one is sent, polls
    redeliver exactly what is due; and two defects: a timer that spins when the group time overflows
    the clock, and an acknowledged message that is redelivered.
  \<^item> \<open>Wire_Frame\<close>: \<open>frame.rs\<close> and the decode loop of \<open>conn.rs\<close>. Shown: encoding and decoding are
    inverse, a stream of frames cut anywhere is delivered exactly once and in order, the zero-copy
    encoder agrees with the copying one, payloads leave only behind a verified checksum, and a
    corrupt frame is skipped.
  \<^item> \<open>Backoff_Policy\<close>: \<open>backoff.rs\<close> and \<open>operation_retry.rs\<close>. \<open>Anti_Thrash\<close>: \<open>anti_thrash.rs\<close>.
    \<open>Supervisor\<close>: \<open>supervisor.rs\<close> and the supervised loop of \<open>magnetar-runtime-tokio/src/driver.rs\<close>.
    Shown: bounds of the delays, exactly when the cooldown is armed, and that the supervisor dials
    within its budget and gives up.
  \<^item> \<open>Memory_Budget\<close>: \<open>memory_limit.rs\<close>, as sequential calls and as an interleaving of atomic steps.
    Shown: the limit holds under every interleaving, no wake-up is lost, and the calls are runs of
    the steps.
  \<^item> \<open>Receiver_Queue\<close>: \<open>receiver_queue.rs\<close>. Shown: bounds and growth of the auto-scaled policy, and
    its panic when the floor exceeds the absolute maximum.
  \<^item> \<open>Producer\<close> (definitions), \<open>Producer_Index\<close>, \<open>Producer_Send\<close>, \<open>Producer_Ops\<close> (invariants and
    specifications): \<open>producer.rs\<close>. The interface \<open>keyed_queue\<close> states what the connection needs of
    the pending queue.
  \<^item> \<open>Send_Conn\<close>: the publish side of \<open>conn.rs\<close> for one producer, calling the producer operations.
    \<open>Send_Session\<close>: its events as a step relation. Shown: every accepted send is live or resolved,
    never both and never lost, and the connection refines the contract of a send. \<open>Send_Wakeups\<close>:
    a resolved send has woken its future unless a send timeout is configured.

  \<^bold>\<open>Termination and fuel.\<close> No definition uses fuel: loops are structural recursion or have a
  measure (the bytes left for the decode loop, the staged frames for the drain loop, the attempts
  left for the supervisor).

  \<^bold>\<open>Not modelled.\<close> Of \<open>conn.rs\<close>: the handshake, authentication, lookups, schema requests, keep-alive,
  topic migration, and the scalable-topic commands; their state is disjoint from the modelled paths.
  Of the core: the transaction client, lookups, schemas, authentication providers (third-party
  libraries behind a thin wrapper) and the scalable-topics feature, which is experimental and off by
  default. The engines beyond the supervised loop, the client facade, the admin client and the
  command line are asynchronous input and output around the core. Floating-point rates and the
  quantiles of the latency histogram have no counterpart in the logic.
\<close>

end
